(* ===== verification/Prelude.thy ===== *)
theory Prelude
  imports Complex_Main "HOL-Library.Word"
begin

text \<open>
  Shared vocabulary of the development. The theory holds the machine types the C sources use,
  the output events a lab produces (a \<^verbatim>\<open>printf\<close> keeps its format string and its argument
  values), the collection of the constants the component theories extend, the
  arithmetic of per-thread state, and the interfaces the concurrent labs are proved against:
  transition systems with an invariant, those that in addition always come to an end, and those
  that refine an abstract system.
\<close>

text \<open>The numeric constants of the sources and of the C types, for proofs that compute with them.\<close>

named_theorems src_consts \<open>values of the sources' constants\<close>

section \<open>Machine types and values\<close>

type_synonym u8 = "8 word"
type_synonym u32 = "32 word"
type_synonym u64 = "64 word"
type_synonym i32 = int
type_synonym off_t = int
type_synonym double = real
type_synonym tid = nat

definition INT_MAX :: int where [src_consts]: "INT_MAX = 2147483647"

definition INT_MIN :: int where [src_consts]: "INT_MIN = -2147483648"

definition LONG_MAX :: int where [src_consts]: "LONG_MAX = 9223372036854775807"

definition LONG_MIN :: int where [src_consts]: "LONG_MIN = -9223372036854775808"

text \<open>Conversion of a \<open>long\<close> to \<open>int\<close>: the low 32 bits read as two's complement.\<close>

definition to_int :: "int \<Rightarrow> int" where
  "to_int x = (x + 2147483648) mod 4294967296 - 2147483648"

section \<open>Output events\<close>

text \<open>
  One event per \<^verbatim>\<open>printf\<close>, \<^verbatim>\<open>fprintf(stderr, ...)\<close> or \<^verbatim>\<open>perror\<close> call whose text depends on
  the run: on a value, or on the branch taken. The format is the source's format string
  without its newline escapes; the arguments are the values passed. Constant text (the
  explanations, exercises and quiz questions) is not recorded, apart from messages that tell which
  branch was taken. A dash or an arrow outside ASCII is written as a minus sign. A \<^verbatim>\<open>double\<close> is the
  real number it stands for: rounding and the quotient of two equal clock readings are not modelled.
\<close>

datatype arg = Num int | Str string | Ptr u64 | Dbl double

datatype out = Printf string "arg list" | Eprintf string "arg list" | Perror string

section \<open>Arithmetic shared by the components\<close>

lemma to_int_id [simp]: "INT_MIN \<le> x \<Longrightarrow> x \<le> INT_MAX \<Longrightarrow> to_int x = x"
  by (simp add: to_int_def src_consts)

lemma to_int_range: "INT_MIN \<le> to_int x" "to_int x \<le> INT_MAX"
  by (simp_all add: to_int_def src_consts)

text \<open>
  A quantity summed over the threads changes, when one thread moves, by what changed in that
  thread alone.
\<close>

lemma sum_change:
  fixes f g :: "nat \<Rightarrow> 'b :: comm_monoid_add"
  assumes "t < n" and "\<And>i. i < n \<Longrightarrow> i \<noteq> t \<Longrightarrow> g i = f i"
  shows "(\<Sum>i<n. g i) + f t = (\<Sum>i<n. f i) + g t"
proof -
  have fin: "finite {..<n}" and mem: "t \<in> {..<n}" using assms(1) by auto
  have "(\<Sum>i\<in>{..<n} - {t}. g i) = (\<Sum>i\<in>{..<n} - {t}. f i)"
    using assms(2) by (intro sum.cong) auto
  then show ?thesis
    unfolding sum.remove [OF fin mem, of f] sum.remove [OF fin mem, of g] by (simp add: ac_simps)
qed

lemma sum_decrease:
  fixes f g :: "nat \<Rightarrow> nat"
  assumes "t < n" "g t < f t" and "\<And>i. i < n \<Longrightarrow> i \<noteq> t \<Longrightarrow> g i = f i"
  shows "(\<Sum>i<n. g i) < (\<Sum>i<n. f i)"
  using sum_change [of t n g f] assms by simp

lemma sum_increment:
  fixes f g :: "nat \<Rightarrow> nat"
  assumes "t < n" "g t = Suc (f t)" and "\<And>i. i < n \<Longrightarrow> i \<noteq> t \<Longrightarrow> g i = f i"
  shows "(\<Sum>i<n. g i) = Suc (\<Sum>i<n. f i)"
  using sum_change [of t n g f] assms by simp

lemma sum_unchanged:
  fixes f g :: "nat \<Rightarrow> 'b :: comm_monoid_add"
  assumes "\<And>i. i < n \<Longrightarrow> g i = f i"
  shows "(\<Sum>i<n. g i) = (\<Sum>i<n. f i)"
  using assms by (intro sum.cong) auto

lemma sum_member_le:
  fixes f :: "nat \<Rightarrow> nat"
  shows "t < n \<Longrightarrow> f t \<le> (\<Sum>i<n. f i)"
  by (rule member_le_sum) auto

lemma sum_const_eq:
  fixes f :: "nat \<Rightarrow> nat"
  assumes "\<And>i. i < n \<Longrightarrow> f i = c"
  shows "(\<Sum>i<n. f i) = n * c"
  using assms by simp

section \<open>Transition systems\<close>

text \<open>
  A concurrent lab is a step relation of its threads' atomic actions. The interface asks for
  an initial state and an invariant that every step keeps; its client lemma is that the
  invariant holds in every reachable state.
\<close>

locale invariant_system =
  fixes start :: "'s"
    and step :: "'s \<Rightarrow> 's \<Rightarrow> bool"
    and inv :: "'s \<Rightarrow> bool"
  assumes inv_start: "inv start"
    and inv_step: "inv s \<Longrightarrow> step s t \<Longrightarrow> inv t"
begin

lemma inv_steps: "step\<^sup>*\<^sup>* s t \<Longrightarrow> inv s \<Longrightarrow> inv t"
  by (induction rule: rtranclp_induct) (auto intro: inv_step)

lemma inv_reachable: "step\<^sup>*\<^sup>* start s \<Longrightarrow> inv s"
  using inv_steps inv_start by blast

end

text \<open>
  The second interface adds an end state and a variant: no reachable state other than an end
  state is stuck, and every step lowers the variant. Then no schedule deadlocks or runs
  forever: whatever has happened so far, the run ends, and it ends in an end state.
\<close>

locale ending_system = invariant_system start step inv
  for start :: "'s" and step :: "'s \<Rightarrow> 's \<Rightarrow> bool" and inv :: "'s \<Rightarrow> bool" +
  fixes ended :: "'s \<Rightarrow> bool"
    and variant :: "'s \<Rightarrow> nat"
  assumes progress: "inv s \<Longrightarrow> \<not> ended s \<Longrightarrow> \<exists>t. step s t"
    and decreases: "inv s \<Longrightarrow> step s t \<Longrightarrow> variant t < variant s"
begin

lemma ends_from: "inv s \<Longrightarrow> \<exists>t. step\<^sup>*\<^sup>* s t \<and> ended t"
proof (induction "variant s" arbitrary: s rule: less_induct)
  case less
  show ?case
  proof (cases "ended s")
    case False
    then obtain t where t: "step s t" using progress less.prems by blast
    then obtain u where "step\<^sup>*\<^sup>* t u" "ended u"
      using less.hyps [OF decreases [OF less.prems t] inv_step [OF less.prems t]] by blast
    then show ?thesis using t by (blast intro: converse_rtranclp_into_rtranclp)
  qed blast
qed

lemma reaches_end: "step\<^sup>*\<^sup>* start s \<Longrightarrow> \<exists>t. step\<^sup>*\<^sup>* s t \<and> ended t"
  by (rule ends_from) (rule inv_reachable)

lemma stuck_is_ended: "step\<^sup>*\<^sup>* start s \<Longrightarrow> (\<And>t. \<not> step s t) \<Longrightarrow> ended s"
  using progress inv_reachable by blast

lemma run_length: "(step ^^ n) s t \<Longrightarrow> inv s \<Longrightarrow> n + variant t \<le> variant s"
proof (induction n arbitrary: t)
  case (Suc n)
  then obtain u where u: "(step ^^ n) s u" "step u t" by auto
  moreover have "inv u" using u(1) Suc.prems(2) inv_steps by (blast dest: relpowp_imp_rtranclp)
  ultimately show ?case using Suc.IH [of u] Suc.prems(2) decreases [of u t] by linarith
qed simp

end

text \<open>
  Refinement: an abstraction function maps the states of a detailed system to those of an abstract
  one, and every step of the detailed system is a step of the abstract one or invisible there. Then
  whatever the detailed system reaches, the abstract one reaches its image.
\<close>

locale refining_system = invariant_system start step inv
  for start :: "'s" and step :: "'s \<Rightarrow> 's \<Rightarrow> bool" and inv :: "'s \<Rightarrow> bool" +
  fixes abs_of :: "'s \<Rightarrow> 'a"
    and abs_step :: "'a \<Rightarrow> 'a \<Rightarrow> bool"
  assumes simulated: "inv s \<Longrightarrow> step s t \<Longrightarrow> abs_of t = abs_of s \<or> abs_step (abs_of s) (abs_of t)"
begin

lemma refines_from: "step\<^sup>*\<^sup>* s t \<Longrightarrow> inv s \<Longrightarrow> abs_step\<^sup>*\<^sup>* (abs_of s) (abs_of t)"
proof (induction rule: rtranclp_induct)
  case (step t u)
  then show ?case using simulated [OF inv_steps [OF step.hyps(1) step.prems] step.hyps(2)]
    by (auto intro: rtranclp.rtrancl_into_rtrancl)
qed simp

lemma refines: "step\<^sup>*\<^sup>* start s \<Longrightarrow> abs_step\<^sup>*\<^sup>* (abs_of start) (abs_of s)"
  by (rule refines_from [OF _ inv_start])

end

end
