(* ===== verification/Libc.thy ===== *)
theory Libc
  imports Prelude
begin

text \<open>
  The part of the C library the labs compute with, on byte strings: buffered line input
  (\<^verbatim>\<open>fgets\<close> with its size argument), the string searches (\<^verbatim>\<open>strncmp\<close> against a whole key,
  \<^verbatim>\<open>strstr\<close>, \<^verbatim>\<open>strcspn\<close> of a newline), bounded formatting (\<^verbatim>\<open>snprintf\<close>) and decimal conversion
  in both directions (\<^verbatim>\<open>%d\<close>, \<^verbatim>\<open>%lx\<close>, \<^verbatim>\<open>strtol\<close>, \<^verbatim>\<open>scanf\<close>). Files are the byte strings a reader
  finds in them; the files of \<^verbatim>\<open>/proc\<close> and \<^verbatim>\<open>/sys\<close> hold text, so no embedded NUL ends a line
  early. The lemmas say when a loop over \<^verbatim>\<open>fgets\<close> sees the lines of the file and what it sees
  otherwise, and that a decimal number is read back as it was written.
\<close>

section \<open>Line input\<close>

definition NL :: char where "NL = CHR 0x0A"

text \<open>What \<^verbatim>\<open>fgets\<close> stores when room for \<open>k\<close> bytes is left, and what stays in the stream.\<close>

fun fgets_chunk :: "nat \<Rightarrow> string \<Rightarrow> string \<times> string" where
  "fgets_chunk k [] = ([], [])"
| "fgets_chunk k (c # s) =
     (if k = 0 then ([], c # s)
      else if c = NL then ([c], s)
      else (case fgets_chunk (k - 1) s of (a, b) \<Rightarrow> (c # a, b)))"

text \<open>\<^verbatim>\<open>fgets(buf, n, fp)\<close>: \<open>None\<close> is the null pointer returned at end of file.\<close>

definition fgets :: "nat \<Rightarrow> string \<Rightarrow> (string \<times> string) option" where
  "fgets n s = (if s = [] then None else Some (fgets_chunk (n - 1) s))"

lemma fgets_chunk_append: "fgets_chunk k s = (a, b) \<Longrightarrow> a @ b = s"
  by (induction k s arbitrary: a b rule: fgets_chunk.induct) (auto split: if_splits prod.splits)

lemma fgets_chunk_nonempty: "fgets_chunk k s = (a, b) \<Longrightarrow> 0 < k \<Longrightarrow> s \<noteq> [] \<Longrightarrow> a \<noteq> []"
  by (cases s) (auto split: if_splits prod.splits)

lemma fgets_chunk_length: "fgets_chunk k s = (a, b) \<Longrightarrow> length a \<le> k"
  by (induction k s arbitrary: a b rule: fgets_chunk.induct)
    (auto split: if_splits prod.splits simp: Suc_le_eq less_diff_conv)

text \<open>The lines a loop \<^verbatim>\<open>while (fgets(line, n, fp))\<close> runs its body on (for \<open>n \<ge> 2\<close>).\<close>

function read_lines :: "nat \<Rightarrow> string \<Rightarrow> string list" where
  "read_lines n s =
     (if n < 2 then []
      else case fgets n s of None \<Rightarrow> [] | Some (l, r) \<Rightarrow> l # read_lines n r)"
  by pat_completeness auto
termination
proof (relation "measure (\<lambda>(n, s). length s)"; clarsimp)
  fix n :: nat and s a b
  assume n: "\<not> n < 2" and f: "fgets n s = Some (a, b)"
  then have c: "fgets_chunk (n - 1) s = (a, b)" and s: "s \<noteq> []"
    by (auto simp: fgets_def split: if_splits)
  show "length b < length s"
    using fgets_chunk_append [OF c] fgets_chunk_nonempty [OF c _ s] n by auto
qed

declare read_lines.simps [simp del]

lemma read_lines_Nil [simp]: "read_lines n [] = []"
  by (simp add: read_lines.simps fgets_def)

lemma read_lines_step:
  "2 \<le> n \<Longrightarrow> s \<noteq> [] \<Longrightarrow> fgets_chunk (n - 1) s = (a, b) \<Longrightarrow> read_lines n s = a # read_lines n b"
  by (subst read_lines.simps) (simp add: fgets_def)

lemma read_lines_induct [consumes 1, case_names Nil step]:
  assumes n: "2 \<le> n" and nil: "P []"
    and step: "\<And>s a b. s \<noteq> [] \<Longrightarrow> fgets_chunk (n - 1) s = (a, b) \<Longrightarrow> P b \<Longrightarrow> P s"
  shows "P s"
proof (induction s rule: length_induct)
  case (1 s)
  show ?case
  proof (cases "s = []")
    case False
    obtain a b where c: "fgets_chunk (n - 1) s = (a, b)" by fastforce
    have "length b < length s"
      using fgets_chunk_append [OF c] fgets_chunk_nonempty [OF c _ False] n by auto
    then show ?thesis using step [OF False c] 1 by blast
  qed (simp add: nil)
qed

lemma concat_read_lines:
  assumes n: "2 \<le> n"
  shows "concat (read_lines n s) = s"
  using n
proof (induction s rule: read_lines_induct)
  case (step s a b)
  then show ?case by (simp add: read_lines_step [OF n] fgets_chunk_append)
qed simp

lemma read_lines_bounded:
  assumes n: "2 \<le> n"
  shows "l \<in> set (read_lines n s) \<Longrightarrow> l \<noteq> [] \<and> length l < n"
  using n
proof (induction s rule: read_lines_induct)
  case (step s a b)
  then show ?case
    using fgets_chunk_length [of "n - 1" s a b] fgets_chunk_nonempty [of "n - 1" s a b] n
    by (auto simp: read_lines_step [OF n])
qed simp

text \<open>The lines of a file as a reader of text understands them, newline included.\<close>

fun lines_of :: "string \<Rightarrow> string list" where
  "lines_of [] = []"
| "lines_of (c # s) =
     (if c = NL then [c] # lines_of s
      else case lines_of s of [] \<Rightarrow> [[c]] | l # ls \<Rightarrow> (c # l) # ls)"

lemma lines_of_eq_Nil [simp]: "lines_of s = [] \<longleftrightarrow> s = []"
  by (cases s) (auto split: list.splits)

lemma concat_lines_of: "concat (lines_of s) = s"
  by (induction s) (auto split: list.splits)

lemma length_lines_of:
  "length (lines_of s) = count_list s NL + (if s \<noteq> [] \<and> last s \<noteq> NL then 1 else 0)"
proof (induction s)
  case (Cons c s)
  show ?case
  proof (cases "s = []")
    case False
    then obtain l ls where "lines_of s = l # ls" by (cases "lines_of s") auto
    with Cons False show ?thesis by auto
  qed simp
qed simp

lemma lines_of_chunk:
  "s \<noteq> [] \<Longrightarrow> length (hd (lines_of s)) \<le> k \<Longrightarrow> fgets_chunk k s = (a, b) \<Longrightarrow>
   lines_of s = a # lines_of b"
proof (induction s arbitrary: k a b)
  case (Cons c s)
  show ?case
  proof (cases "c = NL \<or> s = []")
    case True
    with Cons.prems show ?thesis by (auto split: if_splits)
  next
    case False
    then obtain l ls where ls: "lines_of s = l # ls" by (cases "lines_of s") auto
    with Cons.prems False have k: "length l \<le> k - 1" "k \<noteq> 0" by auto
    obtain a' b' where c: "fgets_chunk (k - 1) s = (a', b')" by fastforce
    have "lines_of s = a' # lines_of b'"
      using Cons.IH [OF _ _ c] False ls k by simp
    with Cons.prems False k c ls show ?thesis by auto
  qed
qed simp

text \<open>When every line fits in the buffer, the loop sees exactly the lines of the file.\<close>

lemma read_lines_short:
  assumes n: "2 \<le> n"
  shows "\<forall>l\<in>set (lines_of s). length l < n \<Longrightarrow> read_lines n s = lines_of s"
  using n
proof (induction s rule: read_lines_induct)
  case (step s a b)
  then have "length (hd (lines_of s)) \<le> n - 1" by (cases "lines_of s") auto
  then have "lines_of s = a # lines_of b" using step lines_of_chunk by blast
  with step show ?case by (simp add: read_lines_step [OF n])
qed simp

text \<open>In general the loop runs at least once per line: a long line is seen in pieces.\<close>

lemma fgets_chunk_newlines:
  "fgets_chunk k s = (a, b) \<Longrightarrow> count_list a NL \<le> 1 \<and> (a \<noteq> [] \<and> last a = NL \<or> count_list a NL = 0)"
  by (induction k s arbitrary: a b rule: fgets_chunk.induct)
    (auto split: if_splits prod.splits)

lemma read_lines_at_least:
  assumes n: "2 \<le> n"
  shows "length (lines_of s) \<le> length (read_lines n s)"
  using n
proof (induction s rule: read_lines_induct)
  case (step s a b)
  have s: "s = a @ b" and a: "a \<noteq> []"
    using fgets_chunk_append [OF step(2)] fgets_chunk_nonempty [OF step(2) _ step(1)] n by auto
  have "length (lines_of s) \<le> Suc (length (lines_of b))"
    using fgets_chunk_newlines [OF step(2)] a by (auto simp: s length_lines_of last_append split: if_splits)
  with step show ?case by (simp add: read_lines_step [OF n])
qed simp

section \<open>Searching\<close>

text \<open>\<^verbatim>\<open>strncmp(line, key, strlen(key)) == 0\<close>\<close>

definition starts_with :: "string \<Rightarrow> string \<Rightarrow> bool" where
  "starts_with key line = (take (length key) line = key)"

text \<open>\<^verbatim>\<open>strstr(line, key) != NULL\<close>\<close>

fun strstr :: "string \<Rightarrow> string \<Rightarrow> bool" where
  "strstr [] key = (key = [])"
| "strstr (c # s) key = (starts_with key (c # s) \<or> strstr s key)"

text \<open>\<^verbatim>\<open>buf[strcspn(buf, "\n")] = 0\<close>\<close>

definition chomp :: "string \<Rightarrow> string" where
  "chomp s = takeWhile (\<lambda>c. c \<noteq> NL) s"

text \<open>\<^verbatim>\<open>snprintf(buf, n, ...)\<close> and \<^verbatim>\<open>strncpy\<close> into a terminated buffer keep \<open>n - 1\<close> bytes.\<close>

definition snprintf :: "nat \<Rightarrow> string \<Rightarrow> string" where
  "snprintf n s = take (n - 1) s"

lemma starts_with_iff: "starts_with key line \<longleftrightarrow> (\<exists>r. line = key @ r)"
  unfolding starts_with_def by (metis append_eq_conv_conj append_take_drop_id)

lemma strstr_iff: "strstr line key \<longleftrightarrow> (\<exists>p r. line = p @ key @ r)"
proof (induction line)
  case (Cons c s)
  have "(\<exists>p r. c # s = p @ key @ r) \<longleftrightarrow> (\<exists>r. c # s = key @ r) \<or> (\<exists>p r. s = p @ key @ r)"
    by (auto simp: Cons_eq_append_conv)
  with Cons show ?case by (simp add: starts_with_iff)
qed simp

lemma chomp_no_newline [simp]: "NL \<notin> set (chomp s)"
  by (auto simp: chomp_def dest: set_takeWhileD)

lemma chomp_append_NL [simp]: "NL \<notin> set s \<Longrightarrow> chomp (s @ [NL]) = s"
  unfolding chomp_def by (subst takeWhile_append2) auto

lemma length_snprintf: "0 < n \<Longrightarrow> length (snprintf n s) < n"
  by (auto simp: snprintf_def)

lemma snprintf_fits [simp]: "length s < n \<Longrightarrow> snprintf n s = s"
  by (simp add: snprintf_def)

section \<open>Decimal and hexadecimal conversion\<close>

definition digit :: "nat \<Rightarrow> char" where
  "digit d = char_of (if d < 10 then 48 + d else 87 + d)"

fun show_nat :: "nat \<Rightarrow> string" where
  "show_nat n = (if n < 10 then [digit n] else show_nat (n div 10) @ [digit (n mod 10)])"

fun show_hex :: "nat \<Rightarrow> string" where
  "show_hex n = (if n < 16 then [digit n] else show_hex (n div 16) @ [digit (n mod 16)])"

declare show_nat.simps [simp del] show_hex.simps [simp del]

text \<open>\<^verbatim>\<open>%d\<close>, \<^verbatim>\<open>%ld\<close>\<close>

definition show_int :: "int \<Rightarrow> string" where
  "show_int i = (if i < 0 then CHR ''-'' # show_nat (nat (- i)) else show_nat (nat i))"

definition is_digit :: "char \<Rightarrow> bool" where
  "is_digit c = (48 \<le> (of_char c :: nat) \<and> (of_char c :: nat) \<le> 57)"

definition is_space :: "char \<Rightarrow> bool" where
  "is_space c = (c = CHR 0x20 \<or> (9 \<le> (of_char c :: nat) \<and> (of_char c :: nat) \<le> 13))"

fun scan_digits :: "nat \<Rightarrow> string \<Rightarrow> nat \<times> string" where
  "scan_digits acc [] = (acc, [])"
| "scan_digits acc (c # s) =
     (if is_digit c then scan_digits (acc * 10 + (of_char c - 48)) s else (acc, c # s))"

text \<open>One \<^verbatim>\<open>%d\<close> conversion of \<^verbatim>\<open>scanf\<close>: white space, a sign, at least one digit.\<close>

definition scan_unsigned :: "string \<Rightarrow> (nat \<times> string) option" where
  "scan_unsigned s =
     (case s of [] \<Rightarrow> None | c # _ \<Rightarrow> if is_digit c then Some (scan_digits 0 s) else None)"

definition scan_int :: "string \<Rightarrow> (int \<times> string) option" where
  "scan_int s =
     (case dropWhile is_space s of
        [] \<Rightarrow> None
      | c # r \<Rightarrow>
          if c = CHR ''-'' then map_option (\<lambda>(v, t). (- int v, t)) (scan_unsigned r)
          else map_option (\<lambda>(v, t). (int v, t)) (scan_unsigned (if c = CHR ''+'' then r else c # r)))"

text \<open>\<^verbatim>\<open>strtol(s, NULL, 10)\<close> and \<^verbatim>\<open>atol\<close>: the value saturates at the ends of \<open>long\<close>.\<close>

definition strtol :: "string \<Rightarrow> int" where
  "strtol s = (case scan_int s of None \<Rightarrow> 0 | Some (v, _) \<Rightarrow> max LONG_MIN (min LONG_MAX v))"

lemma of_char_digit [simp]: "d < 10 \<Longrightarrow> of_char (digit d) = 48 + d"
  by (simp add: digit_def)

lemma is_digit_digit [simp]: "d < 10 \<Longrightarrow> is_digit (digit d)"
  by (simp add: is_digit_def)

lemma scan_digits_append:
  "list_all is_digit s \<Longrightarrow> scan_digits acc (s @ r) = scan_digits (fst (scan_digits acc s)) r"
  by (induction s arbitrary: acc) auto

lemma show_nat_digits: "list_all is_digit (show_nat n)"
proof (induction n rule: show_nat.induct)
  case (1 n)
  then show ?case by (subst show_nat.simps) auto
qed

lemma show_nat_nonempty: "\<exists>c s. show_nat n = c # s \<and> is_digit c"
proof -
  have "show_nat n \<noteq> []" by (subst show_nat.simps) simp
  then show ?thesis using show_nat_digits [of n] by (cases "show_nat n") auto
qed

lemma scan_show_nat: "scan_digits 0 (show_nat n) = (n, [])"
proof (induction n rule: show_nat.induct)
  case (1 n)
  then show ?case
    by (subst show_nat.simps) (auto simp: scan_digits_append show_nat_digits)
qed

lemma scan_digits_show:
  assumes "r = [] \<or> \<not> is_digit (hd r)"
  shows "scan_digits 0 (show_nat n @ r) = (n, r)"
  using assms by (cases r) (auto simp: scan_digits_append show_nat_digits scan_show_nat)

lemma is_digit_not_space: "is_digit c \<Longrightarrow> \<not> is_space c"
  by (auto simp: is_digit_def is_space_def)

lemma is_digit_not_sign: "is_digit c \<Longrightarrow> c \<noteq> CHR ''-'' \<and> c \<noteq> CHR ''+''"
  by (auto simp: is_digit_def)

lemma scan_unsigned_show:
  "r = [] \<or> \<not> is_digit (hd r) \<Longrightarrow> scan_unsigned (show_nat n @ r) = Some (n, r)"
  using show_nat_nonempty [of n] scan_digits_show [of r n] by (auto simp: scan_unsigned_def)

lemma dropWhile_all_append: "list_all P w \<Longrightarrow> dropWhile P (w @ s) = dropWhile P s"
  by (induction w) auto

text \<open>A number printed in decimal is read back, whatever white space precedes it.\<close>

lemma scan_int_show:
  assumes w: "list_all is_space w" and r: "r = [] \<or> \<not> is_digit (hd r)"
  shows "scan_int (w @ show_int i @ r) = Some (i, r)"
proof (cases "i < 0")
  case True
  have "\<not> is_space (CHR ''-'')" by (simp add: is_space_def)
  with True show ?thesis
    by (simp add: scan_int_def dropWhile_all_append [OF w] show_int_def scan_unsigned_show [OF r])
next
  case False
  obtain c s where cs: "show_nat (nat i) = c # s" "is_digit c" using show_nat_nonempty by blast
  have "scan_unsigned (c # s @ r) = Some (nat i, r)"
    using scan_unsigned_show [OF r, of "nat i"] cs by simp
  with False cs show ?thesis
    by (simp add: scan_int_def dropWhile_all_append [OF w] show_int_def is_digit_not_space
        is_digit_not_sign)
qed

lemma strtol_show: "LONG_MIN \<le> i \<Longrightarrow> i \<le> LONG_MAX \<Longrightarrow> strtol (show_int i) = i"
  using scan_int_show [of "[]" "[]" i] by (simp add: strtol_def)

end
