(* ===== verification/Clock.thy ===== *)
theory Clock
  imports Prelude
begin

text \<open>
  The monotonic clock. The labs read it with \<^verbatim>\<open>clock_gettime(CLOCK_MONOTONIC, ...)\<close> and turn the reading
  into a \<^verbatim>\<open>double\<close>, some in seconds (\<^verbatim>\<open>now_sec\<close>, \<^verbatim>\<open>now_seconds\<close>), some in nanoseconds (\<^verbatim>\<open>now_ns\<close>),
  lab 29 subtracts two readings. What the clock shows at each reading is a parameter of the labs.
\<close>

record timespec =
  tv_sec :: int
  tv_nsec :: int

definition now_sec :: "timespec \<Rightarrow> double" where
  "now_sec ts = real_of_int (tv_sec ts) + real_of_int (tv_nsec ts) / 10 ^ 9"

definition now_ns :: "timespec \<Rightarrow> double" where
  "now_ns ts = real_of_int (tv_sec ts) * 10 ^ 9 + real_of_int (tv_nsec ts)"

definition elapsed_ms :: "timespec \<Rightarrow> timespec \<Rightarrow> double" where
  "elapsed_ms t0 t1 = real_of_int (tv_sec t1 - tv_sec t0) * 1000 + real_of_int (tv_nsec t1 - tv_nsec t0) / 10 ^ 6"

text \<open>The counters of \<^verbatim>\<open>getrusage(RUSAGE_SELF, ...)\<close> the labs look at.\<close>

record rusage =
  ru_minflt :: int
  ru_majflt :: int

definition get_faults :: "rusage \<Rightarrow> int \<times> int" where
  "get_faults ru = (ru_minflt ru, ru_majflt ru)"

text \<open>
  What the interface promises: nanoseconds stay below a second, and later readings are not smaller.
\<close>

definition valid_reading :: "timespec \<Rightarrow> bool" where
  "valid_reading ts \<longleftrightarrow> 0 \<le> tv_nsec ts \<and> tv_nsec ts < 10 ^ 9"

definition not_before :: "timespec \<Rightarrow> timespec \<Rightarrow> bool" where
  "not_before a b \<longleftrightarrow> tv_sec a < tv_sec b \<or> tv_sec a = tv_sec b \<and> tv_nsec a \<le> tv_nsec b"

text \<open>The three ways of measuring agree, up to the unit.\<close>

lemma clocks_agree:
  "now_ns t1 - now_ns t0 = 10 ^ 9 * (now_sec t1 - now_sec t0)"
  "elapsed_ms t0 t1 = 1000 * (now_sec t1 - now_sec t0)"
  by (simp_all add: now_ns_def now_sec_def elapsed_ms_def field_simps)

text \<open>On such a clock no lab measures a negative time.\<close>

lemma elapsed_nonneg:
  assumes "valid_reading a" "valid_reading b" "not_before a b"
  shows "now_sec a \<le> now_sec b" "now_ns a \<le> now_ns b" "0 \<le> elapsed_ms a b"
proof -
  have "tv_sec a * 10 ^ 9 + tv_nsec a \<le> tv_sec b * 10 ^ 9 + tv_nsec b"
    using assms by (auto simp: valid_reading_def not_before_def)
  then have "real_of_int (tv_sec a * 10 ^ 9 + tv_nsec a) \<le> real_of_int (tv_sec b * 10 ^ 9 + tv_nsec b)"
    by (simp only: of_int_le_iff)
  then show ns: "now_ns a \<le> now_ns b" by (simp add: now_ns_def)
  with clocks_agree [where ?t0.0 = a and ?t1.0 = b] show "now_sec a \<le> now_sec b" "0 \<le> elapsed_ms a b"
    by simp_all
qed

end
