(* ===== verification/PageCache.thy ===== *)
theory PageCache
  imports Libc Clock
begin

text \<open>
  The page cache comparison \<^verbatim>\<open>labs/page_cache_models.c\<close>: one file is read by one thread, by
  several threads, by several processes or by processes with several threads each, and every
  round sums a sample of the bytes read. What the kernel answers to a worker's calls (open,
  seek, allocation, each read, the fault counters and the clock) is a record the definitions
  take as a parameter; the file itself appears in the theorems as the content its reads return.
\<close>

section \<open>Workers\<close>

record worker_arg_t =
  wa_path :: string
  wa_start :: off_t
  wa_end :: off_t
  wa_id :: int

record worker_result_t =
  minflt :: int
  majflt :: int
  seconds :: double
  checksum :: u64

text \<open>
  The answers to one worker's system calls. \<open>we_read k pos n\<close> is the outcome of the \<open>k\<close>-th
  \<^verbatim>\<open>read\<close> of \<open>n\<close> bytes at file position \<open>pos\<close>: \<open>None\<close> for an error, else the bytes stored.
\<close>

record worker_env =
  we_open :: bool
  we_lseek :: bool
  we_buf :: bool
  we_res :: bool
  we_read :: "nat \<Rightarrow> nat \<Rightarrow> nat \<Rightarrow> u8 list option"
  we_faults0 :: "rusage option"
  we_faults1 :: "rusage option"
  we_t0 :: timespec
  we_t1 :: timespec

definition BUF_SIZE :: int where "BUF_SIZE = 1024 * 1024"

definition now_seconds :: "timespec \<Rightarrow> double" where
  "now_seconds ts = real_of_int (tv_sec ts) + real_of_int (tv_nsec ts) / 10 ^ 9"

text \<open>\<^verbatim>\<open>get_faults\<close>: a failing \<^verbatim>\<open>getrusage\<close> ends the process.\<close>

definition pcm_get_faults :: "rusage option \<Rightarrow> string + (int \<times> int)" where
  "pcm_get_faults ru = (case ru of None \<Rightarrow> Inl ''getrusage'' | Some r \<Rightarrow> Inr (ru_minflt r, ru_majflt r))"

text \<open>The sampling loop: every 4096th byte of the buffer is added to the checksum.\<close>

fun sample :: "u8 list \<Rightarrow> u64 \<Rightarrow> u64" where
  "sample [] cs = cs"
| "sample (b # bs) cs = sample (drop 4095 bs) (cs + ucast b)"

function read_loop ::
    "(nat \<Rightarrow> nat \<Rightarrow> nat \<Rightarrow> u8 list option) \<Rightarrow> nat \<Rightarrow> nat \<Rightarrow> off_t \<Rightarrow> u64 \<Rightarrow> string + u64" where
  "read_loop rd k pos remaining cs =
     (if remaining > 0 then
        let chunk = (if remaining > BUF_SIZE then BUF_SIZE else remaining) in
        case rd k pos (nat chunk) of
          None \<Rightarrow> Inl ''read''
        | Some buf \<Rightarrow>
            if buf = [] then Inr cs
            else read_loop rd (Suc k) (pos + length buf) (remaining - int (length buf)) (sample buf cs)
      else Inr cs)"
  by pat_completeness auto
termination
  by (relation "measure (\<lambda>(rd, k, pos, remaining, cs). nat remaining)")
    (auto simp flip: length_greater_0_conv)

declare read_loop.simps [simp del]

definition read_range :: "worker_env \<Rightarrow> off_t \<Rightarrow> off_t \<Rightarrow> string + worker_result_t" where
  "read_range e start end =
     (if \<not> we_open e then Inl ''open''
      else if \<not> we_lseek e then Inl ''lseek''
      else if \<not> we_buf e then Inl ''malloc''
      else case pcm_get_faults (we_faults0 e) of
        Inl m \<Rightarrow> Inl m
      | Inr (min0, maj0) \<Rightarrow>
          (case read_loop (we_read e) 0 (nat start) (end - start) 0 of
             Inl m \<Rightarrow> Inl m
           | Inr cs \<Rightarrow>
               (case pcm_get_faults (we_faults1 e) of
                  Inl m \<Rightarrow> Inl m
                | Inr (min1, maj1) \<Rightarrow>
                    Inr \<lparr>minflt = min1 - min0, majflt = maj1 - maj0,
                         seconds = now_seconds (we_t1 e) - now_seconds (we_t0 e), checksum = cs\<rparr>)))"

text \<open>
  A thread returns the null pointer when its result cannot be allocated; an error inside
  \<^verbatim>\<open>read_range\<close> is \<^verbatim>\<open>exit(1)\<close>, the end of the whole process, here \<open>Inl\<close>.
\<close>

definition thread_worker :: "worker_env \<Rightarrow> worker_arg_t \<Rightarrow> string + worker_result_t option" where
  "thread_worker e wa =
     (if \<not> we_res e then Inr None
      else case read_range e (wa_start wa) (wa_end wa) of Inl m \<Rightarrow> Inl m | Inr r \<Rightarrow> Inr (Some r))"

section \<open>Command line\<close>

datatype exec_mode = Single | Threads | Processes | Hybrid

record pcm_config =
  cf_path :: string
  cf_mode :: exec_mode
  cf_procs :: int
  cf_threads :: int
  cf_workers :: int
  cf_rounds :: int
  cf_size :: off_t

datatype pcm_error = Usage | Fatal string

definition file_size :: "(string \<Rightarrow> off_t option) \<Rightarrow> string \<Rightarrow> pcm_error + off_t" where
  "file_size stat path = (case stat path of None \<Rightarrow> Inl (Fatal ''stat'') | Some n \<Rightarrow> Inr n)"

definition pcm_parse :: "(string \<Rightarrow> off_t option) \<Rightarrow> string list \<Rightarrow> pcm_error + pcm_config" where
  "pcm_parse stat argv =
     (if length argv \<noteq> 6 then Inl Usage
      else
        let path = argv ! 1; mode = argv ! 2;
            proc_count = to_int (strtol (argv ! 3));
            thread_count = to_int (strtol (argv ! 4));
            rounds = to_int (strtol (argv ! 5))
        in if proc_count \<le> 0 \<or> proc_count > 1024 \<or> thread_count \<le> 0 \<or> thread_count > 1024
              \<or> rounds \<le> 0 then Inl Usage
           else case file_size stat path of
             Inl e \<Rightarrow> Inl e
           | Inr sz \<Rightarrow>
               let cfg = (\<lambda>m p t w. Inr \<lparr>cf_path = path, cf_mode = m, cf_procs = p, cf_threads = t,
                                         cf_workers = w, cf_rounds = rounds, cf_size = sz\<rparr>)
               in if mode = ''single'' then cfg Single 1 1 1
                  else if mode = ''threads'' then cfg Threads 1 thread_count thread_count
                  else if mode = ''processes'' then cfg Processes proc_count 1 proc_count
                  else if mode = ''hybrid''
                    then cfg Hybrid proc_count thread_count (to_int (proc_count * thread_count))
                  else Inl Usage)"

section \<open>One round\<close>

definition slice_len :: "pcm_config \<Rightarrow> off_t" where
  "slice_len c = cf_size c div cf_workers c"

definition worker_arg :: "pcm_config \<Rightarrow> int \<Rightarrow> worker_arg_t" where
  "worker_arg c i =
     \<lparr>wa_path = cf_path c, wa_start = i * slice_len c,
      wa_end = (if i = cf_workers c - 1 then cf_size c else (i + 1) * slice_len c), wa_id = i\<rparr>"

text \<open>
  The answers to the calls of one round: workers are numbered by their global id, processes
  from 0.
\<close>

record round_env =
  re_calloc :: bool
  re_create :: "nat \<Rightarrow> bool"
  re_worker :: "nat \<Rightarrow> worker_env"
  re_pipe :: "nat \<Rightarrow> bool"
  re_fork :: "nat \<Rightarrow> bool"
  re_child_calloc :: "nat \<Rightarrow> bool"
  re_fdopen :: "nat \<Rightarrow> bool"
  re_t0 :: timespec
  re_t1 :: timespec

text \<open>
  Creating the threads and letting them run. A failed creation or an \<^verbatim>\<open>exit(1)\<close> of a worker
  ends the process with status 1. The workers share nothing, so they are run one after the other;
  when one of them ends the process, the lines the join loop may have printed for earlier ones
  by then are not recorded. The status and the missing summary do not depend on that.
\<close>

fun run_workers :: "round_env \<Rightarrow> pcm_config \<Rightarrow> nat list \<Rightarrow> string + worker_result_t option list" where
  "run_workers e c [] = Inr []"
| "run_workers e c (i # is) =
     (if \<not> re_create e i then Inl ''pthread_create''
      else case thread_worker (re_worker e i) (worker_arg c (int i)) of
        Inl m \<Rightarrow> Inl m
      | Inr r \<Rightarrow> (case run_workers e c is of Inl m \<Rightarrow> Inl m | Inr rs \<Rightarrow> Inr (r # rs)))"

type_synonym totals = "int \<times> int \<times> u64"

text \<open>The join loop of the threaded modes; it prints a line per worker.\<close>

fun join_workers :: "int \<Rightarrow> worker_result_t option list \<Rightarrow> totals \<Rightarrow> out list \<times> totals option" where
  "join_workers i [] acc = ([], Some acc)"
| "join_workers i (None # rs) acc = ([Eprintf ''thread join failed'' []], None)"
| "join_workers i (Some r # rs) (tmin, tmaj, cs) =
     (case join_workers (i + 1) rs (tmin + minflt r, tmaj + majflt r, cs + checksum r) of
        (os, res) \<Rightarrow>
          (Printf ''worker=%d minflt=%ld majflt=%ld sec=%.3f''
             [Num i, Num (minflt r), Num (majflt r), Dbl (seconds r)] # os, res))"

definition summary :: "totals \<Rightarrow> double \<Rightarrow> out" where
  "summary t el =
     (case t of (tmin, tmaj, cs) \<Rightarrow>
        Printf ''summary minflt=%ld majflt=%ld checksum=%llu elapsed=%.3f''
          [Num tmin, Num tmaj, Num (uint cs), Dbl el])"

text \<open>A round yields its output and, unless the program ended with status 1, its totals.\<close>

definition round_threads :: "round_env \<Rightarrow> pcm_config \<Rightarrow> out list \<times> totals option" where
  "round_threads e c =
     (if \<not> re_calloc e then ([Perror ''calloc''], None)
      else case run_workers e c [0..<nat (cf_workers c)] of
        Inl m \<Rightarrow> ([Perror m], None)
      | Inr rs \<Rightarrow>
          (case join_workers 0 rs (0, 0, 0) of
             (os, None) \<Rightarrow> (os, None)
           | (os, Some t) \<Rightarrow> (os @ [summary t (now_seconds (re_t1 e) - now_seconds (re_t0 e))], Some t)))"

text \<open>The join loop of a child process prints nothing; a null result is \<^verbatim>\<open>_exit(1)\<close>.\<close>

fun child_join :: "worker_result_t option list \<Rightarrow> totals \<Rightarrow> totals option" where
  "child_join [] acc = Some acc"
| "child_join (None # rs) acc = None"
| "child_join (Some r # rs) (tmin, tmaj, cs) =
     child_join rs (tmin + minflt r, tmaj + majflt r, cs + checksum r)"

definition pipe_line :: "int \<Rightarrow> totals \<Rightarrow> string" where
  "pipe_line p t =
     (case t of (tmin, tmaj, cs) \<Rightarrow>
        show_int p @ '' '' @ show_int tmin @ '' '' @ show_int tmaj @ '' ''
          @ show_int (uint cs) @ [NL])"

text \<open>What child \<open>p\<close> leaves in its pipe: nothing when it stops early.\<close>

definition child_process :: "round_env \<Rightarrow> pcm_config \<Rightarrow> nat \<Rightarrow> string" where
  "child_process e c p =
     (if \<not> re_child_calloc e p then []
      else case run_workers e c
             (map (\<lambda>t. p * nat (cf_threads c) + t) [0..<nat (cf_threads c)]) of
        Inl m \<Rightarrow> []
      | Inr rs \<Rightarrow>
          (case child_join rs (0, 0, 0) of None \<Rightarrow> [] | Some t \<Rightarrow> pipe_line (int p) t))"

text \<open>\<^verbatim>\<open>fscanf(fp, "%d %ld %ld %llu", ...) == 4\<close>\<close>

definition scan_line :: "string \<Rightarrow> (int \<times> totals) option" where
  "scan_line s =
     (case scan_int s of None \<Rightarrow> None | Some (idx, s1) \<Rightarrow>
      (case scan_int s1 of None \<Rightarrow> None | Some (minf, s2) \<Rightarrow>
      (case scan_int s2 of None \<Rightarrow> None | Some (majf, s3) \<Rightarrow>
      (case scan_int s3 of None \<Rightarrow> None | Some (part, _) \<Rightarrow>
         Some (idx, minf, majf, word_of_int part)))))"

fun spawn :: "round_env \<Rightarrow> pcm_config \<Rightarrow> nat list \<Rightarrow> string + string list" where
  "spawn e c [] = Inr []"
| "spawn e c (p # ps) =
     (if \<not> re_pipe e p then Inl ''pipe''
      else if \<not> re_fork e p then Inl ''fork''
      else case spawn e c ps of Inl m \<Rightarrow> Inl m | Inr ls \<Rightarrow> Inr (child_process e c p # ls))"

fun collect :: "round_env \<Rightarrow> nat \<Rightarrow> string list \<Rightarrow> totals \<Rightarrow> out list \<times> totals option" where
  "collect e p [] acc = ([], Some acc)"
| "collect e p (l # ls) (tmin, tmaj, cs) =
     (if \<not> re_fdopen e p then ([Perror ''fdopen''], None)
      else case scan_line l of
        Some (idx, minf, majf, part) \<Rightarrow>
          (case collect e (Suc p) ls (tmin + minf, tmaj + majf, cs + part) of
             (os, res) \<Rightarrow>
               (Printf ''proc=%d minflt=%ld majflt=%ld'' [Num idx, Num minf, Num majf] # os, res))
      | None \<Rightarrow> collect e (Suc p) ls (tmin, tmaj, cs))"

definition round_processes :: "round_env \<Rightarrow> pcm_config \<Rightarrow> out list \<times> totals option" where
  "round_processes e c =
     (if \<not> re_calloc e then ([Perror ''calloc''], None)
      else case spawn e c [0..<nat (cf_procs c)] of
        Inl m \<Rightarrow> ([Perror m], None)
      | Inr ls \<Rightarrow>
          (case collect e 0 ls (0, 0, 0) of
             (os, None) \<Rightarrow> (os, None)
           | (os, Some t) \<Rightarrow> (os @ [summary t (now_seconds (re_t1 e) - now_seconds (re_t0 e))], Some t)))"

definition pcm_round :: "round_env \<Rightarrow> pcm_config \<Rightarrow> out list \<times> totals option" where
  "pcm_round e c =
     (if cf_mode c = Single \<or> cf_mode c = Threads then round_threads e c else round_processes e c)"

section \<open>The program\<close>

fun pcm_rounds :: "(nat \<Rightarrow> round_env) \<Rightarrow> pcm_config \<Rightarrow> nat list \<Rightarrow> out list \<times> int" where
  "pcm_rounds env c [] = ([], 0)"
| "pcm_rounds env c (r # rs) =
     (case pcm_round (env r) c of
        (os, None) \<Rightarrow> (Printf ''--- Round %d ---'' [Num (int r)] # os, 1)
      | (os, Some t) \<Rightarrow>
          (case pcm_rounds env c rs of
             (os', rc) \<Rightarrow> (Printf ''--- Round %d ---'' [Num (int r)] # os @ os', rc)))"

fun mode_name :: "exec_mode \<Rightarrow> string" where
  "mode_name Single = ''single''"
| "mode_name Threads = ''threads''"
| "mode_name Processes = ''processes''"
| "mode_name Hybrid = ''hybrid''"

definition pcm_banner :: "pcm_config \<Rightarrow> out list" where
  "pcm_banner c =
     [Printf ''File             : %s'' [Str (cf_path c)],
      Printf ''File size        : %lld bytes'' [Num (cf_size c)],
      Printf ''Mode             : %s'' [Str (mode_name (cf_mode c))],
      Printf ''Processes        : %d'' [Num (cf_procs c)],
      Printf ''Threads/process  : %d'' [Num (cf_threads c)],
      Printf ''Total workers    : %d'' [Num (cf_workers c)],
      Printf ''Rounds           : %d'' [Num (cf_rounds c)]]"

definition pcm_usage :: "string \<Rightarrow> out" where
  "pcm_usage prog =
     Eprintf ''Usage: %s <file> <mode:single|threads|processes|hybrid> <proc_count> <thread_count> <rounds>''
       [Str prog]"

text \<open>The whole program: its output and exit status.\<close>

definition pcm_main ::
    "(string \<Rightarrow> off_t option) \<Rightarrow> (nat \<Rightarrow> round_env) \<Rightarrow> string list \<Rightarrow> out list \<times> int" where
  "pcm_main stat env argv =
     (case pcm_parse stat argv of
        Inl Usage \<Rightarrow> ([pcm_usage (argv ! 0)], 1)
      | Inl (Fatal m) \<Rightarrow> ([Perror m], 1)
      | Inr c \<Rightarrow>
          (case pcm_rounds env c (map nat [1..cf_rounds c]) of
             (os, rc) \<Rightarrow> (pcm_banner c @ os, rc)))"

section \<open>Slices\<close>

text \<open>
  The contract of a partition of \<open>[0, total)\<close> into consecutive ranges: the ranges of
  neighbours meet, so every offset has exactly one owner.
\<close>

locale consecutive_ranges =
  fixes valid :: "'c \<Rightarrow> bool" and parts :: "'c \<Rightarrow> nat"
    and lo hi :: "'c \<Rightarrow> nat \<Rightarrow> int" and total :: "'c \<Rightarrow> int"
  assumes parts_pos: "valid c \<Longrightarrow> 0 < parts c"
    and first: "valid c \<Longrightarrow> lo c 0 = 0"
    and meet: "valid c \<Longrightarrow> Suc i < parts c \<Longrightarrow> hi c i = lo c (Suc i)"
    and last: "valid c \<Longrightarrow> hi c (parts c - 1) = total c"
    and ordered: "valid c \<Longrightarrow> i < parts c \<Longrightarrow> lo c i \<le> hi c i"
begin

lemma lo_mono: "valid c \<Longrightarrow> i \<le> j \<Longrightarrow> j < parts c \<Longrightarrow> lo c i \<le> lo c j"
proof (induction j)
  case (Suc j)
  show ?case
  proof (cases "i = Suc j")
    case False
    with Suc have "lo c i \<le> lo c j" by simp
    also have "\<dots> \<le> hi c j" using Suc.prems by (intro ordered) simp_all
    also have "\<dots> = lo c (Suc j)" using Suc.prems by (intro meet) simp_all
    finally show ?thesis .
  qed simp
qed simp

lemma hi_le_lo: "valid c \<Longrightarrow> i < j \<Longrightarrow> j < parts c \<Longrightarrow> hi c i \<le> lo c j"
  using meet [of c i] lo_mono [of c "Suc i" j] by simp

lemma owner_unique:
  "valid c \<Longrightarrow> i < parts c \<Longrightarrow> j < parts c \<Longrightarrow> lo c i \<le> x \<Longrightarrow> x < hi c i \<Longrightarrow>
   lo c j \<le> x \<Longrightarrow> x < hi c j \<Longrightarrow> i = j"
  using hi_le_lo [of c i j] hi_le_lo [of c j i] by (cases i j rule: linorder_cases) auto

lemma owner_upto:
  "valid c \<Longrightarrow> k < parts c \<Longrightarrow> 0 \<le> x \<Longrightarrow> x < hi c k \<Longrightarrow> \<exists>i\<le>k. lo c i \<le> x \<and> x < hi c i"
proof (induction k)
  case (Suc k)
  show ?case
  proof (cases "lo c (Suc k) \<le> x")
    case False
    then have "x < hi c k" using meet [of c k] Suc.prems by simp
    then show ?thesis using Suc by (meson Suc_lessD le_SucI)
  qed (use Suc.prems in auto)
qed (simp add: first)

lemma owner: "valid c \<Longrightarrow> 0 \<le> x \<Longrightarrow> x < total c \<Longrightarrow> \<exists>!i. i < parts c \<and> lo c i \<le> x \<and> x < hi c i"
proof (rule ex_ex1I)
  assume c: "valid c" and x: "0 \<le> x" "x < total c"
  obtain i where i: "i \<le> parts c - 1" "lo c i \<le> x" "x < hi c i"
    using owner_upto [OF c, of "parts c - 1" x] last [OF c] parts_pos [OF c] x by auto
  then have "i < parts c" using parts_pos [OF c] by linarith
  with i show "\<exists>i. i < parts c \<and> lo c i \<le> x \<and> x < hi c i" by blast
qed (auto intro: owner_unique)

lemma within:
  assumes c: "valid c" and i: "i < parts c"
  shows "0 \<le> lo c i \<and> lo c i \<le> hi c i \<and> hi c i \<le> total c"
proof -
  have "hi c i \<le> total c"
  proof (cases "i = parts c - 1")
    case False
    then have "hi c i \<le> lo c (parts c - 1)" using i by (intro hi_le_lo [OF c]) auto
    then show ?thesis using ordered [OF c, of "parts c - 1"] last [OF c] i by simp
  qed (use last [OF c] in simp)
  then show ?thesis using lo_mono [OF c, of 0 i] i first [OF c] ordered [OF c i] by simp
qed

end

definition wf_config :: "pcm_config \<Rightarrow> bool" where
  "wf_config c \<longleftrightarrow> 0 < cf_workers c \<and> 0 \<le> cf_size c"

lemma worker_arg_simps [simp]:
  "wa_start (worker_arg c i) = i * slice_len c"
  "wa_end (worker_arg c i) = (if i = cf_workers c - 1 then cf_size c else (i + 1) * slice_len c)"
  "wa_id (worker_arg c i) = i"
  by (simp_all add: worker_arg_def)

lemma slice_bounds:
  assumes "wf_config c"
  shows "0 \<le> slice_len c" and "cf_workers c * slice_len c \<le> cf_size c"
proof -
  have w: "0 < cf_workers c" "0 \<le> cf_size c" using assms by (auto simp: wf_config_def)
  show "0 \<le> slice_len c" using w by (simp add: slice_len_def pos_imp_zdiv_nonneg_iff)
  show "cf_workers c * slice_len c \<le> cf_size c"
    using mult_div_mod_eq [of "cf_workers c" "cf_size c"] pos_mod_sign [OF w(1), of "cf_size c"]
    unfolding slice_len_def by linarith
qed

lemma slice_ordered:
  assumes c: "wf_config c" and i: "0 \<le> i" "i < cf_workers c"
  shows "wa_start (worker_arg c i) \<le> wa_end (worker_arg c i)"
proof -
  have "(i + 1) * slice_len c \<le> cf_workers c * slice_len c"
    using i slice_bounds(1) [OF c] by (intro mult_right_mono) auto
  then show ?thesis using slice_bounds [OF c] by (simp add: algebra_simps)
qed

interpretation slices: consecutive_ranges wf_config "\<lambda>c. nat (cf_workers c)"
  "\<lambda>c i. wa_start (worker_arg c (int i))" "\<lambda>c i. wa_end (worker_arg c (int i))" cf_size
proof
  show "i < nat (cf_workers c) \<Longrightarrow> wa_start (worker_arg c (int i)) \<le> wa_end (worker_arg c (int i))"
    if "wf_config c" for c i
    by (rule slice_ordered [OF that]) auto
qed (auto simp: wf_config_def)

section \<open>Sampling\<close>

lemma sample_shift: "sample bs cs = cs + sample bs 0"
proof (induction bs arbitrary: cs rule: length_induct)
  case (1 bs)
  show ?case
  proof (cases bs)
    case (Cons b r)
    have "sample (drop 4095 r) c = c + sample (drop 4095 r) 0" for c
      by (rule 1 [rule_format]) (simp add: Cons)
    from this [of "cs + ucast b"] this [of "ucast b"] show ?thesis by (simp only: Cons sample.simps) simp
  qed simp
qed

lemma sample_append:
  assumes "4096 dvd length xs"
  shows "sample (xs @ ys) cs = sample ys (sample xs cs)"
  using assms
proof (induction xs arbitrary: cs rule: length_induct)
  case (1 xs)
  show ?case
  proof (cases xs)
    case (Cons b r)
    have len: "4095 \<le> length r" using 1(2) Cons by (auto dest!: dvd_imp_le)
    have "4096 dvd length (drop 4095 r)"
      using 1(2) Cons len dvd_diff_nat [of 4096 "Suc (length r)" 4096] by simp
    moreover have "length (drop 4095 r) < length xs" by (simp add: Cons)
    ultimately have "sample (drop 4095 r @ ys) c = sample ys (sample (drop 4095 r) c)" for c
      using 1(1) by blast
    then show ?thesis using len by (simp add: Cons)
  qed simp
qed

text \<open>The sampling loop in closed form: the sum of the bytes at the multiples of 4096.\<close>

lemma sample_sum: "sample bs 0 = (\<Sum>k | 4096 * k < length bs. ucast (bs ! (4096 * k)))"
proof (induction bs rule: length_induct)
  case (1 bs)
  show ?case
  proof (cases bs)
    case (Cons b r)
    let ?f = "\<lambda>bs k. ucast (bs ! (4096 * k)) :: u64"
    have ix: "{k. 4096 * k < length bs} = insert 0 (Suc ` {k. 4096 * k < length (drop 4095 r)})"
    proof (rule set_eqI)
      fix k show "(k \<in> {k. 4096 * k < length bs})
          = (k \<in> insert 0 (Suc ` {k. 4096 * k < length (drop 4095 r)}))"
        by (cases k) (auto simp: Cons)
    qed
    have fin: "finite {k. 4096 * k < (m::nat)}" for m
      by (rule finite_subset [of _ "{..<m}"]) auto
    have "(\<Sum>k | 4096 * k < length bs. ?f bs k)
        = ?f bs 0 + (\<Sum>k\<in>Suc ` {k. 4096 * k < length (drop 4095 r)}. ?f bs k)"
      unfolding ix using fin by (subst sum.insert) auto
    also have "(\<Sum>k\<in>Suc ` {k. 4096 * k < length (drop 4095 r)}. ?f bs k)
        = (\<Sum>k | 4096 * k < length (drop 4095 r). ?f (drop 4095 r) k)"
      by (subst sum.reindex) (auto simp: Cons intro!: sum.cong)
    also have "\<dots> = sample (drop 4095 r) 0"
      by (rule 1 [rule_format, symmetric]) (simp add: Cons)
    finally show ?thesis using sample_shift [of "drop 4095 r" "ucast b"] by (simp add: Cons)
  qed simp
qed

section \<open>Reading a range\<close>

text \<open>The documented behaviour of \<^verbatim>\<open>read\<close> on a regular file with the given content.\<close>

definition regular_file :: "u8 list \<Rightarrow> (nat \<Rightarrow> nat \<Rightarrow> nat \<Rightarrow> u8 list option) \<Rightarrow> bool" where
  "regular_file content rd \<longleftrightarrow> (\<forall>k pos n. rd k pos n = Some (take n (drop pos content)))"

text \<open>The weaker behaviour POSIX allows: some prefix of what was asked for.\<close>

definition short_reads :: "u8 list \<Rightarrow> (nat \<Rightarrow> nat \<Rightarrow> nat \<Rightarrow> u8 list option) \<Rightarrow> bool" where
  "short_reads content rd \<longleftrightarrow> (\<forall>k pos n. \<exists>m\<le>n. rd k pos n = Some (take m (drop pos content)))"

definition bytes_in :: "u8 list \<Rightarrow> int \<Rightarrow> int \<Rightarrow> u8 list" where
  "bytes_in content a b = take (nat (b - a)) (drop (nat a) content)"

text \<open>
  Sampling chunk by chunk is sampling the whole: a chunk is a multiple of 4096 bytes unless it
  is the last one.
\<close>

lemma sample_chunks:
  assumes n: "n = nat (if r > BUF_SIZE then BUF_SIZE else r)" and r: "0 < r"
  shows "sample (take (nat r - length (take n xs)) (drop (length (take n xs)) xs)) (sample (take n xs) cs)
           = sample (take (nat r) xs) cs" (is "sample ?rest (sample ?buf cs) = _")
proof -
  have nr: "n \<le> nat r" using n r by (auto simp: BUF_SIZE_def)
  have split: "take (nat r) xs = ?buf @ ?rest"
    using nr by (cases "n \<le> length xs") (auto simp: take_add [symmetric])
  show ?thesis
  proof (cases "?rest = []")
    case True
    show ?thesis unfolding split True by simp
  next
    case False
    then have "n \<le> length xs" "n < nat r" by (auto simp: not_le)
    then have "length ?buf = 1024 * 1024" using n r by (auto simp: BUF_SIZE_def split: if_splits)
    then have "4096 dvd length ?buf" by simp
    then show ?thesis unfolding split by (simp only: sample_append)
  qed
qed

lemma read_loop_regular:
  "regular_file content rd \<Longrightarrow> 0 \<le> remaining \<Longrightarrow>
   read_loop rd k pos remaining cs = Inr (sample (take (nat remaining) (drop pos content)) cs)"
proof (induction rd k pos remaining cs rule: read_loop.induct)
  case (1 rd k pos remaining cs)
  define n where "n = nat (if remaining > BUF_SIZE then BUF_SIZE else remaining)"
  let ?buf = "take n (drop pos content)"
  have rd_eq: "rd k pos n = Some ?buf" using 1(2) by (simp add: regular_file_def)
  show ?case
  proof (cases "0 < remaining \<and> ?buf \<noteq> []")
    case True
    have len: "int (length ?buf) \<le> remaining" using True by (auto simp: n_def BUF_SIZE_def)
    have "read_loop rd k pos remaining cs =
        read_loop rd (Suc k) (pos + length ?buf) (remaining - int (length ?buf)) (sample ?buf cs)"
      using True rd_eq by (subst read_loop.simps) (simp add: n_def Let_def)
    also have "\<dots> = Inr (sample (take (nat (remaining - int (length ?buf)))
        (drop (pos + length ?buf) content)) (sample ?buf cs))"
      using True rd_eq 1(2) len by (intro 1(1) [of _ ?buf]) (auto simp: n_def)
    also have "nat (remaining - int (length ?buf)) = nat remaining - length ?buf" by auto
    finally show ?thesis
      using sample_chunks [OF n_def, of "drop pos content" cs] True
      by (simp only: drop_drop add.commute)
  next
    case False
    have "0 < n" if "0 < remaining" using that by (simp add: n_def BUF_SIZE_def)
    with False 1(3) rd_eq show ?thesis
      by (subst read_loop.simps) (auto simp: n_def Let_def)
  qed
qed

lemma read_loop_short_reads:
  "short_reads content rd \<Longrightarrow> \<exists>r. read_loop rd k pos remaining cs = Inr r"
proof (induction rd k pos remaining cs rule: read_loop.induct)
  case (1 rd k pos remaining cs)
  let ?n = "nat (if remaining > BUF_SIZE then BUF_SIZE else remaining)"
  obtain m where m: "rd k pos ?n = Some (take m (drop pos content))"
    using 1(2) unfolding short_reads_def by blast
  show ?case
  proof (cases "0 < remaining \<and> take m (drop pos content) \<noteq> []")
    case True
    then have "\<exists>r. read_loop rd (Suc k) (pos + length (take m (drop pos content)))
        (remaining - int (length (take m (drop pos content)))) (sample (take m (drop pos content)) cs)
        = Inr r"
      using 1(1) [OF _ refl m _ 1(2)] by blast
    then show ?thesis using True m by (subst read_loop.simps) (simp add: Let_def)
  next
    case False
    then show ?thesis using m by (subst read_loop.simps) (auto simp: Let_def)
  qed
qed

section \<open>Workers and totals\<close>

definition worker_ok :: "u8 list \<Rightarrow> worker_env \<Rightarrow> bool" where
  "worker_ok content e \<longleftrightarrow> we_open e \<and> we_lseek e \<and> we_buf e \<and> we_res e
     \<and> we_faults0 e \<noteq> None \<and> we_faults1 e \<noteq> None \<and> regular_file content (we_read e)"

lemma read_range_regular:
  assumes "worker_ok content e" "a \<le> b"
  shows "\<exists>r. read_range e a b = Inr r \<and> checksum r = sample (bytes_in content a b) 0"
  using assms read_loop_regular [of content "we_read e" "b - a" 0 "nat a" 0]
  by (auto simp: worker_ok_def read_range_def pcm_get_faults_def bytes_in_def)

text \<open>The result of worker \<open>i\<close> when it delivers one.\<close>

definition result_of :: "round_env \<Rightarrow> pcm_config \<Rightarrow> nat \<Rightarrow> worker_result_t" where
  "result_of e c i =
     (case thread_worker (re_worker e i) (worker_arg c (int i)) of
        Inr (Some r) \<Rightarrow> r
      | _ \<Rightarrow> \<lparr>minflt = 0, majflt = 0, seconds = 0, checksum = 0\<rparr>)"

definition delivers :: "round_env \<Rightarrow> pcm_config \<Rightarrow> nat \<Rightarrow> bool" where
  "delivers e c i \<longleftrightarrow> re_create e i
     \<and> thread_worker (re_worker e i) (worker_arg c (int i)) = Inr (Some (result_of e c i))"

definition totals_of :: "round_env \<Rightarrow> pcm_config \<Rightarrow> nat set \<Rightarrow> totals" where
  "totals_of e c I = (\<Sum>i\<in>I. minflt (result_of e c i), \<Sum>i\<in>I. majflt (result_of e c i),
                      \<Sum>i\<in>I. checksum (result_of e c i))"

lemma run_workers_delivered:
  "\<forall>i\<in>set is. delivers e c i \<Longrightarrow> run_workers e c is = Inr (map (\<lambda>i. Some (result_of e c i)) is)"
  by (induction "is") (auto simp: delivers_def)

lemma join_workers_Some:
  "snd (join_workers k (map Some rs) (a, b, s)) =
     Some (a + sum_list (map minflt rs), b + sum_list (map majflt rs), s + sum_list (map checksum rs))"
proof (induction rs arbitrary: k a b s)
  case (Cons r rs)
  show ?case
    using Cons.IH [of "k + 1" "a + minflt r" "b + majflt r" "s + checksum r"]
    by (auto split: prod.splits simp: algebra_simps)
qed simp

lemma child_join_Some:
  "child_join (map Some rs) (a, b, s) =
     Some (a + sum_list (map minflt rs), b + sum_list (map majflt rs), s + sum_list (map checksum rs))"
  by (induction rs arbitrary: a b s) (auto simp: algebra_simps)

lemma totals_of_list:
  "distinct is \<Longrightarrow> totals_of e c (set is) =
     (sum_list (map (\<lambda>i. minflt (result_of e c i)) is), sum_list (map (\<lambda>i. majflt (result_of e c i)) is),
      sum_list (map (\<lambda>i. checksum (result_of e c i)) is))"
  by (simp add: totals_of_def sum_list_distinct_conv_sum_set)

lemma round_threads_totals:
  assumes "re_calloc e" and "\<forall>i<nat (cf_workers c). delivers e c i"
  shows "snd (round_threads e c) = Some (totals_of e c {..<nat (cf_workers c)})"
proof -
  let ?is = "[0..<nat (cf_workers c)]"
  have run: "run_workers e c ?is = Inr (map Some (map (result_of e c) ?is))"
    using assms(2) by (subst run_workers_delivered) auto
  have "totals_of e c (set ?is) = totals_of e c {..<nat (cf_workers c)}"
    by (simp add: atLeast0LessThan)
  then show ?thesis
    using assms(1) join_workers_Some [of 0 "map (result_of e c) ?is" 0 0 0] totals_of_list [of ?is e c]
    by (auto simp: round_threads_def run comp_def split: prod.splits)
qed

section \<open>Processes\<close>

text \<open>What a child writes to its pipe, the parent reads back.\<close>

lemma scan_pipe_line: "scan_line (pipe_line p t) = Some (p, t)"
proof -
  obtain a b s where t: "t = (a, b, s)" by (cases t)
  have sp: "list_all is_space '' ''" by (simp add: is_space_def)
  have nd: "\<not> is_digit (CHR '' '')" "\<not> is_digit NL" by (simp_all add: is_digit_def NL_def)
  have 1: "scan_int (show_int p @ '' '' @ r) = Some (p, '' '' @ r)" for r
    using scan_int_show [of "[]" "'' '' @ r" p] nd by simp
  have 2: "scan_int ('' '' @ show_int i @ '' '' @ r) = Some (i, '' '' @ r)" for i r
    using scan_int_show [OF sp, of "'' '' @ r" i] nd by simp
  have 3: "scan_int ('' '' @ show_int i @ [NL]) = Some (i, [NL])" for i
    using scan_int_show [OF sp, of "[NL]" i] nd by simp
  show ?thesis unfolding t scan_line_def pipe_line_def prod.case 1 2 3 option.case by simp
qed

definition children_ok :: "round_env \<Rightarrow> pcm_config \<Rightarrow> bool" where
  "children_ok e c \<longleftrightarrow> re_calloc e \<and> (\<forall>p<nat (cf_procs c). re_pipe e p \<and> re_fork e p
     \<and> re_child_calloc e p \<and> re_fdopen e p)"

lemma child_process_line:
  assumes "re_child_calloc e p"
    and "\<forall>t<nat (cf_threads c). delivers e c (p * nat (cf_threads c) + t)"
  shows "child_process e c p = pipe_line (int p)
    (totals_of e c {p * nat (cf_threads c)..<p * nat (cf_threads c) + nat (cf_threads c)})"
proof -
  let ?T = "nat (cf_threads c)"
  let ?is = "[p * ?T..<p * ?T + ?T]"
  have ids: "map (\<lambda>t. p * ?T + t) [0..<?T] = ?is"
    using map_add_upt [of "p * ?T" ?T] by (simp add: add.commute)
  have "\<forall>i\<in>set (map (\<lambda>t. p * ?T + t) [0..<?T]). delivers e c i"
    unfolding set_map set_upt using assms(2) by (simp only: ball_simps) auto
  then have "\<forall>i\<in>set ?is. delivers e c i" unfolding ids .
  then have run: "run_workers e c ?is = Inr (map Some (map (result_of e c) ?is))"
    by (simp only: run_workers_delivered map_map comp_def)
  have "child_join (map Some (map (result_of e c) ?is)) (0, 0, 0) = Some (totals_of e c (set ?is))"
    unfolding child_join_Some totals_of_list [OF distinct_upt] by (simp add: comp_def)
  then show ?thesis using assms(1) unfolding child_process_def ids run set_upt by simp
qed

lemma spawn_ok:
  "\<forall>p\<in>set ps. re_pipe e p \<and> re_fork e p \<Longrightarrow> spawn e c ps = Inr (map (child_process e c) ps)"
  by (induction ps) auto

lemma collect_lines:
  "\<forall>i<length ts. re_fdopen e (k + i) \<Longrightarrow>
   snd (collect e k (map (\<lambda>(p, t). pipe_line p t) ts) (a, b, s)) =
     Some (a + sum_list (map (\<lambda>(p, x, y, z). x) ts), b + sum_list (map (\<lambda>(p, x, y, z). y) ts),
           s + sum_list (map (\<lambda>(p, x, y, z). z) ts))"
proof (induction ts arbitrary: k a b s)
  case (Cons pt ts)
  obtain p x y z where pt: "pt = (p, x, y, z)" by (cases pt)
  have "re_fdopen e k" using Cons.prems by auto
  moreover have "\<forall>i<length ts. re_fdopen e (Suc k + i)" using Cons.prems by auto
  ultimately show ?case
    using Cons.IH [of "Suc k" "a + x" "b + y" "s + z"]
    by (auto simp: pt scan_pipe_line algebra_simps split: prod.splits)
qed simp

lemma round_processes_totals:
  assumes ok: "children_ok e c" and w: "cf_workers c = cf_procs c * cf_threads c"
    and pos: "0 \<le> cf_procs c" "0 \<le> cf_threads c"
    and d: "\<forall>i<nat (cf_workers c). delivers e c i"
  shows "snd (round_processes e c) = Some (totals_of e c {..<nat (cf_workers c)})"
proof -
  let ?P = "nat (cf_procs c)" and ?T = "nat (cf_threads c)"
  have W: "nat (cf_workers c) = ?P * ?T" using w pos by (simp add: nat_mult_distrib)
  let ?tot = "\<lambda>p. totals_of e c {p * ?T..<p * ?T + ?T}"
  have id: "p * ?T + t < ?P * ?T" if "p < ?P" "t < ?T" for p t
  proof -
    have "p * ?T + t < Suc p * ?T" using that by simp
    also have "\<dots> \<le> ?P * ?T" using that by (intro mult_right_mono) auto
    finally show ?thesis .
  qed
  have lines: "map (child_process e c) [0..<?P] = map (\<lambda>(p, t). pipe_line p t) (map (\<lambda>p. (int p, ?tot p)) [0..<?P])"
    using ok d id by (auto simp: children_ok_def W intro!: child_process_line)
  have sp: "spawn e c [0..<?P] = Inr (map (child_process e c) [0..<?P])"
    using ok by (intro spawn_ok) (auto simp: children_ok_def)
  have col: "snd (collect e 0 (map (child_process e c) [0..<?P]) (0, 0, 0)) =
      Some (totals_of e c {..<?P * ?T})"
    unfolding lines using ok
    by (subst collect_lines)
      (auto simp: children_ok_def totals_of_def comp_def sum_list_distinct_conv_sum_set
        sum.nat_group atLeast0LessThan)
  show ?thesis
    using ok col by (auto simp: round_processes_def children_ok_def sp W split: prod.splits)
qed

section \<open>Checksums of a whole round\<close>

text \<open>Aligned slices: sampling the pieces and adding up is sampling the file.\<close>

lemma aligned_slices_sum:
  assumes "4096 dvd s"
  shows "(\<Sum>i<m. sample (take s (drop (i * s) content)) 0) = sample (take (m * s) content) 0"
proof (induction m)
  case (Suc m)
  have split: "take (Suc m * s) content = take (m * s) content @ take s (drop (m * s) content)"
    by (simp only: mult_Suc add.commute [of s] take_add)
  have "sample (take (m * s) content @ take s (drop (m * s) content)) 0
      = sample (take s (drop (m * s) content)) (sample (take (m * s) content) 0)"
  proof (cases "m * s \<le> length content")
    case True
    then show ?thesis using assms by (intro sample_append) simp
  qed simp
  also have "\<dots> = sample (take (m * s) content) 0 + sample (take s (drop (m * s) content)) 0"
    by (rule sample_shift)
  finally show ?case using Suc split by simp
qed simp

lemma bytes_in_slice:
  assumes "0 \<le> s"
  shows "bytes_in content (int i * s) ((int i + 1) * s) = take (nat s) (drop (i * nat s) content)"
proof -
  have "(int i + 1) * s - int i * s = s" by (simp add: algebra_simps)
  moreover have "nat (int i * s) = i * nat s" using assms by (simp add: nat_mult_distrib)
  ultimately show ?thesis by (simp only: bytes_in_def)
qed

lemma slices_sample_sum:
  assumes c: "wf_config c" and size: "cf_size c = int (length content)" and al: "4096 dvd slice_len c"
  shows "(\<Sum>i<nat (cf_workers c). sample (bytes_in content (wa_start (worker_arg c (int i)))
           (wa_end (worker_arg c (int i)))) 0) = sample content 0"
proof -
  let ?s = "nat (slice_len c)"
  obtain m where m: "nat (cf_workers c) = Suc m" "cf_workers c = int m + 1"
    using c by (metis Suc_pred' add.commute int_nat_eq less_le nat_0_iff of_nat_Suc
        wf_config_def zero_less_nat_eq)
  have s0: "0 \<le> slice_len c" and "cf_workers c * slice_len c \<le> cf_size c" using slice_bounds [OF c] .
  then have "int (m * ?s) \<le> int (length content)" using m size by (simp add: algebra_simps)
  then have ms: "m * ?s \<le> length content" by (simp only: of_nat_le_iff)
  have al': "4096 dvd ?s" using al s0 by (simp only: int_dvd_int_iff [symmetric]) simp
  have first: "(\<Sum>i<m. sample (bytes_in content (wa_start (worker_arg c (int i)))
      (wa_end (worker_arg c (int i)))) 0) = sample (take (m * ?s) content) 0"
    using m by (simp add: bytes_in_slice [OF s0] aligned_slices_sum [OF al'])
  have last: "bytes_in content (wa_start (worker_arg c (int m))) (wa_end (worker_arg c (int m)))
      = drop (m * ?s) content"
    using m s0 size ms by (simp add: bytes_in_def nat_mult_distrib nat_diff_distrib')
  have "sample content 0 = sample (drop (m * ?s) content) (sample (take (m * ?s) content) 0)"
    using sample_append [of "take (m * ?s) content" "drop (m * ?s) content" 0] al' ms by simp
  also have "\<dots> = sample (take (m * ?s) content) 0 + sample (drop (m * ?s) content) 0"
    by (rule sample_shift)
  finally show ?thesis unfolding m(1) by (simp only: sum.lessThan_Suc first last)
qed

definition workers_ok :: "u8 list \<Rightarrow> round_env \<Rightarrow> bool" where
  "workers_ok content e \<longleftrightarrow> re_calloc e \<and> (\<forall>i. re_create e i \<and> worker_ok content (re_worker e i))"

lemma workers_deliver:
  assumes "wf_config c" "workers_ok content e" "i < nat (cf_workers c)"
  shows "delivers e c i" and "checksum (result_of e c i)
    = sample (bytes_in content (wa_start (worker_arg c (int i))) (wa_end (worker_arg c (int i)))) 0"
proof -
  obtain r where r: "read_range (re_worker e i) (wa_start (worker_arg c (int i)))
        (wa_end (worker_arg c (int i))) = Inr r"
      "checksum r = sample (bytes_in content (wa_start (worker_arg c (int i)))
        (wa_end (worker_arg c (int i)))) 0"
    using read_range_regular assms slices.ordered [of c i] unfolding workers_ok_def by blast
  have "thread_worker (re_worker e i) (worker_arg c (int i)) = Inr (Some r)"
    using assms(2) r(1) by (simp add: thread_worker_def workers_ok_def worker_ok_def)
  then show "delivers e c i" and "checksum (result_of e c i)
      = sample (bytes_in content (wa_start (worker_arg c (int i))) (wa_end (worker_arg c (int i)))) 0"
    using assms(2) r(2) by (auto simp: delivers_def result_of_def workers_ok_def)
qed

section \<open>The command line\<close>

lemma pcm_parse_accepts:
  assumes "pcm_parse stat argv = Inr c"
  shows "1 \<le> cf_procs c" "cf_procs c \<le> 1024" "1 \<le> cf_threads c" "cf_threads c \<le> 1024"
    "1 \<le> cf_rounds c" "cf_workers c = cf_procs c * cf_threads c" "stat (argv ! 1) = Some (cf_size c)"
proof -
  have fit: "to_int (p * t) = p * t" if "0 < p" "p \<le> 1024" "0 < t" "t \<le> 1024" for p t :: int
  proof (rule to_int_id)
    have "p * t \<le> 1024 * 1024" using that by (intro mult_mono) auto
    then show "p * t \<le> INT_MAX" by (simp add: INT_MAX_def)
    show "INT_MIN \<le> p * t" using that by (simp add: INT_MIN_def) (smt (verit) mult_nonneg_nonneg)
  qed
  show "1 \<le> cf_procs c" "cf_procs c \<le> 1024" "1 \<le> cf_threads c" "cf_threads c \<le> 1024"
    "1 \<le> cf_rounds c" "cf_workers c = cf_procs c * cf_threads c" "stat (argv ! 1) = Some (cf_size c)"
    using assms
    by (auto simp: pcm_parse_def file_size_def Let_def fit split: if_splits option.splits)
qed

lemma pcm_parse_wf:
  assumes "pcm_parse stat argv = Inr c" and "\<And>n. stat (argv ! 1) = Some n \<Longrightarrow> 0 \<le> n"
  shows "wf_config c"
  using pcm_parse_accepts [OF assms(1)] assms(2) by (simp add: wf_config_def)

section \<open>Properties\<close>

text \<open>
  C1. Partition of the file: for every command line the program accepts, whatever the number of
  workers and the size of the file, each byte offset below the size lies in the range
  \<open>[start, end)\<close> of exactly one worker, and every range lies inside the file (so the products
  that compute it stay within \<open>off_t\<close>).
\<close>

theorem slices_partition:
  assumes parse: "pcm_parse stat argv = Inr c" and sz: "stat (argv ! 1) = Some n" "0 \<le> n"
  shows "(\<forall>x. 0 \<le> x \<and> x < n \<longrightarrow>
      (\<exists>!i. i < nat (cf_workers c) \<and> wa_start (worker_arg c (int i)) \<le> x
         \<and> x < wa_end (worker_arg c (int i))))
    \<and> (\<forall>i<nat (cf_workers c). 0 \<le> wa_start (worker_arg c (int i))
         \<and> wa_start (worker_arg c (int i)) \<le> wa_end (worker_arg c (int i))
         \<and> wa_end (worker_arg c (int i)) \<le> n)"
proof -
  have wf: "wf_config c" using pcm_parse_wf [OF parse] sz by simp
  have "cf_size c = n" using pcm_parse_accepts(7) [OF parse] sz by simp
  then show ?thesis using slices.owner [OF wf] slices.within [OF wf] by simp
qed

definition demo_argv :: "string \<Rightarrow> string \<Rightarrow> string \<Rightarrow> string list" where
  "demo_argv mode p t = [''page_cache_models'', ''f'', mode, p, t, ''2'']"

definition demo_config :: "exec_mode \<Rightarrow> int \<Rightarrow> int \<Rightarrow> int \<Rightarrow> pcm_config" where
  "demo_config m p t n = \<lparr>cf_path = ''f'', cf_mode = m, cf_procs = p, cf_threads = t,
     cf_workers = p * t, cf_rounds = 2, cf_size = n\<rparr>"

lemma demo_parse:
  "pcm_parse (\<lambda>_. Some 10) (demo_argv ''hybrid'' ''2'' ''2'') = Inr (demo_config Hybrid 2 2 10)"
  by code_simp

theorem slices_partition_witness:
  "\<exists>!i. i < nat (cf_workers (demo_config Hybrid 2 2 10))
     \<and> wa_start (worker_arg (demo_config Hybrid 2 2 10) (int i)) \<le> 9
     \<and> 9 < wa_end (worker_arg (demo_config Hybrid 2 2 10) (int i))"
  by (rule slices_partition [OF demo_parse refl, THEN conjunct1, rule_format]) simp_all

text \<open>
  C2. What a worker computes: on a regular file and with every call succeeding, \<^verbatim>\<open>read_range\<close>
  returns, its checksum is the 64-bit sum of the bytes at \<open>start\<close>, \<open>start + 4096\<close>, \dots below
  \<open>end\<close> (the 1 MiB buffering does not show), and its fault counts are the differences of the
  two \<^verbatim>\<open>getrusage\<close> readings.
\<close>

theorem read_range_checksum:
  assumes ok: "worker_ok content e" and rng: "0 \<le> a" "a \<le> b" "b \<le> int (length content)"
  shows "\<exists>r. read_range e a b = Inr r
    \<and> checksum r = (\<Sum>k | 4096 * k < nat (b - a). ucast (content ! (nat a + 4096 * k)))
    \<and> minflt r = ru_minflt (the (we_faults1 e)) - ru_minflt (the (we_faults0 e))
    \<and> majflt r = ru_majflt (the (we_faults1 e)) - ru_majflt (the (we_faults0 e))"
proof -
  obtain r where r: "read_range e a b = Inr r" "checksum r = sample (bytes_in content a b) 0"
    using read_range_regular [OF ok rng(2)] by blast
  have len: "length (bytes_in content a b) = nat (b - a)" using rng by (auto simp: bytes_in_def)
  have "checksum r = (\<Sum>k | 4096 * k < nat (b - a). ucast (content ! (nat a + 4096 * k)))"
    unfolding r(2) sample_sum len using rng
    by (intro sum.cong) (auto simp: bytes_in_def)
  moreover have "minflt r = ru_minflt (the (we_faults1 e)) - ru_minflt (the (we_faults0 e))
      \<and> majflt r = ru_majflt (the (we_faults1 e)) - ru_majflt (the (we_faults0 e))"
    using r(1) ok
    by (auto simp: worker_ok_def read_range_def pcm_get_faults_def split: sum.splits)
  ultimately show ?thesis using r(1) by blast
qed

definition demo_worker :: "u8 list \<Rightarrow> worker_env" where
  "demo_worker content = \<lparr>we_open = True, we_lseek = True, we_buf = True, we_res = True,
     we_read = (\<lambda>k pos n. Some (take n (drop pos content))),
     we_faults0 = Some \<lparr>ru_minflt = 10, ru_majflt = 1\<rparr>, we_faults1 = Some \<lparr>ru_minflt = 14, ru_majflt = 1\<rparr>,
     we_t0 = \<lparr>tv_sec = 0, tv_nsec = 0\<rparr>, we_t1 = \<lparr>tv_sec = 1, tv_nsec = 0\<rparr>\<rparr>"

lemma demo_worker_ok: "worker_ok content (demo_worker content)"
  by (simp add: worker_ok_def demo_worker_def regular_file_def)

theorem read_range_checksum_witness:
  "worker_ok [7, 8, 9] (demo_worker [7, 8, 9]) \<and>
   (\<exists>r. read_range (demo_worker [7, 8, 9]) 1 3 = Inr r
      \<and> checksum r = (\<Sum>k | 4096 * k < nat (3 - 1). ucast ([7, 8, 9 :: u8] ! (nat 1 + 4096 * k)))
      \<and> minflt r = 4)"
  using read_range_checksum [OF demo_worker_ok, of 1 3 "[7, 8, 9]"] demo_worker_ok
  by (auto simp: demo_worker_def)

text \<open>
  C3. Process modes and thread mode agree: when every call succeeds, a round with \<open>P\<close> processes
  of \<open>T\<close> threads reports the same minor faults, major faults and checksum as a round with
  \<open>P * T\<close> threads in one process, although the totals travel through pipes as decimal text.
\<close>

theorem processes_agree_with_threads:
  assumes parse: "pcm_parse stat argv = Inr c"
    and ok: "children_ok e c" and d: "\<forall>i<nat (cf_workers c). delivers e c i"
  shows "snd (round_processes e c)
    = snd (round_threads e (c\<lparr>cf_mode := Threads, cf_procs := 1, cf_threads := cf_workers c\<rparr>))
    \<and> snd (round_processes e c) \<noteq> None"
proof -
  let ?c = "c\<lparr>cf_mode := Threads, cf_procs := 1, cf_threads := cf_workers c\<rparr>"
  have arg: "worker_arg ?c i = worker_arg c i" for i by (simp add: worker_arg_def slice_len_def)
  have res: "result_of e ?c i = result_of e c i" "delivers e ?c i = delivers e c i" for i
    by (simp_all add: result_of_def delivers_def arg)
  have "snd (round_processes e c) = Some (totals_of e c {..<nat (cf_workers c)})"
    using pcm_parse_accepts [OF parse] by (intro round_processes_totals ok d) simp_all
  moreover have "snd (round_threads e ?c) = Some (totals_of e ?c {..<nat (cf_workers c)})"
    using ok d round_threads_totals [of e ?c] by (simp add: children_ok_def res)
  ultimately show ?thesis by (simp add: totals_of_def res)
qed

definition demo_round :: "u8 list \<Rightarrow> round_env" where
  "demo_round content = \<lparr>re_calloc = True, re_create = (\<lambda>_. True),
     re_worker = (\<lambda>_. demo_worker content), re_pipe = (\<lambda>_. True), re_fork = (\<lambda>_. True),
     re_child_calloc = (\<lambda>_. True), re_fdopen = (\<lambda>_. True), re_t0 = \<lparr>tv_sec = 0, tv_nsec = 0\<rparr>, re_t1 = \<lparr>tv_sec = 0, tv_nsec = 0\<rparr>\<rparr>"

lemma demo_round_ok: "workers_ok content (demo_round content)" "children_ok (demo_round content) c"
  by (simp_all add: workers_ok_def children_ok_def demo_round_def demo_worker_ok)

lemma demo_config_wf: "wf_config (demo_config Hybrid 2 2 10)"
  by (simp add: wf_config_def demo_config_def)

theorem processes_agree_with_threads_witness:
  "snd (round_processes (demo_round (replicate 10 3)) (demo_config Hybrid 2 2 10))
   = snd (round_threads (demo_round (replicate 10 3)) ((demo_config Hybrid 2 2 10)
       \<lparr>cf_mode := Threads, cf_procs := 1, cf_threads := cf_workers (demo_config Hybrid 2 2 10)\<rparr>))"
  using processes_agree_with_threads [OF demo_parse demo_round_ok(2), of "replicate 10 3"]
    workers_deliver(1) [OF demo_config_wf demo_round_ok(1)] by blast

text \<open>
  C4. The number of workers does not change the checksum of a file cut at page boundaries: if
  the slice length is a multiple of 4096, the configured size is the length of the file and the calls of
  the workers succeed, the threaded round reports the sample sum of the whole file, the value a single
  worker reports.
\<close>

theorem aligned_checksum_independent:
  assumes c: "wf_config c" and sz: "cf_size c = int (length content)" and al: "4096 dvd slice_len c"
    and ok: "workers_ok content e"
  shows "\<exists>tmin tmaj. snd (round_threads e c)
    = Some (tmin, tmaj, \<Sum>k | 4096 * k < length content. ucast (content ! (4096 * k)))"
proof -
  have "snd (round_threads e c) = Some (totals_of e c {..<nat (cf_workers c)})"
    using ok workers_deliver(1) [OF c ok] by (intro round_threads_totals) (simp_all add: workers_ok_def)
  moreover have "(\<Sum>i<nat (cf_workers c). checksum (result_of e c i)) = sample content 0"
    using slices_sample_sum [OF c sz al] workers_deliver(2) [OF c ok] by simp
  ultimately show ?thesis by (simp add: totals_of_def sample_sum)
qed

lemma demo_aligned:
  "wf_config (demo_config Threads 1 2 8192)" "4096 dvd slice_len (demo_config Threads 1 2 8192)"
  "cf_size (demo_config Threads 1 2 8192) = int (length (replicate 8192 (5::u8)))"
  by (simp_all add: wf_config_def demo_config_def slice_len_def)

theorem aligned_checksum_independent_witness:
  "\<exists>tmin tmaj. snd (round_threads (demo_round (replicate 8192 5)) (demo_config Threads 1 2 8192))
    = Some (tmin, tmaj, \<Sum>k | 4096 * k < length (replicate 8192 (5::u8)).
        ucast (replicate 8192 (5::u8) ! (4096 * k)))"
  by (rule aligned_checksum_independent [OF demo_aligned(1,3,2) demo_round_ok(1)])

lemma collect_empty:
  "\<forall>i<n. re_fdopen e (k + i) \<Longrightarrow> collect e k (replicate n []) acc = ([], Some acc)"
proof (induction n arbitrary: k)
  case (Suc n)
  have "re_fdopen e k" "\<forall>i<n. re_fdopen e (Suc k + i)" using Suc.prems by auto
  then show ?case
    using Suc.IH [of "Suc k"] by (cases acc) (simp add: scan_line_def scan_int_def)
qed simp

lemma run_workers_exit:
  assumes "\<forall>i. thread_worker (re_worker e i) (worker_arg c (int i)) = Inl m" and "is \<noteq> []"
  shows "\<exists>m'. run_workers e c is = Inl m'"
  using assms by (cases "is") auto

lemma child_process_exit:
  assumes "\<forall>i. thread_worker (re_worker e i) (worker_arg c (int i)) = Inl m" and "1 \<le> cf_threads c"
  shows "child_process e c p = []"
  using run_workers_exit [OF assms(1), of "map (\<lambda>t. p * nat (cf_threads c) + t) [0..<nat (cf_threads c)]"]
    assms(2) by (auto simp: child_process_def)

lemma round_processes_exit:
  assumes "\<forall>i. thread_worker (re_worker e i) (worker_arg c (int i)) = Inl m" and "1 \<le> cf_threads c"
    and ok: "children_ok e c"
  shows "\<exists>os. round_processes e c = (os, Some (0, 0, 0))"
proof -
  have "spawn e c [0..<nat (cf_procs c)] = Inr (replicate (nat (cf_procs c)) [])"
    using ok child_process_exit [OF assms(1,2)]
    by (subst spawn_ok) (auto simp: children_ok_def intro!: nth_equalityI)
  then show ?thesis using ok collect_empty [of "nat (cf_procs c)" e 0]
    by (auto simp: round_processes_def children_ok_def)
qed

text \<open>
  A failing child goes unnoticed: if a child process stops early (its allocation, a thread
  creation or a read failed) it leaves its pipe empty, and a program in a process mode whose
  children all fail this way prints a summary of zeros and still exits with status 0, where
  the threaded modes exit with status 1.
\<close>

theorem failed_children_exit_zero:
  assumes parse: "pcm_parse stat argv = Inr c" and mode: "cf_mode c = Processes \<or> cf_mode c = Hybrid"
    and ok: "\<forall>r. children_ok (env r) c"
    and bad: "\<forall>r i. thread_worker (re_worker (env r) i) (worker_arg c (int i)) = Inl m"
  shows "snd (pcm_main stat env argv) = 0 \<and> snd (round_processes (env 1) c) = Some (0, 0, 0)
    \<and> snd (round_threads (env 1) c) = None"
proof -
  note acc = pcm_parse_accepts [OF parse]
  have rp: "\<exists>os. round_processes (env r) c = (os, Some (0, 0, 0))" for r
    using round_processes_exit bad ok acc(3) by blast
  have "snd (pcm_rounds env c rs) = 0" for rs
  proof (induction rs)
    case (Cons r rs)
    show ?case using Cons rp [of r] mode by (auto simp: pcm_round_def split: prod.splits)
  qed simp
  moreover have "[0..<nat (cf_workers c)] \<noteq> []"
  proof -
    have "0 < cf_procs c * cf_threads c" using acc(1,3) by (intro mult_pos_pos) linarith+
    then show ?thesis using acc(6) by simp
  qed
  ultimately show ?thesis
    using parse rp [of 1] run_workers_exit [of "env 1" c m "[0..<nat (cf_workers c)]"] bad ok
    by (auto simp: pcm_main_def round_threads_def children_ok_def case_prod_unfold)
qed

definition demo_failing :: round_env where
  "demo_failing = (demo_round [])\<lparr>re_worker := (\<lambda>_. (demo_worker [])\<lparr>we_open := False\<rparr>)\<rparr>"

theorem failed_children_exit_zero_witness:
  "snd (pcm_main (\<lambda>_. Some 10) (\<lambda>_. demo_failing) (demo_argv ''hybrid'' ''2'' ''2'')) = 0"
proof -
  have "\<forall>r::nat. children_ok demo_failing (demo_config Hybrid 2 2 10)"
    by (simp add: demo_failing_def children_ok_def demo_round_def)
  moreover have "\<forall>(r::nat) i. thread_worker (re_worker demo_failing i)
      (worker_arg (demo_config Hybrid 2 2 10) (int i)) = Inl ''open''"
    by (simp add: demo_failing_def demo_worker_def thread_worker_def read_range_def)
  moreover have "cf_mode (demo_config Hybrid 2 2 10) = Processes
      \<or> cf_mode (demo_config Hybrid 2 2 10) = Hybrid" by (simp add: demo_config_def)
  ultimately show ?thesis
    using failed_children_exit_zero [OF demo_parse, of "\<lambda>_. demo_failing"] by blast
qed

end
