(* ===== verification/PageCacheMain.thy ===== *)
theory PageCacheMain
  imports PageCache
begin

text \<open>
  The output of \<^verbatim>\<open>page_cache_models.c\<close> from the command line to the exit status. The theory puts
  the parts of \<open>PageCache\<close> together: the report a round should give is stated in terms of what the single
  workers deliver, and the program is shown to print exactly these reports.
\<close>

section \<open>The report of a round\<close>

definition worker_line :: "round_env \<Rightarrow> pcm_config \<Rightarrow> nat \<Rightarrow> out" where
  "worker_line e c i =
     (let r = result_of e c i in
      Printf ''worker=%d minflt=%ld majflt=%ld sec=%.3f'' [Num (int i), Num (minflt r), Num (majflt r), Dbl (seconds r)])"

text \<open>The workers of process \<open>p\<close>, and the line with their totals.\<close>

definition workers_of :: "pcm_config \<Rightarrow> nat \<Rightarrow> nat set" where
  "workers_of c p = {p * nat (cf_threads c)..<p * nat (cf_threads c) + nat (cf_threads c)}"

definition proc_line :: "nat \<Rightarrow> totals \<Rightarrow> out" where
  "proc_line p t = (case t of (tmin, tmaj, cs) \<Rightarrow> Printf ''proc=%d minflt=%ld majflt=%ld'' [Num (int p), Num tmin, Num tmaj])"

definition round_report :: "round_env \<Rightarrow> pcm_config \<Rightarrow> out list" where
  "round_report e c =
     (if cf_mode c = Single \<or> cf_mode c = Threads
      then map (worker_line e c) [0..<nat (cf_workers c)]
      else map (\<lambda>p. proc_line p (totals_of e c (workers_of c p))) [0..<nat (cf_procs c)])
     @ [summary (totals_of e c {..<nat (cf_workers c)}) (now_seconds (re_t1 e) - now_seconds (re_t0 e))]"

definition round_ok :: "round_env \<Rightarrow> pcm_config \<Rightarrow> bool" where
  "round_ok e c \<longleftrightarrow> children_ok e c \<and> list_all (delivers e c) [0..<nat (cf_workers c)]"

lemma round_okD:
  assumes "round_ok e c"
  shows "children_ok e c" "re_calloc e" "\<forall>i<nat (cf_workers c). delivers e c i"
  using assms by (auto simp: round_ok_def children_ok_def list_all_iff)

section \<open>Rounds\<close>

lemma join_workers_lines:
  "fst (join_workers (int k) (map (\<lambda>i. Some (result_of e c i)) [k..<n]) acc) = map (worker_line e c) [k..<n]"
proof (induction "n - k" arbitrary: k acc)
  case (Suc m)
  then have "[k..<n] = k # [Suc k..<n]" by (simp add: upt_conv_Cons)
  moreover have "m = n - Suc k" using Suc.hyps(2) by simp
  ultimately show ?case
    using Suc.hyps(1) [of "Suc k"]
    by (cases acc) (simp add: worker_line_def Let_def add.commute case_prod_unfold split: option.splits)
qed simp

lemma collect_proc_lines:
  assumes "\<And>p. p < n \<Longrightarrow> re_fdopen e p"
  shows "fst (collect e k (map (\<lambda>p. pipe_line (int p) (f p)) [k..<n]) acc) = map (\<lambda>p. proc_line p (f p)) [k..<n]"
proof (induction "n - k" arbitrary: k acc)
  case (Suc m)
  then have "[k..<n] = k # [Suc k..<n]" "k < n" by (simp_all add: upt_conv_Cons)
  moreover have "m = n - Suc k" using Suc.hyps(2) by simp
  ultimately show ?case
    using Suc.hyps(1) [of "Suc k"] assms [of k]
    by (cases acc; cases "f k") (simp add: scan_pipe_line proc_line_def case_prod_unfold split: option.splits)
qed simp

lemma threads_report:
  assumes "round_ok e c" "cf_mode c = Single \<or> cf_mode c = Threads"
  shows "pcm_round e c = (round_report e c, Some (totals_of e c {..<nat (cf_workers c)}))"
proof -
  note ok = round_okD [OF assms(1)]
  have run: "run_workers e c [0..<nat (cf_workers c)] = Inr (map (\<lambda>i. Some (result_of e c i)) [0..<nat (cf_workers c)])"
    using ok(3) by (intro run_workers_delivered) auto
  show ?thesis
    using assms(2) ok(2) round_threads_totals [OF ok(2,3)] join_workers_lines [of 0 e c "nat (cf_workers c)" "(0, 0, 0)"]
    by (cases "totals_of e c {..<nat (cf_workers c)}")
      (simp add: pcm_round_def round_report_def round_threads_def run case_prod_unfold split: option.splits)
qed

lemma processes_report:
  assumes "round_ok e c" "cf_mode c \<noteq> Single" "cf_mode c \<noteq> Threads"
    and "cf_workers c = cf_procs c * cf_threads c" "0 \<le> cf_procs c" "0 \<le> cf_threads c"
  shows "pcm_round e c = (round_report e c, Some (totals_of e c {..<nat (cf_workers c)}))"
proof -
  let ?P = "nat (cf_procs c)" and ?T = "nat (cf_threads c)"
  note ok = round_okD [OF assms(1)]
  have "child_process e c p = pipe_line (int p) (totals_of e c (workers_of c p))" if "p < ?P" for p
  proof -
    have "p * ?T + t < nat (cf_workers c)" if "t < ?T" for t
    proof -
      have "p * ?T + t < Suc p * ?T" using that by simp
      also have "\<dots> \<le> ?P * ?T" using \<open>p < ?P\<close> by (intro mult_right_mono) auto
      finally show ?thesis using assms(4-6) by (simp add: nat_mult_distrib)
    qed
    then show ?thesis
      using ok(1,3) that unfolding workers_of_def by (intro child_process_line) (auto simp: children_ok_def)
  qed
  then have lines: "map (child_process e c) [0..<?P] = map (\<lambda>p. pipe_line (int p) (totals_of e c (workers_of c p))) [0..<?P]"
    by simp
  have sp: "spawn e c [0..<?P] = Inr (map (child_process e c) [0..<?P])"
    using ok(1) by (intro spawn_ok) (auto simp: children_ok_def)
  have "fst (collect e 0 (map (child_process e c) [0..<?P]) (0, 0, 0)) =
      map (\<lambda>p. proc_line p (totals_of e c (workers_of c p))) [0..<?P]"
    unfolding lines using ok(1) by (intro collect_proc_lines) (auto simp: children_ok_def)
  then show ?thesis
    using assms(2,3) ok(2) round_processes_totals [OF ok(1) assms(4-6) ok(3)]
    by (cases "totals_of e c {..<nat (cf_workers c)}")
      (simp add: pcm_round_def round_report_def round_processes_def sp case_prod_unfold split: option.splits)
qed

lemma pcm_rounds_report:
  assumes "\<And>r. r \<in> set rs \<Longrightarrow> pcm_round (env r) c = (round_report (env r) c, Some (t r))"
  shows "pcm_rounds env c rs = (concat (map (\<lambda>r. Printf ''--- Round %d ---'' [Num (int r)] # round_report (env r) c) rs), 0)"
  using assms by (induction rs) simp_all

section \<open>Failing workers and children\<close>

text \<open>A child reports if its allocation succeeds and all its workers deliver.\<close>

definition reports :: "round_env \<Rightarrow> pcm_config \<Rightarrow> nat \<Rightarrow> bool" where
  "reports e c p \<longleftrightarrow> re_child_calloc e p \<and> list_all (delivers e c) (sorted_list_of_set (workers_of c p))"

text \<open>The parent's calls in a process mode; the children may fail.\<close>

definition parent_ok :: "round_env \<Rightarrow> pcm_config \<Rightarrow> bool" where
  "parent_ok e c \<longleftrightarrow> re_calloc e \<and> list_all (\<lambda>p. re_pipe e p \<and> re_fork e p \<and> re_fdopen e p) [0..<nat (cf_procs c)]"

definition partial_report :: "round_env \<Rightarrow> pcm_config \<Rightarrow> out list" where
  "partial_report e c =
     (let ps = filter (reports e c) [0..<nat (cf_procs c)] in
      map (\<lambda>p. proc_line p (totals_of e c (workers_of c p))) ps
      @ [summary (totals_of e c (\<Union>p\<in>set ps. workers_of c p)) (now_seconds (re_t1 e) - now_seconds (re_t0 e))])"

lemma reports_iff: "reports e c p \<longleftrightarrow> re_child_calloc e p \<and> (\<forall>i\<in>workers_of c p. delivers e c i)"
  by (simp add: reports_def workers_of_def list_all_iff)

lemma run_workers_failing:
  "\<not> list_all (delivers e c) is \<Longrightarrow> run_workers e c is = Inr rs \<Longrightarrow> None \<in> set rs"
  by (induction "is" arbitrary: rs)
    (auto simp: delivers_def result_of_def split: if_splits sum.splits option.splits)

lemma child_join_failing: "None \<in> set rs \<Longrightarrow> child_join rs acc = None"
  by (induction rs acc rule: child_join.induct) auto

lemma join_workers_failing: "None \<in> set rs \<Longrightarrow> snd (join_workers k rs acc) = None"
  by (induction k rs acc rule: join_workers.induct) (auto split: prod.splits)

lemma worker_ids: "map (\<lambda>t. p * nat (cf_threads c) + t) [0..<nat (cf_threads c)] = [p * nat (cf_threads c)..<p * nat (cf_threads c) + nat (cf_threads c)]"
  using map_add_upt [of "p * nat (cf_threads c)" "nat (cf_threads c)"] by (simp add: add.commute)

lemma child_process_cases:
  "child_process e c p = (if reports e c p then pipe_line (int p) (totals_of e c (workers_of c p)) else [])"
proof (cases "reports e c p")
  case True
  then show ?thesis
    using child_process_line [of e p c] by (simp add: reports_iff workers_of_def)
next
  case False
  let ?is = "[p * nat (cf_threads c)..<p * nat (cf_threads c) + nat (cf_threads c)]"
  have "re_child_calloc e p \<Longrightarrow> \<not> list_all (delivers e c) ?is"
    using False by (auto simp: reports_def workers_of_def)
  then show ?thesis
    using False run_workers_failing [of e c ?is] child_join_failing
    unfolding child_process_def worker_ids by (auto split: sum.split option.split)
qed

lemma scan_nothing: "scan_line [] = None"
  by (simp add: scan_line_def scan_int_def)

text \<open>The parent skips empty pipes.\<close>

lemma collect_partial:
  "(\<And>p. p < n \<Longrightarrow> re_fdopen e p) \<Longrightarrow>
   collect e k (map (\<lambda>p. if P p then pipe_line (int p) (f p) else []) [k..<n]) acc =
     (map (\<lambda>p. proc_line p (f p)) (filter P [k..<n]),
      Some (fold (\<lambda>p (a, b, s). (a + fst (f p), b + fst (snd (f p)), s + snd (snd (f p)))) (filter P [k..<n]) acc))"
proof (induction "n - k" arbitrary: k acc)
  case (Suc m)
  then have u: "[k..<n] = k # [Suc k..<n]" "k < n" "m = n - Suc k" by (simp_all add: upt_conv_Cons)
  then show ?case
    using Suc.hyps(1) [of "Suc k"] Suc.prems
    by (cases acc; cases "f k") (simp add: scan_pipe_line scan_nothing proc_line_def)
qed simp

lemma totals_disjoint:
  assumes "finite I" "finite J" "I \<inter> J = {}"
  shows "totals_of e c (I \<union> J) = (fst (totals_of e c I) + fst (totals_of e c J),
    fst (snd (totals_of e c I)) + fst (snd (totals_of e c J)), snd (snd (totals_of e c I)) + snd (snd (totals_of e c J)))"
  using assms by (simp add: totals_of_def sum.union_disjoint)

lemma workers_of_disjoint: "p \<noteq> q \<Longrightarrow> workers_of c p \<inter> workers_of c q = {}"
proof -
  have "False" if "p < q" "x \<in> workers_of c p" "x \<in> workers_of c q" for p q x
  proof -
    have "Suc p * nat (cf_threads c) \<le> q * nat (cf_threads c)" using that(1) by (intro mult_right_mono) auto
    then show False using that(2,3) by (simp add: workers_of_def)
  qed
  then show "p \<noteq> q \<Longrightarrow> ?thesis" by (metis disjoint_iff nat_neq_iff)
qed

lemma fold_totals:
  "distinct ps \<Longrightarrow> finite I \<Longrightarrow> (\<And>p. p \<in> set ps \<Longrightarrow> workers_of c p \<inter> I = {}) \<Longrightarrow>
   fold (\<lambda>p (a, b, s). (a + fst (totals_of e c (workers_of c p)), b + fst (snd (totals_of e c (workers_of c p))),
       s + snd (snd (totals_of e c (workers_of c p))))) ps (totals_of e c I)
   = totals_of e c (I \<union> (\<Union>p\<in>set ps. workers_of c p))"
proof (induction ps arbitrary: I)
  case (Cons p ps)
  have fin: "finite (workers_of c p)" by (simp add: workers_of_def)
  have d: "I \<inter> workers_of c p = {}" using Cons.prems(3) by auto
  have "workers_of c q \<inter> (I \<union> workers_of c p) = {}" if "q \<in> set ps" for q
    using Cons.prems(1,3) that workers_of_disjoint [of q p c] by auto
  then show ?case
    using Cons.IH [of "I \<union> workers_of c p"] Cons.prems(1,2) fin totals_disjoint [OF Cons.prems(2) fin d, of e c]
    by (simp add: Un_assoc case_prod_unfold)
qed simp

lemma partial_round:
  assumes "parent_ok e c"
  shows "round_processes e c = (partial_report e c,
    Some (totals_of e c (\<Union>p\<in>set (filter (reports e c) [0..<nat (cf_procs c)]). workers_of c p)))"
proof -
  let ?ps = "filter (reports e c) [0..<nat (cf_procs c)]"
  have ok: "re_calloc e" "\<And>p. p < nat (cf_procs c) \<Longrightarrow> re_fdopen e p"
      "\<forall>p\<in>set [0..<nat (cf_procs c)]. re_pipe e p \<and> re_fork e p"
    using assms by (auto simp: parent_ok_def list_all_iff)
  have "collect e 0 (map (child_process e c) [0..<nat (cf_procs c)]) (totals_of e c {}) =
      (map (\<lambda>p. proc_line p (totals_of e c (workers_of c p))) ?ps, Some (totals_of e c ({} \<union> (\<Union>p\<in>set ?ps. workers_of c p))))"
    unfolding child_process_cases using fold_totals [of ?ps "{}" c e] collect_partial [OF ok(2), of "nat (cf_procs c)"] by simp
  then show ?thesis
    using ok(1) spawn_ok [OF ok(3), of c] by (simp add: round_processes_def partial_report_def totals_of_def Let_def)
qed

lemma failing_threads_round:
  assumes "\<not> (re_calloc e \<and> list_all (delivers e c) [0..<nat (cf_workers c)])"
  shows "snd (round_threads e c) = None"
  using assms run_workers_failing [of e c "[0..<nat (cf_workers c)]"] join_workers_failing [of _ 0 "(0, 0, 0)"]
  by (auto simp: round_threads_def split: sum.split prod.split option.split) (metis option.discI snd_conv)

lemma threads_rounds_status:
  assumes "cf_mode c = Single \<or> cf_mode c = Threads"
  shows "snd (pcm_rounds env c rs) =
    (if list_all (\<lambda>r. re_calloc (env r) \<and> list_all (delivers (env r) c) [0..<nat (cf_workers c)]) rs then 0 else 1)"
proof (induction rs)
  case (Cons r rs)
  let ?ok = "re_calloc (env r) \<and> list_all (delivers (env r) c) [0..<nat (cf_workers c)]"
  have "snd (pcm_round (env r) c) = (if ?ok then Some (totals_of (env r) c {..<nat (cf_workers c)}) else None)"
    using assms failing_threads_round [of "env r" c] round_threads_totals [of "env r" c]
    by (auto simp: pcm_round_def list_all_iff)
  then show ?case using Cons by (auto split: prod.split option.split)
qed simp

lemma rounds_upto: "map nat [1..n] = [1..<Suc (nat n)]"
  by (intro nth_equalityI) (auto simp: nat_add_distrib simp del: upt_Suc)

section \<open>The whole program\<close>

text \<open>
  C5. The whole program, from the command line to the exit status: for every command line it accepts, in
  each of the four modes, and when the calls of all rounds succeed, it prints the configuration and then,
  for each round, the header, one line per worker (in the threaded modes) or one line per process with the
  totals of its workers, and the summary with the totals of all workers; the exit status is 0.
\<close>

theorem pcm_output:
  assumes parse: "pcm_parse stat argv = Inr c"
    and ok: "\<And>r. 1 \<le> r \<Longrightarrow> r \<le> nat (cf_rounds c) \<Longrightarrow> round_ok (env r) c"
  shows "pcm_main stat env argv =
    (pcm_banner c @ concat (map (\<lambda>r. Printf ''--- Round %d ---'' [Num (int r)] # round_report (env r) c)
                              [1..<Suc (nat (cf_rounds c))]), 0)"
proof -
  note c = pcm_parse_accepts [OF parse]
  have "pcm_round (env r) c = (round_report (env r) c, Some (totals_of (env r) c {..<nat (cf_workers c)}))"
    if "r \<in> set [1..<Suc (nat (cf_rounds c))]" for r
    using ok [of r] that c threads_report [of "env r" c] processes_report [of "env r" c] by fastforce
  then have "pcm_rounds env c [1..<Suc (nat (cf_rounds c))] =
      (concat (map (\<lambda>r. Printf ''--- Round %d ---'' [Num (int r)] # round_report (env r) c)
                              [1..<Suc (nat (cf_rounds c))]), 0)"
    by (rule pcm_rounds_report)
  then show ?thesis by (simp add: pcm_main_def parse rounds_upto del: upt_Suc)
qed

lemma demo_round_reports: "round_ok (demo_round (replicate 10 3)) (demo_config Hybrid 2 2 10)"
  unfolding round_ok_def list_all_iff
  using workers_deliver(1) [OF demo_config_wf demo_round_ok(1)] demo_round_ok(2)
  by (auto simp: demo_config_def)

theorem pcm_output_witness:
  "pcm_main (\<lambda>_. Some 10) (\<lambda>_. demo_round (replicate 10 3)) (demo_argv ''hybrid'' ''2'' ''2'') =
    (pcm_banner (demo_config Hybrid 2 2 10)
     @ concat (map (\<lambda>r. Printf ''--- Round %d ---'' [Num (int r)]
          # round_report (demo_round (replicate 10 3)) (demo_config Hybrid 2 2 10)) [1..<3]), 0)"
  using pcm_output [OF demo_parse, of "\<lambda>_. demo_round (replicate 10 3)"] demo_round_reports
  by (simp add: demo_config_def numeral_eq_Suc)

text \<open>
  C6. Failing children go unnoticed: whatever happens in the child processes of a process mode (a failed
  allocation, thread creation, system call or read), a child with any failure writes nothing, the parent
  prints the lines of the other children and a summary with their totals only, and the exit status is 0.
\<close>

theorem child_failures_unnoticed:
  assumes parse: "pcm_parse stat argv = Inr c" and mode: "cf_mode c = Processes \<or> cf_mode c = Hybrid"
    and ok: "\<And>r. 1 \<le> r \<Longrightarrow> r \<le> nat (cf_rounds c) \<Longrightarrow> parent_ok (env r) c"
  shows "pcm_main stat env argv =
    (pcm_banner c @ concat (map (\<lambda>r. Printf ''--- Round %d ---'' [Num (int r)] # partial_report (env r) c)
                              [1..<Suc (nat (cf_rounds c))]), 0)"
proof -
  let ?rs = "[1..<Suc (nat (cf_rounds c))]"
  have "pcm_round (env r) c = (partial_report (env r) c,
      Some (totals_of (env r) c (\<Union>p\<in>set (filter (reports (env r) c) [0..<nat (cf_procs c)]). workers_of c p)))"
    if "r \<in> set ?rs" for r
    using ok [of r] that mode partial_round [of "env r" c] by (auto simp: pcm_round_def)
  then have "pcm_rounds env c rs = (concat (map (\<lambda>r. Printf ''--- Round %d ---'' [Num (int r)] # partial_report (env r) c) rs), 0)"
    if "set rs \<subseteq> set ?rs" for rs
    using that by (induction rs) (simp_all del: upt_Suc)
  then show ?thesis by (simp add: pcm_main_def parse rounds_upto del: upt_Suc)
qed

text \<open>
  C7. In the threaded modes nothing goes unnoticed: the exit status is 0 if in every round the allocation
  succeeds and all workers deliver a result, and otherwise 1.
\<close>

theorem threads_exit_status:
  assumes parse: "pcm_parse stat argv = Inr c" and mode: "cf_mode c = Single \<or> cf_mode c = Threads"
  shows "snd (pcm_main stat env argv) =
    (if \<forall>r\<in>{1..nat (cf_rounds c)}. re_calloc (env r) \<and> (\<forall>i<nat (cf_workers c). delivers (env r) c i) then 0 else 1)"
proof -
  let ?rs = "[1..<Suc (nat (cf_rounds c))]"
  have "snd (pcm_main stat env argv) = snd (pcm_rounds env c ?rs)"
    by (simp add: pcm_main_def parse rounds_upto case_prod_unfold del: upt_Suc)
  moreover have "list_all (\<lambda>r. re_calloc (env r) \<and> list_all (delivers (env r) c) [0..<nat (cf_workers c)]) ?rs \<longleftrightarrow>
      (\<forall>r\<in>{1..nat (cf_rounds c)}. re_calloc (env r) \<and> (\<forall>i<nat (cf_workers c). delivers (env r) c i))"
    unfolding list_all_iff set_upt atLeastLessThanSuc_atLeastAtMost by auto
  ultimately show ?thesis unfolding threads_rounds_status [OF mode] by (simp only:)
qed

definition demo_partial :: round_env where
  "demo_partial = (demo_round (replicate 10 3))\<lparr>re_create := (\<lambda>i. i \<noteq> 1)\<rparr>"

lemma demo_partial_reports: "filter (reports demo_partial (demo_config Hybrid 2 2 10)) [0..<2] = [1]"
proof -
  let ?c = "demo_config Hybrid 2 2 10" and ?d = "demo_round (replicate 10 3)"
  have "delivers demo_partial ?c i" if "delivers ?d ?c i" "i \<noteq> 1" for i
    using that by (simp add: delivers_def result_of_def demo_partial_def)
  moreover have "delivers ?d ?c i" if "i \<in> {2..<4}" for i
    using that workers_deliver(1) [OF demo_config_wf demo_round_ok(1)] by (auto simp: demo_config_def)
  moreover have "\<not> delivers demo_partial ?c 1" by (simp add: delivers_def demo_partial_def)
  ultimately show ?thesis
    by (auto simp: reports_iff workers_of_def demo_config_def demo_partial_def demo_round_def numeral_2_eq_2)
qed

text \<open>The creation of one thread fails: the first child is silent, and only the second one counts.\<close>

theorem child_failures_unnoticed_witness:
  "pcm_main (\<lambda>_. Some 10) (\<lambda>_. demo_partial) (demo_argv ''hybrid'' ''2'' ''2'') =
    (pcm_banner (demo_config Hybrid 2 2 10)
     @ concat (map (\<lambda>r. [Printf ''--- Round %d ---'' [Num (int r)],
          proc_line 1 (totals_of demo_partial (demo_config Hybrid 2 2 10) {2..<4}),
          summary (totals_of demo_partial (demo_config Hybrid 2 2 10) {2..<4}) 0]) [1..<3]), 0)"
proof -
  have "parent_ok demo_partial (demo_config Hybrid 2 2 10)"
    by (simp add: parent_ok_def list_all_iff demo_partial_def demo_round_def demo_config_def)
  then show ?thesis
    using child_failures_unnoticed [OF demo_parse, of "\<lambda>_. demo_partial"] demo_partial_reports
    by (simp add: demo_config_def partial_report_def workers_of_def demo_partial_def demo_round_def now_seconds_def
        numeral_eq_Suc)
qed

lemma demo_parse_threads:
  "pcm_parse (\<lambda>_. Some 8192) (demo_argv ''threads'' ''1'' ''2'') = Inr (demo_config Threads 1 2 8192)"
  by code_simp

theorem threads_exit_status_witness:
  "snd (pcm_main (\<lambda>_. Some 8192) (\<lambda>_. demo_round (replicate 8192 5)) (demo_argv ''threads'' ''1'' ''2'')) = 0
   \<and> snd (pcm_main (\<lambda>_. Some 8192) (\<lambda>_. demo_failing) (demo_argv ''threads'' ''1'' ''2'')) = 1"
proof -
  let ?c = "demo_config Threads 1 2 8192"
  have mode: "cf_mode ?c = Single \<or> cf_mode ?c = Threads" by (simp add: demo_config_def)
  note status = threads_exit_status [OF demo_parse_threads mode]
  have "re_calloc (demo_round (replicate 8192 5))" by (simp add: demo_round_def)
  moreover have "\<forall>i<nat (cf_workers ?c). delivers (demo_round (replicate 8192 5)) ?c i"
    using workers_deliver(1) [OF demo_aligned(1) demo_round_ok(1)] by blast
  moreover have "\<not> delivers demo_failing ?c 0"
    by (simp add: delivers_def demo_failing_def demo_round_def demo_worker_def thread_worker_def read_range_def)
  moreover have "1 \<in> {1..nat (cf_rounds ?c)}" "0 < nat (cf_workers ?c)" by (simp_all add: demo_config_def)
  ultimately show ?thesis unfolding status by (simp only: simp_thms split: if_split) blast
qed

end
