(* ===== verification/Counters.thy ===== *)
theory Counters
  imports Prelude
begin

text \<open>
  Threads that increment shared counters without a lock: the racy and the atomic increments of
  \<^verbatim>\<open>labs/lab_18_concurrency.c\<close> and the shared address space demonstration of
  \<^verbatim>\<open>labs/lab_01_threads_addr_fs.c\<close>. A step is one atomic memory access of one thread; every
  interleaving is a run. A \<^verbatim>\<open>counter++\<close> on a plain variable is a load and a store, an
  \<^verbatim>\<open>atomic_fetch_add\<close> is one step.
\<close>

section \<open>The racy counter\<close>

datatype racy_pc = RLoad | RStore int

record racy_state =
  counter_racy :: int
  r_i :: "tid \<Rightarrow> nat"
  r_pc :: "tid \<Rightarrow> racy_pc"

definition racy_init :: racy_state where
  "racy_init = \<lparr>counter_racy = 0, r_i = (\<lambda>_. 0), r_pc = (\<lambda>_. RLoad)\<rparr>"

text \<open>\<open>T\<close> threads run \<^verbatim>\<open>racy_inc\<close> with \<open>n\<close> iterations each.\<close>

inductive racy_inc :: "nat \<Rightarrow> nat \<Rightarrow> racy_state \<Rightarrow> racy_state \<Rightarrow> bool" for T n where
  load: "t < T \<Longrightarrow> r_i s t < n \<Longrightarrow> r_pc s t = RLoad \<Longrightarrow>
     racy_inc T n s (s\<lparr>r_pc := (r_pc s)(t := RStore (counter_racy s))\<rparr>)"
| store: "t < T \<Longrightarrow> r_pc s t = RStore v \<Longrightarrow>
     racy_inc T n s (s\<lparr>counter_racy := v + 1, r_i := (r_i s)(t := Suc (r_i s t)),
                      r_pc := (r_pc s)(t := RLoad)\<rparr>)"

definition racy_joined :: "nat \<Rightarrow> nat \<Rightarrow> racy_state \<Rightarrow> bool" where
  "racy_joined T n s \<longleftrightarrow> (\<forall>t<T. r_i s t = n \<and> r_pc s t = RLoad)"

text \<open>What \<^verbatim>\<open>main\<close> prints after joining the threads (\<open>N * T\<close> is an \<open>int\<close>, then a \<open>long\<close>).\<close>

definition racy_report :: "nat \<Rightarrow> nat \<Rightarrow> racy_state \<Rightarrow> out" where
  "racy_report T n s =
     Printf ''  Expected: %d, Got: %ld (LOST %ld updates!)''
       [Num (to_int (int n * int T)), Num (counter_racy s), Num (int n * int T - counter_racy s)]"

section \<open>The atomic counter\<close>

record safe_state =
  counter_safe :: int
  s_i :: "tid \<Rightarrow> nat"

definition safe_init :: safe_state where
  "safe_init = \<lparr>counter_safe = 0, s_i = (\<lambda>_. 0)\<rparr>"

inductive safe_inc :: "nat \<Rightarrow> nat \<Rightarrow> safe_state \<Rightarrow> safe_state \<Rightarrow> bool" for T n where
  fetch_add: "t < T \<Longrightarrow> s_i s t < n \<Longrightarrow>
     safe_inc T n s (s\<lparr>counter_safe := counter_safe s + 1, s_i := (s_i s)(t := Suc (s_i s t))\<rparr>)"

definition safe_joined :: "nat \<Rightarrow> nat \<Rightarrow> safe_state \<Rightarrow> bool" where
  "safe_joined T n s \<longleftrightarrow> (\<forall>t<T. s_i s t = n)"

definition safe_report :: "nat \<Rightarrow> nat \<Rightarrow> safe_state \<Rightarrow> out" where
  "safe_report T n s =
     Printf ''  Expected: %d, Got: %ld (correct with atomics)''
       [Num (to_int (int n * int T)), Num (counter_safe s)]"

text \<open>
  Phase 4: the release store and the acquire load of one thread. \<open>flag_ops\<close> is what the thread does
  to its two variables, in the order of the program.
\<close>

record flag_state =
  ready_flag :: int
  shared_data :: int

definition flag_ops :: flag_state where
  "flag_ops =
     (let s0 = \<lparr>ready_flag = 0, shared_data = 0\<rparr>;
          s1 = s0\<lparr>shared_data := 42\<rparr>
      in s1\<lparr>ready_flag := 1\<rparr>)"

definition flag_phase :: "flag_state \<Rightarrow> out list" where
  "flag_phase s =
     (if ready_flag s \<noteq> 0
      then [Printf ''  Acquire/release: flag=1, shared_data=%ld (guaranteed visible)'' [Num (shared_data s)]]
      else [])"

text \<open>\<^verbatim>\<open>main\<close> of lab 18, once the threads of its first two phases have ended in \<open>r\<close> and \<open>s\<close>.\<close>

definition lab18_main :: "racy_state \<Rightarrow> safe_state \<Rightarrow> out list" where
  "lab18_main r s = [racy_report 4 1000000 r, safe_report 4 1000000 s] @ flag_phase flag_ops"

section \<open>Threads sharing an address space\<close>

text \<open>
  \<^verbatim>\<open>thread_func\<close> of lab 01: report what is visible, add 1 to the global and 10 through the
  pointer, report again. The output is the shared \<^verbatim>\<open>stdout\<close>.
\<close>

datatype tf_pc =
    TfStart | TfSeeGlobal | TfShowGlobal int | TfSeePtr | TfShowPtr int | TfAddGlobal | TfAddPtr
  | TfLoad | TfLoadPtr int | TfReport int int | TfDone

record tf_state =
  shared_global :: int
  heap_var :: int
  tf_pcs :: "tid \<Rightarrow> tf_pc"
  tf_out :: "out list"

text \<open>The process and thread numbers and the two addresses are the system's answers.\<close>

record tf_env =
  tf_pid :: int
  main_tid :: int
  tf_tid :: "tid \<Rightarrow> int"
  global_addr :: u64
  heap_addr :: u64

definition tf_init :: "tf_env \<Rightarrow> tf_state" where
  "tf_init e = \<lparr>shared_global = 42, heap_var = 100, tf_pcs = (\<lambda>_. TfStart), tf_out =
     [Printf ''Main: PID=%d, TID=%ld'' [Num (tf_pid e), Num (main_tid e)],
      Printf ''Main: &shared_global=%p, value=%d'' [Ptr (global_addr e), Num 42],
      Printf ''Main: &heap_var=%p (stack), value=%d'' [Ptr (heap_addr e), Num 100]]\<rparr>"

inductive thread_func :: "tf_env \<Rightarrow> tf_state \<Rightarrow> tf_state \<Rightarrow> bool" for e where
  start: "t < 3 \<Longrightarrow> tf_pcs s t = TfStart \<Longrightarrow>
     thread_func e s (s\<lparr>tf_pcs := (tf_pcs s)(t := TfSeeGlobal), tf_out := tf_out s @
       [Printf ''  Thread %d: PID=%d, TID=%ld'' [Num (int t), Num (tf_pid e), Num (tf_tid e t)]]\<rparr>)"
| see_global: "t < 3 \<Longrightarrow> tf_pcs s t = TfSeeGlobal \<Longrightarrow>
     thread_func e s (s\<lparr>tf_pcs := (tf_pcs s)(t := TfShowGlobal (shared_global s))\<rparr>)"
| show_global: "t < 3 \<Longrightarrow> tf_pcs s t = TfShowGlobal g \<Longrightarrow>
     thread_func e s (s\<lparr>tf_pcs := (tf_pcs s)(t := TfSeePtr), tf_out := tf_out s @
       [Printf ''  Thread %d: &shared_global=%p, value=%d'' [Num (int t), Ptr (global_addr e), Num g]]\<rparr>)"
| see_ptr: "t < 3 \<Longrightarrow> tf_pcs s t = TfSeePtr \<Longrightarrow>
     thread_func e s (s\<lparr>tf_pcs := (tf_pcs s)(t := TfShowPtr (heap_var s))\<rparr>)"
| show_ptr: "t < 3 \<Longrightarrow> tf_pcs s t = TfShowPtr h \<Longrightarrow>
     thread_func e s (s\<lparr>tf_pcs := (tf_pcs s)(t := TfAddGlobal), tf_out := tf_out s @
       [Printf ''  Thread %d: shared_ptr points to %p, value=%d'' [Num (int t), Ptr (heap_addr e), Num h]]\<rparr>)"
| add_global: "t < 3 \<Longrightarrow> tf_pcs s t = TfAddGlobal \<Longrightarrow>
     thread_func e s (s\<lparr>tf_pcs := (tf_pcs s)(t := TfAddPtr), shared_global := shared_global s + 1\<rparr>)"
| add_ptr: "t < 3 \<Longrightarrow> tf_pcs s t = TfAddPtr \<Longrightarrow>
     thread_func e s (s\<lparr>tf_pcs := (tf_pcs s)(t := TfLoad), heap_var := heap_var s + 10\<rparr>)"
| load: "t < 3 \<Longrightarrow> tf_pcs s t = TfLoad \<Longrightarrow>
     thread_func e s (s\<lparr>tf_pcs := (tf_pcs s)(t := TfLoadPtr (shared_global s))\<rparr>)"
| load_ptr: "t < 3 \<Longrightarrow> tf_pcs s t = TfLoadPtr g \<Longrightarrow>
     thread_func e s (s\<lparr>tf_pcs := (tf_pcs s)(t := TfReport g (heap_var s))\<rparr>)"
| report: "t < 3 \<Longrightarrow> tf_pcs s t = TfReport g h \<Longrightarrow>
     thread_func e s (s\<lparr>tf_pcs := (tf_pcs s)(t := TfDone), tf_out := tf_out s @
       [Printf ''  Thread %d: After modification: global=%d, *shared_ptr=%d'' [Num (int t), Num g, Num h]]\<rparr>)"

definition tf_joined :: "tf_state \<Rightarrow> bool" where
  "tf_joined s \<longleftrightarrow> (\<forall>t<3. tf_pcs s t = TfDone)"

definition demo_threads_shared_space :: "tf_state \<Rightarrow> out list" where
  "demo_threads_shared_space s = tf_out s @
     [Printf ''Main after all threads: global=%d, heap_var=%d'' [Num (shared_global s), Num (heap_var s)]]"

section \<open>Invariants\<close>

definition r_total :: "nat \<Rightarrow> racy_state \<Rightarrow> nat" where
  "r_total T s = (\<Sum>t<T. r_i s t)"

definition racy_inv :: "nat \<Rightarrow> nat \<Rightarrow> racy_state \<Rightarrow> bool" where
  "racy_inv T n s \<longleftrightarrow>
     (\<forall>t<T. r_i s t \<le> n \<and> (r_pc s t \<noteq> RLoad \<longrightarrow> r_i s t < n))
   \<and> 0 \<le> counter_racy s \<and> counter_racy s \<le> int (r_total T s)
   \<and> (\<forall>t<T. \<forall>v. r_pc s t = RStore v \<longrightarrow> 0 \<le> v \<and> v \<le> int (r_total T s) \<and> (0 < r_i s t \<longrightarrow> 1 \<le> v))
   \<and> ((\<exists>t<T. 0 < r_i s t) \<longrightarrow> 1 \<le> counter_racy s)
   \<and> (T = 0 \<or> (\<exists>w<T. 2 \<le> r_i s w \<longrightarrow> 2 \<le> counter_racy s))"

definition racy_variant :: "nat \<Rightarrow> nat \<Rightarrow> racy_state \<Rightarrow> nat" where
  "racy_variant T n s = (\<Sum>t<T. 2 * (n - r_i s t) + (if r_pc s t = RLoad then 1 else 0))"

lemma racy_inv_init: "racy_inv T n racy_init"
  by (auto simp: racy_inv_def racy_init_def r_total_def)

lemma racy_inv_step:
  assumes "racy_inv T n s" "racy_inc T n s s'"
  shows "racy_inv T n s'"
  using assms(2,1)
proof (cases rule: racy_inc.cases)
  case (load t)
  with assms(1) show ?thesis by (auto simp: racy_inv_def r_total_def)
next
  case (store t v)
  have tot: "r_total T s' = Suc (r_total T s)"
    unfolding r_total_def using store by (intro sum_increment [of t]) auto
  have v: "0 \<le> v" "v \<le> int (r_total T s)" "0 < r_i s t \<longrightarrow> 1 \<le> v" "r_i s t < n"
    using assms(1) store(2,3) by (auto simp: racy_inv_def)
  have w: "\<exists>w<T. 2 \<le> r_i s' w \<longrightarrow> 2 \<le> counter_racy s'"
    using store v(3) by (intro exI [of _ t]) auto
  show ?thesis
    using assms(1) store(2,3) v w unfolding racy_inv_def tot by (auto simp: store(1))
qed

lemma racy_variant_step:
  assumes "racy_inv T n s" "racy_inc T n s s'"
  shows "racy_variant T n s' < racy_variant T n s"
  using assms(2)
proof (cases rule: racy_inc.cases)
  case (load t)
  then show ?thesis unfolding racy_variant_def by (intro sum_decrease [of t]) auto
next
  case (store t v)
  moreover have "r_i s t < n" using assms(1) store by (auto simp: racy_inv_def)
  ultimately show ?thesis unfolding racy_variant_def by (intro sum_decrease [of t]) auto
qed

lemma racy_progress:
  assumes "racy_inv T n s" "\<not> racy_joined T n s"
  shows "\<exists>s'. racy_inc T n s s'"
proof -
  obtain t where t: "t < T" "r_i s t \<noteq> n \<or> r_pc s t \<noteq> RLoad"
    using assms(2) by (auto simp: racy_joined_def)
  show ?thesis
  proof (cases "r_pc s t")
    case RLoad
    then have "r_i s t < n" using assms(1) t by (auto simp: racy_inv_def le_neq_implies_less)
    with t(1) RLoad show ?thesis by (blast intro: racy_inc.load)
  next
    case (RStore v)
    with t(1) show ?thesis by (blast intro: racy_inc.store)
  qed
qed

interpretation racy: ending_system racy_init "racy_inc T n" "racy_inv T n" "racy_joined T n"
  "racy_variant T n" for T n
  by unfold_locales (fact racy_inv_init racy_inv_step racy_progress racy_variant_step)+

definition safe_inv :: "nat \<Rightarrow> nat \<Rightarrow> safe_state \<Rightarrow> bool" where
  "safe_inv T n s \<longleftrightarrow> (\<forall>t<T. s_i s t \<le> n) \<and> counter_safe s = int (\<Sum>t<T. s_i s t)"

definition safe_variant :: "nat \<Rightarrow> nat \<Rightarrow> safe_state \<Rightarrow> nat" where
  "safe_variant T n s = (\<Sum>t<T. n - s_i s t)"

lemma safe_inv_step:
  assumes "safe_inv T n s" "safe_inc T n s s'"
  shows "safe_inv T n s'"
  using assms(2)
proof (cases rule: safe_inc.cases)
  case (fetch_add t)
  have "(\<Sum>t<T. s_i s' t) = Suc (\<Sum>t<T. s_i s t)"
    using fetch_add by (intro sum_increment [of t]) auto
  with assms(1) fetch_add show ?thesis by (auto simp: safe_inv_def)
qed

interpretation safe: ending_system safe_init "safe_inc T n" "safe_inv T n" "safe_joined T n"
  "safe_variant T n" for T n
proof
  show "safe_inv T n safe_init" by (simp add: safe_inv_def safe_init_def)
  show "safe_inv T n s \<Longrightarrow> safe_inc T n s t \<Longrightarrow> safe_inv T n t" for s t by (rule safe_inv_step)
  show "\<exists>t. safe_inc T n s t" if run: "safe_inv T n s" "\<not> safe_joined T n s" for s
  proof -
    obtain t where "t < T" "s_i s t < n"
      using run by (auto simp: safe_inv_def safe_joined_def le_neq_implies_less)
    then show ?thesis by (blast intro: safe_inc.fetch_add)
  qed
  show "safe_variant T n t < safe_variant T n s" if "safe_inc T n s t" for s t
    using that by cases (auto simp: safe_variant_def intro!: sum_decrease)
qed

fun tf_rank :: "tf_pc \<Rightarrow> nat" where
  "tf_rank TfStart = 10"
| "tf_rank TfSeeGlobal = 9"
| "tf_rank (TfShowGlobal _) = 8"
| "tf_rank TfSeePtr = 7"
| "tf_rank (TfShowPtr _) = 6"
| "tf_rank TfAddGlobal = 5"
| "tf_rank TfAddPtr = 4"
| "tf_rank TfLoad = 3"
| "tf_rank (TfLoadPtr _) = 2"
| "tf_rank (TfReport _ _) = 1"
| "tf_rank TfDone = 0"

definition tf_inv :: "tf_state \<Rightarrow> bool" where
  "tf_inv s \<longleftrightarrow> shared_global s = 42 + (\<Sum>t<3. if tf_rank (tf_pcs s t) \<le> 4 then 1 else 0)
     \<and> heap_var s = 100 + 10 * (\<Sum>t<3. if tf_rank (tf_pcs s t) \<le> 3 then 1 else 0)"

lemma sum3: "(\<Sum>t<3. f t) = f 0 + f 1 + f (2::nat)" for f :: "nat \<Rightarrow> int"
  by (simp add: eval_nat_numeral)

interpretation tf: ending_system "tf_init e" "thread_func e" tf_inv tf_joined
  "\<lambda>s. \<Sum>t<3. tf_rank (tf_pcs s t)" for e
proof
  show "tf_inv (tf_init e)" by (simp add: tf_inv_def tf_init_def)
  have lt3: "t < 3 \<Longrightarrow> t = 0 \<or> t = 1 \<or> t = 2" for t :: nat by linarith
  show "tf_inv t" if "tf_inv s" "thread_func e s t" for s t
    using that(2,1) by cases (auto simp: tf_inv_def sum3 dest!: lt3)
  show "\<exists>t. thread_func e s t" if run: "\<not> tf_joined s" for s
  proof -
    obtain t where "t < 3" "tf_pcs s t \<noteq> TfDone" using run by (auto simp: tf_joined_def)
    then show ?thesis by (cases "tf_pcs s t") (blast intro: thread_func.intros)+
  qed
  show "(\<Sum>i<3. tf_rank (tf_pcs t i)) < (\<Sum>i<3. tf_rank (tf_pcs s i))" if "thread_func e s t" for s t
    using that by cases (auto intro!: sum_decrease)
qed

section \<open>Schedules of the racy counter\<close>

lemma racy_solo:
  "t < T \<Longrightarrow> r_pc s t = RLoad \<Longrightarrow> r_i s t + k \<le> n \<Longrightarrow>
   (racy_inc T n)\<^sup>*\<^sup>* s (s\<lparr>counter_racy := counter_racy s + int k, r_i := (r_i s)(t := r_i s t + k)\<rparr>)"
proof (induction k)
  case (Suc k)
  let ?s = "s\<lparr>counter_racy := counter_racy s + int k, r_i := (r_i s)(t := r_i s t + k)\<rparr>"
  let ?l = "?s\<lparr>r_pc := (r_pc ?s)(t := RStore (counter_racy ?s))\<rparr>"
  have "(racy_inc T n)\<^sup>*\<^sup>* s ?s" using Suc.prems by (intro Suc.IH) auto
  moreover have "racy_inc T n ?s ?l" using Suc.prems by (intro racy_inc.load) auto
  moreover have "racy_inc T n ?l (?l\<lparr>counter_racy := counter_racy ?s + 1,
      r_i := (r_i ?l)(t := Suc (r_i ?l t)), r_pc := (r_pc ?l)(t := RLoad)\<rparr>)"
    using Suc.prems by (intro racy_inc.store) auto
  moreover have "?l\<lparr>counter_racy := counter_racy ?s + 1, r_i := (r_i ?l)(t := Suc (r_i ?l t)),
      r_pc := (r_pc ?l)(t := RLoad)\<rparr>
      = s\<lparr>counter_racy := counter_racy s + int (Suc k), r_i := (r_i s)(t := r_i s t + Suc k)\<rparr>"
    using Suc.prems by (simp add: fun_upd_idem)
  ultimately show ?case by (metis (no_types, lifting) rtranclp.rtrancl_into_rtrancl)
qed simp

text \<open>The threads \<open>k, \<dots>, m - 1\<close> one after the other.\<close>

lemma racy_batch:
  "k \<le> m \<Longrightarrow> m \<le> T \<Longrightarrow> \<forall>t. k \<le> t \<and> t < m \<longrightarrow> r_pc s t = RLoad \<and> r_i s t = 0 \<Longrightarrow>
   (racy_inc T n)\<^sup>*\<^sup>* s (s\<lparr>counter_racy := counter_racy s + int ((m - k) * n),
      r_i := (\<lambda>t. if k \<le> t \<and> t < m then n else r_i s t)\<rparr>)"
proof (induction m)
  case (Suc m)
  show ?case
  proof (cases "k \<le> m")
    case True
    let ?s = "s\<lparr>counter_racy := counter_racy s + int ((m - k) * n),
      r_i := (\<lambda>t. if k \<le> t \<and> t < m then n else r_i s t)\<rparr>"
    have 1: "(racy_inc T n)\<^sup>*\<^sup>* s ?s" using Suc.prems True by (intro Suc.IH) auto
    have 2: "(racy_inc T n)\<^sup>*\<^sup>* ?s (?s\<lparr>counter_racy := counter_racy ?s + int n,
        r_i := (r_i ?s)(m := r_i ?s m + n)\<rparr>)"
      using Suc.prems True by (intro racy_solo) auto
    have c: "int ((Suc m - k) * n) = int ((m - k) * n) + int n"
      using True by (simp add: Suc_diff_le)
    have i: "(r_i ?s)(m := r_i ?s m + n) = (\<lambda>t. if k \<le> t \<and> t < Suc m then n else r_i s t)"
      using Suc.prems True by (auto simp: fun_eq_iff less_Suc_eq)
    have "?s\<lparr>counter_racy := counter_racy ?s + int n, r_i := (r_i ?s)(m := r_i ?s m + n)\<rparr>
        = s\<lparr>counter_racy := counter_racy s + int ((Suc m - k) * n),
            r_i := (\<lambda>t. if k \<le> t \<and> t < Suc m then n else r_i s t)\<rparr>"
      unfolding i c by simp
    with rtranclp_trans [OF 1 2] show ?thesis by simp
  next
    case False
    then have "(\<lambda>t. if k \<le> t \<and> t < Suc m then n else r_i s t) = r_i s" and "Suc m - k = 0"
      using Suc.prems by (auto simp: fun_eq_iff)
    then show ?thesis by simp
  qed
qed simp

lemma racy_max_run:
  "\<exists>s. (racy_inc T n)\<^sup>*\<^sup>* racy_init s \<and> racy_joined T n s \<and> counter_racy s = int n * int T"
  using racy_batch [of 0 T T racy_init n]
  by (intro exI conjI) (auto simp: racy_init_def racy_joined_def)

text \<open>
  Thread 0 sleeps on its first loaded value while the others work, wipes their work out, is
  itself wiped out by the last store of thread 1.
\<close>

lemma racy_min_run:
  assumes T: "2 \<le> T" and n: "2 \<le> n"
  shows "\<exists>s. (racy_inc T n)\<^sup>*\<^sup>* racy_init s \<and> racy_joined T n s \<and> counter_racy s = 2"
proof -
  let ?step = "racy_inc T n"
  define s1 where "s1 = racy_init\<lparr>r_pc := (r_pc racy_init)(0 := RStore 0)\<rparr>"
  define s2 where "s2 = s1\<lparr>counter_racy := counter_racy s1 + int ((T - 2) * n),
     r_i := (\<lambda>t. if 2 \<le> t \<and> t < T then n else r_i s1 t)\<rparr>"
  define s3 where "s3 = s2\<lparr>counter_racy := counter_racy s2 + int (n - 1),
     r_i := (r_i s2)(1 := r_i s2 1 + (n - 1))\<rparr>"
  define s4 where "s4 = s3\<lparr>counter_racy := 0 + 1, r_i := (r_i s3)(0 := Suc (r_i s3 0)),
     r_pc := (r_pc s3)(0 := RLoad)\<rparr>"
  define s5 where "s5 = s4\<lparr>r_pc := (r_pc s4)(1 := RStore (counter_racy s4))\<rparr>"
  define s6 where "s6 = s5\<lparr>counter_racy := counter_racy s5 + int (n - 1),
     r_i := (r_i s5)(0 := r_i s5 0 + (n - 1))\<rparr>"
  define s7 where "s7 = s6\<lparr>counter_racy := 1 + 1, r_i := (r_i s6)(1 := Suc (r_i s6 1)),
     r_pc := (r_pc s6)(1 := RLoad)\<rparr>"
  note defs = s1_def s2_def s3_def s4_def s5_def s6_def s7_def racy_init_def
  have "?step racy_init s1"
    using racy_inc.load [of 0 T racy_init n] T n by (simp add: s1_def racy_init_def)
  moreover have "?step\<^sup>*\<^sup>* s1 s2" unfolding s2_def using T by (intro racy_batch) (auto simp: s1_def racy_init_def)
  moreover have "?step\<^sup>*\<^sup>* s2 s3" unfolding s3_def using T n by (intro racy_solo) (auto simp: s2_def s1_def racy_init_def)
  moreover have "?step s3 s4" unfolding s4_def using T by (intro racy_inc.store) (auto simp: s3_def s2_def s1_def)
  moreover have "?step s4 s5" unfolding s5_def using T n by (intro racy_inc.load) (auto simp: defs)
  moreover have "?step\<^sup>*\<^sup>* s5 s6" unfolding s6_def using T n by (intro racy_solo) (auto simp: defs)
  moreover have "?step s6 s7" unfolding s7_def using T by (intro racy_inc.store) (auto simp: defs)
  ultimately have "?step\<^sup>*\<^sup>* racy_init s7" by (meson converse_rtranclp_into_rtranclp rtranclp_trans r_into_rtranclp)
  moreover have "racy_joined T n s7"
    using T n by (auto simp: defs racy_joined_def not_less_eq_eq numeral_2_eq_2 less_Suc_eq)
  moreover have "counter_racy s7 = 2" by (simp add: s7_def)
  ultimately show ?thesis by blast
qed

section \<open>Properties\<close>

text \<open>A thread that has not stored yet has an iteration left, so the variant never falls below \<open>T\<close>.\<close>

lemma racy_run_length:
  assumes "(racy_inc T n ^^ k) racy_init s"
  shows "k \<le> 2 * n * T"
proof -
  have inv: "racy_inv T n s" by (rule racy.inv_reachable [OF relpowp_imp_rtranclp [OF assms]])
  have "(\<Sum>t<T. 1) \<le> racy_variant T n s" unfolding racy_variant_def
    using inv by (intro sum_mono) (auto simp: racy_inv_def Suc_le_eq split: racy_pc.splits)
  moreover have "k + racy_variant T n s \<le> T * (2 * n + 1)"
    using racy.run_length [OF assms racy_inv_init] by (simp add: racy_variant_def racy_init_def)
  ultimately show ?thesis by (simp add: algebra_simps)
qed

lemma racy_stuck: "racy_joined T n s \<Longrightarrow> \<not> racy_inc T n s s'"
  by (auto simp: racy_joined_def elim!: racy_inc.cases)

text \<open>
  C16. The racy counter, for any number of threads and iterations (at least two each). Every schedule ends:
  a run has at most \<open>2 * n * T\<close> steps, and it can be continued exactly as long as some thread has not
  returned. The value found after the join lies between 2 and \<open>n * T\<close>, and the report shows it with the
  difference to \<open>n * T\<close> as the number of lost updates (for \<open>n * T\<close> in the range of \<^verbatim>\<open>int\<close>). Both bounds are
  attained by some schedule, so all but two of the updates can be lost.
\<close>

theorem racy_final_values:
  assumes "2 \<le> T" and "2 \<le> n"
  shows "(\<forall>s. (racy_inc T n)\<^sup>*\<^sup>* racy_init s \<longrightarrow> (\<exists>e. (racy_inc T n)\<^sup>*\<^sup>* s e \<and> racy_joined T n e))
    \<and> (\<forall>k s. (racy_inc T n ^^ k) racy_init s \<longrightarrow>
           k \<le> 2 * n * T \<and> ((\<nexists>e. racy_inc T n s e) \<longleftrightarrow> racy_joined T n s))
    \<and> (\<forall>s. (racy_inc T n)\<^sup>*\<^sup>* racy_init s \<and> racy_joined T n s \<longrightarrow>
           2 \<le> counter_racy s \<and> counter_racy s \<le> int n * int T
         \<and> (int n * int T \<le> INT_MAX \<longrightarrow> racy_report T n s =
              Printf ''  Expected: %d, Got: %ld (LOST %ld updates!)''
                [Num (int n * int T), Num (counter_racy s), Num (int n * int T - counter_racy s)]))
    \<and> (\<exists>s. (racy_inc T n)\<^sup>*\<^sup>* racy_init s \<and> racy_joined T n s \<and> counter_racy s = 2)
    \<and> (\<exists>s. (racy_inc T n)\<^sup>*\<^sup>* racy_init s \<and> racy_joined T n s \<and> counter_racy s = int n * int T)"
proof -
  have "2 \<le> counter_racy s \<and> counter_racy s \<le> int n * int T"
    if "(racy_inc T n)\<^sup>*\<^sup>* racy_init s" "racy_joined T n s" for s
  proof -
    have inv: "racy_inv T n s" by (rule racy.inv_reachable) fact
    have "r_total T s = T * n" using that(2) by (simp add: r_total_def racy_joined_def)
    with inv show ?thesis using assms that(2) by (auto simp: racy_inv_def racy_joined_def algebra_simps)
  qed
  moreover have "racy_report T n s = Printf ''  Expected: %d, Got: %ld (LOST %ld updates!)''
      [Num (int n * int T), Num (counter_racy s), Num (int n * int T - counter_racy s)]"
    if "int n * int T \<le> INT_MAX" for s
    using that unfolding racy_report_def by (subst to_int_id) (auto simp: INT_MIN_def intro: order_trans [of _ 0])
  moreover have "(\<nexists>e. racy_inc T n s e) \<longleftrightarrow> racy_joined T n s" if "(racy_inc T n ^^ k) racy_init s" for k s
    using racy.stuck_is_ended [OF relpowp_imp_rtranclp [OF that]] racy_stuck by blast
  ultimately show ?thesis
    using racy.reaches_end racy_min_run [OF assms] racy_max_run racy_run_length by (intro conjI allI impI) blast+
qed

theorem racy_final_values_witness:
  "\<exists>s. (racy_inc 4 1000000)\<^sup>*\<^sup>* racy_init s \<and> racy_joined 4 1000000 s
     \<and> racy_report 4 1000000 s =
         Printf ''  Expected: %d, Got: %ld (LOST %ld updates!)'' [Num 4000000, Num 2, Num 3999998]"
proof -
  have lab: "2 \<le> (4 :: nat)" "2 \<le> (1000000 :: nat)" by simp_all
  note final = racy_final_values [OF lab]
  obtain s where s: "(racy_inc 4 1000000)\<^sup>*\<^sup>* racy_init s" "racy_joined 4 1000000 s" "counter_racy s = 2"
    using final by blast
  have "int 1000000 * int 4 \<le> INT_MAX" by (simp add: INT_MAX_def)
  then have "racy_report 4 1000000 s = Printf ''  Expected: %d, Got: %ld (LOST %ld updates!)''
      [Num (int 1000000 * int 4), Num (counter_racy s), Num (int 1000000 * int 4 - counter_racy s)]"
    using final s(1,2) by blast
  then show ?thesis using s by (intro exI [of _ s]) simp
qed

text \<open>
  The atomic counter loses nothing: whatever the schedule, the run ends and the value after
  the join is \<open>n * T\<close>.
\<close>

theorem safe_final_value:
  assumes "(safe_inc T n)\<^sup>*\<^sup>* safe_init s"
  shows "(\<exists>e. (safe_inc T n)\<^sup>*\<^sup>* s e \<and> safe_joined T n e)
    \<and> (safe_joined T n s \<longrightarrow> counter_safe s = int n * int T)"
  using safe.inv_reachable [OF assms] safe.reaches_end [OF assms]
  by (auto simp: safe_inv_def safe_joined_def)

theorem safe_final_value_witness:
  "\<exists>e. (safe_inc 4 1000000)\<^sup>*\<^sup>* safe_init e \<and> safe_joined 4 1000000 e \<and> counter_safe e = 4000000"
proof -
  obtain e where e: "(safe_inc 4 1000000)\<^sup>*\<^sup>* safe_init e" "safe_joined 4 1000000 e"
    using safe_final_value [of 4 1000000 safe_init] by auto
  then show ?thesis using safe_final_value [OF e(1)] by auto
qed

text \<open>
  Lab 01: in every interleaving of the three threads all of them finish, and the main thread
  then reads 45 in the global and 130 in its own stack variable, as the expected output says.
\<close>

theorem shared_space_final:
  assumes "(thread_func v)\<^sup>*\<^sup>* (tf_init v) s"
  shows "(\<exists>e. (thread_func v)\<^sup>*\<^sup>* s e \<and> tf_joined e)
    \<and> (tf_joined s \<longrightarrow> last (demo_threads_shared_space s)
         = Printf ''Main after all threads: global=%d, heap_var=%d'' [Num 45, Num 130])"
  using tf.inv_reachable [OF assms] tf.reaches_end [OF assms]
  by (auto simp: tf_inv_def tf_joined_def demo_threads_shared_space_def sum3)

theorem shared_space_final_witness:
  "\<exists>e. (thread_func \<lparr>tf_pid = 7, main_tid = 7, tf_tid = (\<lambda>t. 8 + int t), global_addr = 16, heap_addr = 32\<rparr>)\<^sup>*\<^sup>*
         (tf_init \<lparr>tf_pid = 7, main_tid = 7, tf_tid = (\<lambda>t. 8 + int t), global_addr = 16, heap_addr = 32\<rparr>) e
     \<and> last (demo_threads_shared_space e)
       = Printf ''Main after all threads: global=%d, heap_var=%d'' [Num 45, Num 130]"
proof -
  let ?v = "\<lparr>tf_pid = 7, main_tid = 7, tf_tid = (\<lambda>t. 8 + int t), global_addr = 16, heap_addr = 32\<rparr>"
  obtain e where e: "(thread_func ?v)\<^sup>*\<^sup>* (tf_init ?v) e" "tf_joined e"
    using shared_space_final [of ?v "tf_init ?v"] by auto
  then show ?thesis using shared_space_final [OF e(1)] by auto
qed

end
