(* ===== verification/Locks.thy ===== *)
theory Locks
  imports Prelude
begin

text \<open>
  Workers that protect plain counters with locks: the mutex and spinlock workers of
  \<^verbatim>\<open>labs/lab_19_locking.c\<close> and the coarse and fine grained tables of
  \<^verbatim>\<open>labs/lab_20_finegrained_lock.c\<close>. All four worker functions have the same shape, a loop that
  locks, increments a memory cell (a load and a store) and unlocks; they differ in which lock
  and which cell iteration \<open>i\<close> uses. The interface \<open>cell_locks\<close> asks that one cell is always
  protected by one lock; under it no update is lost and no schedule deadlocks. The four workers
  are its interpretations.
\<close>

section \<open>The worker loop\<close>

datatype lw_pc = LwIdle | LwHeld | LwRead int | LwStored

record lw_state =
  cells :: "nat \<Rightarrow> int"
  owner :: "nat \<Rightarrow> tid option"
  lw_i :: "tid \<Rightarrow> nat"
  lw_pcs :: "tid \<Rightarrow> lw_pc"

definition lw_init :: lw_state where
  "lw_init = \<lparr>cells = (\<lambda>_. 0), owner = (\<lambda>_. None), lw_i = (\<lambda>_. 0), lw_pcs = (\<lambda>_. LwIdle)\<rparr>"

text \<open>
  \<open>T\<close> threads, \<open>n\<close> iterations. A thread that finds its lock taken stays where it is (blocked in
  \<^verbatim>\<open>pthread_mutex_lock\<close> or spinning in \<^verbatim>\<open>pthread_spin_lock\<close>).
\<close>

inductive lw_step ::
    "nat \<Rightarrow> nat \<Rightarrow> (nat \<Rightarrow> nat) \<Rightarrow> (nat \<Rightarrow> nat) \<Rightarrow> lw_state \<Rightarrow> lw_state \<Rightarrow> bool"
  for T n lock_of cell_of where
  acquire: "t < T \<Longrightarrow> lw_i s t < n \<Longrightarrow> lw_pcs s t = LwIdle \<Longrightarrow> owner s (lock_of (lw_i s t)) = None \<Longrightarrow>
     lw_step T n lock_of cell_of s
       (s\<lparr>owner := (owner s)(lock_of (lw_i s t) := Some t), lw_pcs := (lw_pcs s)(t := LwHeld)\<rparr>)"
| load: "t < T \<Longrightarrow> lw_pcs s t = LwHeld \<Longrightarrow>
     lw_step T n lock_of cell_of s
       (s\<lparr>lw_pcs := (lw_pcs s)(t := LwRead (cells s (cell_of (lw_i s t))))\<rparr>)"
| store: "t < T \<Longrightarrow> lw_pcs s t = LwRead v \<Longrightarrow>
     lw_step T n lock_of cell_of s
       (s\<lparr>cells := (cells s)(cell_of (lw_i s t) := v + 1), lw_pcs := (lw_pcs s)(t := LwStored)\<rparr>)"
| release: "t < T \<Longrightarrow> lw_pcs s t = LwStored \<Longrightarrow>
     lw_step T n lock_of cell_of s
       (s\<lparr>owner := (owner s)(lock_of (lw_i s t) := None), lw_i := (lw_i s)(t := Suc (lw_i s t)),
          lw_pcs := (lw_pcs s)(t := LwIdle)\<rparr>)"

definition lw_joined :: "nat \<Rightarrow> nat \<Rightarrow> lw_state \<Rightarrow> bool" where
  "lw_joined T n s \<longleftrightarrow> (\<forall>t<T. lw_i s t = n \<and> lw_pcs s t = LwIdle)"

section \<open>The workers of the labs\<close>

definition ITERS :: nat where [src_consts]: "ITERS = 2000000"

definition NBUCKETS :: nat where [src_consts]: "NBUCKETS = 64"

definition NITEMS :: nat where [src_consts]: "NITEMS = 1000000"

text \<open>Lab 19: one counter, one lock (\<open>counter_mtx\<close> or \<open>counter_spin\<close> is cell 0).\<close>

definition mutex_worker :: "lw_state \<Rightarrow> lw_state \<Rightarrow> bool" where
  "mutex_worker = lw_step 4 ITERS (\<lambda>i. 0) (\<lambda>i. 0)"

definition spin_worker :: "lw_state \<Rightarrow> lw_state \<Rightarrow> bool" where
  "spin_worker = lw_step 4 ITERS (\<lambda>i. 0) (\<lambda>i. 0)"

text \<open>Lab 20: \<^verbatim>\<open>global_table[i%NBUCKETS]++\<close> under one lock.\<close>

definition coarse_worker :: "lw_state \<Rightarrow> lw_state \<Rightarrow> bool" where
  "coarse_worker = lw_step 4 NITEMS (\<lambda>i. 0) (\<lambda>i. i mod NBUCKETS)"

text \<open>Lab 20: \<^verbatim>\<open>fine_table[b]++\<close> under \<^verbatim>\<open>bucket_locks[b]\<close>.\<close>

definition fine_worker :: "lw_state \<Rightarrow> lw_state \<Rightarrow> bool" where
  "fine_worker = lw_step 4 NITEMS (\<lambda>i. i mod NBUCKETS) (\<lambda>i. i mod NBUCKETS)"

text \<open>What the mains print after joining the threads; the elapsed times are parameters.\<close>

definition lab19_report :: "lw_state \<Rightarrow> double \<Rightarrow> lw_state \<Rightarrow> double \<Rightarrow> out list" where
  "lab19_report s_mtx t_mtx s_spin t_spin =
     [Printf ''========== %s =========='' [Str ''Phase 1: Mutex Performance''],
      Printf ''  Mutex: counter=%ld, time=%.1f ms, per_op=%.0f ns''
        [Num (cells s_mtx 0), Dbl (t_mtx / 1000000), Dbl (t_mtx / real (ITERS * 4))],
      Printf ''========== %s =========='' [Str ''Phase 2: Spinlock Performance''],
      Printf ''  Spinlock: counter=%ld, time=%.1f ms, per_op=%.0f ns''
        [Num (cells s_spin 0), Dbl (t_spin / 1000000), Dbl (t_spin / real (ITERS * 4))]]"

text \<open>
  The recap at the end of phase 3. These lines are constant, but they are recorded because each is
  the format of a \<^verbatim>\<open>printf\<close> call, and the last one holds a per cent sign that is not doubled.
\<close>

definition lab19_recap :: "out list" where
  "lab19_recap =
     [Printf ''  Recap:'' [],
      Printf ''    Mutex uncontended:  ~20-50 ns/op (futex fast path)'' [],
      Printf ''    Mutex contended:    ~1-5 us/op (futex_wait syscall + context switch)'' [],
      Printf ''    Spinlock uncontended: ~10-20 ns/op (CAS)'' [],
      Printf ''    Spinlock contended: burns 100% CPU for duration of wait'' []]"

definition lab20_report :: "double \<Rightarrow> double \<Rightarrow> nat \<Rightarrow> out list" where
  "lab20_report t_coarse t_fine mutex_size =
     [Printf ''========== %s =========='' [Str ''Phase 1: Coarse-grained (single lock)''],
      Printf ''  Time: %.1f ms'' [Dbl (t_coarse / 1000000)],
      Printf ''========== %s =========='' [Str ''Phase 2: Fine-grained (per-bucket locks)''],
      Printf ''  Time: %.1f ms'' [Dbl (t_fine / 1000000)],
      Printf ''========== %s =========='' [Str ''Phase 3: Hash Table with Per-Bucket Locks''],
      Printf ''    sizeof(pthread_mutex_t)=%zu bytes per lock'' [Num (int mutex_size)],
      Printf ''    %d locks * %zu bytes = %zu bytes (%zu cache lines)''
        [Num (int NBUCKETS), Num (int mutex_size), Num (int (NBUCKETS * mutex_size)),
         Num (int ((NBUCKETS * mutex_size + 63) div 64))],
      (if mutex_size < 64
       then Printf ''    WARNING: locks smaller than cache line -- false sharing possible!'' []
       else Printf ''    OK: each lock >= 1 cache line (no false sharing).'' [])]"

section \<open>Invariant\<close>

text \<open>The increments of cell \<open>c\<close> a thread has stored.\<close>

definition stored :: "(nat \<Rightarrow> nat) \<Rightarrow> nat \<Rightarrow> nat \<Rightarrow> lw_pc \<Rightarrow> nat" where
  "stored cell_of c i p = card {j. j < i \<and> cell_of j = c} + (if p = LwStored \<and> cell_of i = c then 1 else 0)"

definition lw_loops :: "nat \<Rightarrow> nat \<Rightarrow> lw_state \<Rightarrow> bool" where
  "lw_loops T n s \<longleftrightarrow> (\<forall>t<T. lw_i s t \<le> n \<and> (lw_pcs s t \<noteq> LwIdle \<longrightarrow> lw_i s t < n))"

text \<open>A lock is owned exactly by the thread between its acquisition and release of it.\<close>

definition lw_owned :: "nat \<Rightarrow> (nat \<Rightarrow> nat) \<Rightarrow> lw_state \<Rightarrow> bool" where
  "lw_owned T lock_of s \<longleftrightarrow>
     (\<forall>l t. owner s l = Some t \<longleftrightarrow> t < T \<and> lw_pcs s t \<noteq> LwIdle \<and> lock_of (lw_i s t) = l)"

text \<open>A value a thread has loaded is still the value of the cell.\<close>

definition lw_fresh :: "nat \<Rightarrow> (nat \<Rightarrow> nat) \<Rightarrow> lw_state \<Rightarrow> bool" where
  "lw_fresh T cell_of s \<longleftrightarrow> (\<forall>t<T. \<forall>v. lw_pcs s t = LwRead v \<longrightarrow> v = cells s (cell_of (lw_i s t)))"

definition lw_counts :: "nat \<Rightarrow> (nat \<Rightarrow> nat) \<Rightarrow> lw_state \<Rightarrow> bool" where
  "lw_counts T cell_of s \<longleftrightarrow> (\<forall>c. cells s c = int (\<Sum>t<T. stored cell_of c (lw_i s t) (lw_pcs s t)))"

definition lw_inv :: "nat \<Rightarrow> nat \<Rightarrow> (nat \<Rightarrow> nat) \<Rightarrow> (nat \<Rightarrow> nat) \<Rightarrow> lw_state \<Rightarrow> bool" where
  "lw_inv T n lock_of cell_of s \<longleftrightarrow>
     lw_loops T n s \<and> lw_owned T lock_of s \<and> lw_fresh T cell_of s \<and> lw_counts T cell_of s"

fun lw_rank :: "lw_pc \<Rightarrow> nat" where
  "lw_rank LwIdle = 4"
| "lw_rank LwHeld = 3"
| "lw_rank (LwRead v) = 2"
| "lw_rank LwStored = 1"

definition lw_variant :: "nat \<Rightarrow> nat \<Rightarrow> lw_state \<Rightarrow> nat" where
  "lw_variant T n s = (\<Sum>t<T. 4 * (n - lw_i s t) + lw_rank (lw_pcs s t))"

lemma card_less_Suc_cell:
  "card {j. j < Suc i \<and> f j = c} = card {j. j < i \<and> f j = c} + (if f i = c then 1 else (0::nat))"
proof -
  have "{j. j < Suc i \<and> f j = c} = {j. j < i \<and> f j = c} \<union> (if f i = c then {i} else {})"
    by (auto simp: less_Suc_eq)
  moreover have "finite {j. j < i \<and> f j = c}" by simp
  ultimately show ?thesis by (simp add: card_insert_if)
qed

lemma stored_release: "stored cell_of c (Suc i) LwIdle = stored cell_of c i LwStored"
  by (simp add: stored_def card_less_Suc_cell)

lemma stored_idle:
  "stored cell_of c i LwHeld = stored cell_of c i LwIdle"
  "stored cell_of c i (LwRead v) = stored cell_of c i LwIdle"
  by (simp_all add: stored_def)

lemma stored_store: "stored cell_of c i LwStored = stored cell_of c i LwIdle + (if cell_of i = c then 1 else 0)"
  by (simp add: stored_def)

locale cell_locks =
  fixes lock_of cell_of :: "nat \<Rightarrow> nat"
  assumes protects: "cell_of i = cell_of j \<Longrightarrow> lock_of i = lock_of j"
begin

lemma counts_frame:
  assumes "\<And>c t. t < T \<Longrightarrow> stored cell_of c (lw_i s' t) (lw_pcs s' t) = stored cell_of c (lw_i s t) (lw_pcs s t)"
    and "cells s' = cells s" and "lw_counts T cell_of s"
  shows "lw_counts T cell_of s'"
  unfolding lw_counts_def
proof
  fix c
  have "(\<Sum>t<T. stored cell_of c (lw_i s' t) (lw_pcs s' t)) = (\<Sum>t<T. stored cell_of c (lw_i s t) (lw_pcs s t))"
    by (intro sum_unchanged assms(1))
  then show "cells s' c = int (\<Sum>t<T. stored cell_of c (lw_i s' t) (lw_pcs s' t))"
    using assms(2,3) by (simp add: lw_counts_def)
qed

text \<open>Two threads past their acquisition hold different locks, so they work on different cells.\<close>

lemma exclusive:
  assumes "lw_owned T lock_of s" "t < T" "t' < T" "lw_pcs s t \<noteq> LwIdle" "lw_pcs s t' \<noteq> LwIdle"
    and "cell_of (lw_i s t) = cell_of (lw_i s t')"
  shows "t = t'"
proof -
  have "owner s (lock_of (lw_i s t)) = Some t" "owner s (lock_of (lw_i s t')) = Some t'"
    using assms(1-5) unfolding lw_owned_def by blast+
  then show ?thesis using protects [OF assms(6)] by (metis option.inject)
qed

lemma inv_acquire:
  assumes inv: "lw_inv T n lock_of cell_of s" and t: "t < T" "lw_i s t < n" "lw_pcs s t = LwIdle"
    "owner s (lock_of (lw_i s t)) = None"
  shows "lw_inv T n lock_of cell_of
    (s\<lparr>owner := (owner s)(lock_of (lw_i s t) := Some t), lw_pcs := (lw_pcs s)(t := LwHeld)\<rparr>)"
    (is "lw_inv _ _ _ _ ?s")
  unfolding lw_inv_def
proof (intro conjI)
  have own: "owner s l = Some u \<longleftrightarrow> u < T \<and> lw_pcs s u \<noteq> LwIdle \<and> lock_of (lw_i s u) = l" for l u
    using inv by (simp add: lw_inv_def lw_owned_def)
  show "lw_owned T lock_of ?s"
    unfolding lw_owned_def using own own [of "lock_of (lw_i s t)"] t by auto
  show "lw_counts T cell_of ?s"
    using t inv by (intro counts_frame [of T ?s s]) (auto simp: stored_idle lw_inv_def)
qed (use inv t in \<open>auto simp: lw_inv_def lw_loops_def lw_fresh_def\<close>)

lemma inv_load:
  assumes inv: "lw_inv T n lock_of cell_of s" and t: "t < T" "lw_pcs s t = LwHeld"
  shows "lw_inv T n lock_of cell_of (s\<lparr>lw_pcs := (lw_pcs s)(t := LwRead (cells s (cell_of (lw_i s t))))\<rparr>)"
    (is "lw_inv _ _ _ _ ?s")
  unfolding lw_inv_def
proof (intro conjI)
  show "lw_counts T cell_of ?s"
    using t inv by (intro counts_frame [of T ?s s]) (auto simp: stored_idle lw_inv_def)
qed (use inv t in \<open>auto simp: lw_inv_def lw_loops_def lw_owned_def lw_fresh_def\<close>)

lemma inv_store:
  assumes inv: "lw_inv T n lock_of cell_of s" and t: "t < T" "lw_pcs s t = LwRead v"
  shows "lw_inv T n lock_of cell_of
    (s\<lparr>cells := (cells s)(cell_of (lw_i s t) := v + 1), lw_pcs := (lw_pcs s)(t := LwStored)\<rparr>)"
    (is "lw_inv _ _ _ _ ?s")
  unfolding lw_inv_def
proof (intro conjI)
  let ?st = "\<lambda>s c t. stored cell_of c (lw_i s t) (lw_pcs s t)"
  have v: "v = cells s (cell_of (lw_i s t))" using inv t by (simp add: lw_inv_def lw_fresh_def)
  have "cells ?s c = int (\<Sum>t<T. ?st ?s c t)" for c
  proof (cases "c = cell_of (lw_i s t)")
    case True
    have "(\<Sum>t<T. ?st ?s c t) = Suc (\<Sum>t<T. ?st s c t)"
      using t True by (intro sum_increment [of t]) (auto simp: stored_store stored_idle)
    then show ?thesis using inv True v by (simp add: lw_inv_def lw_counts_def)
  next
    case False
    then have "(\<Sum>t<T. ?st ?s c t) = (\<Sum>t<T. ?st s c t)"
      using t by (intro sum_unchanged) (auto simp: stored_store stored_idle)
    then show ?thesis using inv False by (simp add: lw_inv_def lw_counts_def)
  qed
  then show "lw_counts T cell_of ?s" by (simp add: lw_counts_def)
  have "lw_owned T lock_of s" using inv by (simp add: lw_inv_def)
  from exclusive [OF this t(1)] show "lw_fresh T cell_of ?s"
    using inv t by (fastforce simp: lw_fresh_def lw_inv_def)
qed (use inv t in \<open>auto simp: lw_inv_def lw_loops_def lw_owned_def\<close>)

lemma inv_release:
  assumes inv: "lw_inv T n lock_of cell_of s" and t: "t < T" "lw_pcs s t = LwStored"
  shows "lw_inv T n lock_of cell_of
    (s\<lparr>owner := (owner s)(lock_of (lw_i s t) := None), lw_i := (lw_i s)(t := Suc (lw_i s t)),
       lw_pcs := (lw_pcs s)(t := LwIdle)\<rparr>)"
    (is "lw_inv _ _ _ _ ?s")
  unfolding lw_inv_def
proof (intro conjI)
  have own: "owner s l = Some u \<longleftrightarrow> u < T \<and> lw_pcs s u \<noteq> LwIdle \<and> lock_of (lw_i s u) = l" for l u
    using inv by (simp add: lw_inv_def lw_owned_def)
  have "owner s (lock_of (lw_i s t)) = Some t" using own t by simp
  then show "lw_owned T lock_of ?s"
    using own unfolding lw_owned_def by (auto, metis option.inject)
  show "lw_counts T cell_of ?s"
    using t inv by (intro counts_frame [of T ?s s]) (auto simp: stored_release lw_inv_def)
qed (use inv t in \<open>auto simp: lw_inv_def lw_loops_def lw_fresh_def Suc_le_eq\<close>)

lemma inv_step:
  assumes "lw_inv T n lock_of cell_of s" "lw_step T n lock_of cell_of s s'"
  shows "lw_inv T n lock_of cell_of s'"
  using assms(2,1) by cases (auto intro: inv_acquire inv_load inv_store inv_release)

lemma variant_step:
  assumes "lw_inv T n lock_of cell_of s" "lw_step T n lock_of cell_of s s'"
  shows "lw_variant T n s' < lw_variant T n s"
  using assms(2)
proof cases
  case (release t)
  then have "lw_i s t < n" using assms(1) by (auto simp: lw_inv_def lw_loops_def)
  with release show ?thesis unfolding lw_variant_def by (intro sum_decrease [of t]) auto
qed (auto simp: lw_variant_def intro!: sum_decrease)

text \<open>If a thread waits, the holder of its lock can move; if none waits, any thread can.\<close>

lemma progress:
  assumes inv: "lw_inv T n lock_of cell_of s" and "\<not> lw_joined T n s"
  shows "\<exists>s'. lw_step T n lock_of cell_of s s'"
proof -
  have busy: "\<exists>s'. lw_step T n lock_of cell_of s s'" if "t < T" "lw_pcs s t \<noteq> LwIdle" for t
    using that by (cases "lw_pcs s t") (blast intro: lw_step.intros)+
  obtain t where t: "t < T" "lw_i s t \<noteq> n \<or> lw_pcs s t \<noteq> LwIdle"
    using assms(2) by (auto simp: lw_joined_def)
  show ?thesis
  proof (cases "lw_pcs s t = LwIdle")
    case True
    then have i: "lw_i s t < n" using inv t by (auto simp: lw_inv_def lw_loops_def le_neq_implies_less)
    show ?thesis
    proof (cases "owner s (lock_of (lw_i s t))")
      case None
      then show ?thesis using t True i by (blast intro: lw_step.acquire)
    next
      case (Some u)
      then have "u < T" "lw_pcs s u \<noteq> LwIdle" using inv by (auto simp: lw_inv_def lw_owned_def)
      then show ?thesis by (rule busy)
    qed
  qed (use t busy in blast)
qed

end

sublocale cell_locks \<subseteq> lw: ending_system lw_init "lw_step T n lock_of cell_of"
  "lw_inv T n lock_of cell_of" "lw_joined T n" "lw_variant T n" for T n
proof
  show "lw_inv T n lock_of cell_of lw_init"
    by (simp add: lw_inv_def lw_loops_def lw_owned_def lw_fresh_def lw_counts_def lw_init_def stored_def)
qed (fact inv_step progress variant_step)+

context cell_locks
begin

text \<open>After the join every cell holds the number of iterations that address it.\<close>

lemma final_cells:
  assumes "(lw_step T n lock_of cell_of)\<^sup>*\<^sup>* lw_init s" "lw_joined T n s"
  shows "cells s c = int T * int (card {j. j < n \<and> cell_of j = c})"
proof -
  have "lw_inv T n lock_of cell_of s" by (rule lw.inv_reachable) fact
  then have "cells s c = int (\<Sum>t<T. stored cell_of c (lw_i s t) (lw_pcs s t))"
    by (simp add: lw_inv_def lw_counts_def)
  also have "(\<Sum>t<T. stored cell_of c (lw_i s t) (lw_pcs s t)) = T * card {j. j < n \<and> cell_of j = c}"
    using assms(2) by (intro sum_const_eq) (auto simp: lw_joined_def stored_def)
  finally show ?thesis by simp
qed

end

interpretation one_lock: cell_locks "\<lambda>i. 0" "\<lambda>i. 0"
  by unfold_locales simp

interpretation coarse: cell_locks "\<lambda>i. 0" "\<lambda>i. i mod NBUCKETS"
  by unfold_locales simp

interpretation fine: cell_locks "\<lambda>i. i mod NBUCKETS" "\<lambda>i. i mod NBUCKETS"
  by unfold_locales simp

section \<open>Properties\<close>

lemma card_mod_class:
  assumes "b < m"
  shows "card {j. j < m * q \<and> j mod m = b} = q"
proof -
  have "{j. j < m * q \<and> j mod m = b} = (\<lambda>k. m * k + b) ` {..<q}"
  proof (intro equalityI subsetI)
    fix j assume j: "j \<in> {j. j < m * q \<and> j mod m = b}"
    then have "j = m * (j div m) + b" by (metis (mono_tags) mem_Collect_eq mult_div_mod_eq)
    moreover have "j div m < q" using j by (simp add: less_mult_imp_div_less mult.commute)
    ultimately show "j \<in> (\<lambda>k. m * k + b) ` {..<q}" by blast
  next
    fix j assume "j \<in> (\<lambda>k. m * k + b) ` {..<q}"
    then obtain k where k: "k < q" "j = m * k + b" by auto
    have "m * k + b < m * Suc k" using assms by simp
    also have "\<dots> \<le> m * q" using k by (intro mult_left_mono) auto
    finally show "j \<in> {j. j < m * q \<and> j mod m = b}" using k assms by simp
  qed
  moreover have "inj_on (\<lambda>k. m * k + b) {..<q}" using assms by (auto intro!: inj_onI)
  ultimately show ?thesis by (simp add: card_image)
qed

text \<open>A run of the workers with one lock and one counter.\<close>

lemma one_lock_run:
  assumes "(lw_step 4 ITERS (\<lambda>i. 0) (\<lambda>i. 0) ^^ k) lw_init s"
  shows "k \<le> 32000016"
    and "\<exists>e. (lw_step 4 ITERS (\<lambda>i. 0) (\<lambda>i. 0))\<^sup>*\<^sup>* s e \<and> lw_joined 4 ITERS e"
    and "(\<nexists>e. lw_step 4 ITERS (\<lambda>i. 0) (\<lambda>i. 0) s e) \<longrightarrow> lw_joined 4 ITERS s"
    and "\<forall>t<4. \<forall>u<4. lw_pcs s t \<noteq> LwIdle \<and> lw_pcs s u \<noteq> LwIdle \<longrightarrow> t = u"
    and "lw_joined 4 ITERS s \<longrightarrow> cells s 0 = 8000000"
proof -
  have run: "(lw_step 4 ITERS (\<lambda>i. 0) (\<lambda>i. 0))\<^sup>*\<^sup>* lw_init s" by (rule relpowp_imp_rtranclp [OF assms])
  show "k \<le> 32000016"
    using one_lock.lw.run_length [OF assms one_lock.lw.inv_start] by (simp add: lw_variant_def lw_init_def ITERS_def)
  show "\<exists>e. (lw_step 4 ITERS (\<lambda>i. 0) (\<lambda>i. 0))\<^sup>*\<^sup>* s e \<and> lw_joined 4 ITERS e" by (rule one_lock.lw.reaches_end [OF run])
  show "(\<nexists>e. lw_step 4 ITERS (\<lambda>i. 0) (\<lambda>i. 0) s e) \<longrightarrow> lw_joined 4 ITERS s"
    using one_lock.lw.stuck_is_ended [OF run] by blast
  have "lw_owned 4 (\<lambda>i. 0) s" using one_lock.lw.inv_reachable [OF run] by (simp add: lw_inv_def)
  then show "\<forall>t<4. \<forall>u<4. lw_pcs s t \<noteq> LwIdle \<and> lw_pcs s u \<noteq> LwIdle \<longrightarrow> t = u"
    using one_lock.exclusive by blast
  show "lw_joined 4 ITERS s \<longrightarrow> cells s 0 = 8000000"
    using one_lock.final_cells [OF run] by (simp add: ITERS_def)
qed

text \<open>
  C15. The locks of lab 19 lose no update: for the mutex workers and the spinlock workers alike, whatever
  the schedule of the four threads, a run has at most \<open>32000016\<close> steps, only a joined run is stuck, and
  two threads are never both inside the critical section; and when both phases are joined, the report
  prints exactly \<open>4 * ITERS\<close>, which is 8000000, for both counters.
\<close>

theorem mutex_counter_exact:
  assumes m: "(mutex_worker ^^ j) lw_init s" and p: "(spin_worker ^^ k) lw_init s'"
  shows "j \<le> 32000016 \<and> k \<le> 32000016
    \<and> (\<exists>e. mutex_worker\<^sup>*\<^sup>* s e \<and> lw_joined 4 ITERS e) \<and> (\<exists>e. spin_worker\<^sup>*\<^sup>* s' e \<and> lw_joined 4 ITERS e)
    \<and> ((\<nexists>e. mutex_worker s e) \<longrightarrow> lw_joined 4 ITERS s) \<and> ((\<nexists>e. spin_worker s' e) \<longrightarrow> lw_joined 4 ITERS s')
    \<and> (\<forall>t<4. \<forall>u<4. lw_pcs s t \<noteq> LwIdle \<and> lw_pcs s u \<noteq> LwIdle \<longrightarrow> t = u)
    \<and> (\<forall>t<4. \<forall>u<4. lw_pcs s' t \<noteq> LwIdle \<and> lw_pcs s' u \<noteq> LwIdle \<longrightarrow> t = u)
    \<and> (lw_joined 4 ITERS s \<and> lw_joined 4 ITERS s' \<longrightarrow>
         cells s 0 = 8000000 \<and> lab19_report s t_mtx s' t_spin =
           [Printf ''========== %s =========='' [Str ''Phase 1: Mutex Performance''],
            Printf ''  Mutex: counter=%ld, time=%.1f ms, per_op=%.0f ns''
              [Num 8000000, Dbl (t_mtx / 1000000), Dbl (t_mtx / 8000000)],
            Printf ''========== %s =========='' [Str ''Phase 2: Spinlock Performance''],
            Printf ''  Spinlock: counter=%ld, time=%.1f ms, per_op=%.0f ns''
              [Num 8000000, Dbl (t_spin / 1000000), Dbl (t_spin / 8000000)]])"
  using one_lock_run [OF m [unfolded mutex_worker_def]] one_lock_run [OF p [unfolded spin_worker_def]]
  unfolding mutex_worker_def spin_worker_def by (simp add: lab19_report_def ITERS_def)

theorem mutex_counter_exact_witness:
  "\<exists>e. mutex_worker\<^sup>*\<^sup>* lw_init e \<and> lw_joined 4 ITERS e \<and>
     Printf ''  Mutex: counter=%ld, time=%.1f ms, per_op=%.0f ns'' [Num 8000000, Dbl 8, Dbl 1]
       \<in> set (lab19_report e 8000000 e 8000000)"
proof -
  have start: "(mutex_worker ^^ 0) lw_init lw_init" "(spin_worker ^^ 0) lw_init lw_init" by simp_all
  obtain e where e: "mutex_worker\<^sup>*\<^sup>* lw_init e" "lw_joined 4 ITERS e"
    using mutex_counter_exact [OF start] by blast
  then obtain j where j: "(mutex_worker ^^ j) lw_init e" by (blast dest: rtranclp_imp_relpowp)
  then have "(spin_worker ^^ j) lw_init e" by (simp add: mutex_worker_def spin_worker_def)
  then show ?thesis
    using mutex_counter_exact [OF j, of j e 8000000 8000000] e by (intro exI [of _ e]) simp
qed

text \<open>
  C24. Fine grained locking computes what coarse grained locking computes: every schedule of the
  four fine grained workers ends, and after the join each of the 64 buckets holds 62500, which
  is also what any finished run of the coarse grained workers leaves in it.
\<close>

theorem fine_equals_coarse:
  assumes f: "fine_worker\<^sup>*\<^sup>* lw_init s" and c: "coarse_worker\<^sup>*\<^sup>* lw_init s'"
  shows "(\<exists>e. fine_worker\<^sup>*\<^sup>* s e \<and> lw_joined 4 NITEMS e)
    \<and> (\<exists>e. coarse_worker\<^sup>*\<^sup>* s' e \<and> lw_joined 4 NITEMS e)
    \<and> (lw_joined 4 NITEMS s \<and> lw_joined 4 NITEMS s' \<longrightarrow>
         (\<forall>b<NBUCKETS. cells s b = 62500 \<and> cells s' b = cells s b))"
proof -
  have "card {j. j < NITEMS \<and> j mod NBUCKETS = b} = 15625" if "b < NBUCKETS" for b
    using card_mod_class [OF that, of 15625] by (simp add: NITEMS_def NBUCKETS_def)
  then have "\<forall>b<NBUCKETS. cells s b = 62500 \<and> cells s' b = cells s b"
    if "lw_joined 4 NITEMS s" "lw_joined 4 NITEMS s'"
    using fine.final_cells [OF f [unfolded fine_worker_def] that(1)]
      coarse.final_cells [OF c [unfolded coarse_worker_def] that(2)] by simp
  then show ?thesis
    using fine.lw.reaches_end [OF f [unfolded fine_worker_def]]
      coarse.lw.reaches_end [OF c [unfolded coarse_worker_def]]
    unfolding fine_worker_def coarse_worker_def by blast
qed

theorem fine_equals_coarse_witness:
  "\<exists>e e'. fine_worker\<^sup>*\<^sup>* lw_init e \<and> coarse_worker\<^sup>*\<^sup>* lw_init e' \<and> cells e 63 = 62500
     \<and> cells e' 63 = cells e 63"
proof -
  obtain e e' where e: "fine_worker\<^sup>*\<^sup>* lw_init e" "coarse_worker\<^sup>*\<^sup>* lw_init e'"
      "lw_joined 4 NITEMS e" "lw_joined 4 NITEMS e'"
    using fine_equals_coarse [of lw_init lw_init] by blast
  moreover have "cells e 63 = 62500" "cells e' 63 = cells e 63"
    using fine_equals_coarse [OF e(1,2)] e(3,4) by (simp_all add: NBUCKETS_def)
  ultimately show ?thesis by blast
qed

end
