(* ===== verification/LockVariations.thy ===== *)
theory LockVariations
  imports Prelude
begin

text \<open>
  The lock variations of \<^verbatim>\<open>labs/lab_21_lock_variations.c\<close>: readers and writers under a read-write
  lock, \<^verbatim>\<open>trylock\<close>, a recursive mutex, and the sequence lock with its retry loop. The lock
  operations follow POSIX: a read lock is granted while no writer holds the lock, a write lock
  while nobody does; a blocked thread stays where it is.
\<close>

section \<open>Read-write lock\<close>

definition RW_ITERS :: nat where [src_consts]: "RW_ITERS = 500000"

datatype rd_pc = RdIdle | RdHeld | RdDone

datatype wr_pc = WrIdle | WrHeld | WrRead int | WrStored

record rw_state =
  shared_data :: int
  rw_readers :: nat
  rw_writer :: "tid option"
  rd_i :: "tid \<Rightarrow> nat"
  rd_sum :: "tid \<Rightarrow> int"
  rd_pcs :: "tid \<Rightarrow> rd_pc"
  wr_i :: "tid \<Rightarrow> nat"
  wr_pcs :: "tid \<Rightarrow> wr_pc"

definition rw_init :: rw_state where
  "rw_init = \<lparr>shared_data = 0, rw_readers = 0, rw_writer = None, rd_i = (\<lambda>_. 0), rd_sum = (\<lambda>_. 0),
     rd_pcs = (\<lambda>_. RdIdle), wr_i = (\<lambda>_. 0), wr_pcs = (\<lambda>_. WrIdle)\<rparr>"

text \<open>\<^verbatim>\<open>reader\<close>: \<open>R\<close> threads, \<open>n\<close> iterations of lock, \<^verbatim>\<open>s += shared_data\<close>, unlock.\<close>

inductive reader :: "nat \<Rightarrow> nat \<Rightarrow> rw_state \<Rightarrow> rw_state \<Rightarrow> bool" for R n where
  rdlock: "t < R \<Longrightarrow> rd_i s t < n \<Longrightarrow> rd_pcs s t = RdIdle \<Longrightarrow> rw_writer s = None \<Longrightarrow>
     reader R n s (s\<lparr>rw_readers := Suc (rw_readers s), rd_pcs := (rd_pcs s)(t := RdHeld)\<rparr>)"
| rdsum: "t < R \<Longrightarrow> rd_pcs s t = RdHeld \<Longrightarrow>
     reader R n s (s\<lparr>rd_sum := (rd_sum s)(t := rd_sum s t + shared_data s), rd_pcs := (rd_pcs s)(t := RdDone)\<rparr>)"
| rdunlock: "t < R \<Longrightarrow> rd_pcs s t = RdDone \<Longrightarrow>
     reader R n s (s\<lparr>rw_readers := rw_readers s - 1, rd_i := (rd_i s)(t := Suc (rd_i s t)),
                     rd_pcs := (rd_pcs s)(t := RdIdle)\<rparr>)"

text \<open>\<^verbatim>\<open>writer\<close>: \<open>W\<close> threads, \<open>m\<close> iterations of lock, \<^verbatim>\<open>shared_data++\<close>, unlock.\<close>

inductive writer :: "nat \<Rightarrow> nat \<Rightarrow> rw_state \<Rightarrow> rw_state \<Rightarrow> bool" for W m where
  wrlock: "t < W \<Longrightarrow> wr_i s t < m \<Longrightarrow> wr_pcs s t = WrIdle \<Longrightarrow> rw_writer s = None \<Longrightarrow> rw_readers s = 0 \<Longrightarrow>
     writer W m s (s\<lparr>rw_writer := Some t, wr_pcs := (wr_pcs s)(t := WrHeld)\<rparr>)"
| wrload: "t < W \<Longrightarrow> wr_pcs s t = WrHeld \<Longrightarrow>
     writer W m s (s\<lparr>wr_pcs := (wr_pcs s)(t := WrRead (shared_data s))\<rparr>)"
| wrstore: "t < W \<Longrightarrow> wr_pcs s t = WrRead v \<Longrightarrow>
     writer W m s (s\<lparr>shared_data := v + 1, wr_pcs := (wr_pcs s)(t := WrStored)\<rparr>)"
| wrunlock: "t < W \<Longrightarrow> wr_pcs s t = WrStored \<Longrightarrow>
     writer W m s (s\<lparr>rw_writer := None, wr_i := (wr_i s)(t := Suc (wr_i s t)),
                     wr_pcs := (wr_pcs s)(t := WrIdle)\<rparr>)"

text \<open>\<^verbatim>\<open>main\<close> starts four readers and two writers and joins them all.\<close>

definition rw_step :: "nat \<Rightarrow> nat \<Rightarrow> nat \<Rightarrow> nat \<Rightarrow> rw_state \<Rightarrow> rw_state \<Rightarrow> bool" where
  "rw_step R n W m s s' \<longleftrightarrow> reader R n s s' \<or> writer W m s s'"

definition rw_joined :: "nat \<Rightarrow> nat \<Rightarrow> nat \<Rightarrow> nat \<Rightarrow> rw_state \<Rightarrow> bool" where
  "rw_joined R n W m s \<longleftrightarrow> (\<forall>t<R. rd_i s t = n \<and> rd_pcs s t = RdIdle) \<and> (\<forall>t<W. wr_i s t = m \<and> wr_pcs s t = WrIdle)"

definition rw_phase :: "rw_state \<Rightarrow> rw_state \<Rightarrow> bool" where
  "rw_phase = rw_step 4 RW_ITERS 2 (RW_ITERS div 10)"

definition rw_report :: "double \<Rightarrow> rw_state \<Rightarrow> out" where
  "rw_report elapsed s =
     Printf ''  RWLock time: %.1f ms, shared_data=%ld'' [Dbl (elapsed / 1000000), Num (shared_data s)]"

section \<open>Trylock and recursive mutex\<close>

text \<open>
  A mutex of one thread: its kind and how often the thread holds it. Locking a normal mutex it
  already holds blocks forever (\<open>None\<close>); \<^verbatim>\<open>trylock\<close> then returns \<^verbatim>\<open>EBUSY\<close>.
\<close>

record mutex =
  m_recursive :: bool
  m_count :: nat

definition EBUSY :: int where "EBUSY = 16"

definition mutex_lock :: "mutex \<Rightarrow> mutex option" where
  "mutex_lock m = (if m_count m = 0 \<or> m_recursive m then Some (m\<lparr>m_count := Suc (m_count m)\<rparr>) else None)"

definition mutex_trylock :: "mutex \<Rightarrow> int \<times> mutex" where
  "mutex_trylock m =
     (if m_count m = 0 \<or> m_recursive m then (0, m\<lparr>m_count := Suc (m_count m)\<rparr>) else (EBUSY, m))"

definition mutex_unlock :: "mutex \<Rightarrow> mutex" where
  "mutex_unlock m = m\<lparr>m_count := m_count m - 1\<rparr>"

text \<open>Phase 2: output and the mutex at the end; \<open>None\<close> if the phase blocks.\<close>

definition trylock_phase :: "(out list \<times> mutex) option" where
  "trylock_phase =
     (case mutex_lock \<lparr>m_recursive = False, m_count = 0\<rparr> of
        None \<Rightarrow> None
      | Some m1 \<Rightarrow>
          (case mutex_trylock m1 of (r2, m2) \<Rightarrow>
             (let m3 = mutex_unlock m2 in
              case mutex_trylock m3 of (r3, m4) \<Rightarrow>
                Some ([Printf ''  trylock while held: %s (returns EBUSY=%d)''
                         [Str (if r2 \<noteq> 0 then ''FAILED'' else ''OK''), Num r2],
                       Printf ''  trylock while free: %s'' [Str (if r3 \<noteq> 0 then ''FAILED'' else ''OK'')]],
                      if r3 = 0 then mutex_unlock m4 else m4))))"

text \<open>Phase 3: lock twice, unlock twice.\<close>

definition recursive_phase :: "mutex option" where
  "recursive_phase =
     (case mutex_lock \<lparr>m_recursive = True, m_count = 0\<rparr> of
        None \<Rightarrow> None
      | Some m1 \<Rightarrow>
          (case mutex_lock m1 of
             None \<Rightarrow> None
           | Some m2 \<Rightarrow> Some (mutex_unlock (mutex_unlock m2))))"

section \<open>Sequence lock\<close>

record seq_mem =
  sq_seq :: u32
  timestamp_sec :: int
  timestamp_nsec :: int

text \<open>Memory after the first \<open>j\<close> of the writer's four stores.\<close>

definition seq_init :: seq_mem where
  "seq_init = \<lparr>sq_seq = 0, timestamp_sec = 1700000000, timestamp_nsec = 123456789\<rparr>"

fun seq_writer :: "nat \<Rightarrow> seq_mem" where
  "seq_writer 0 = seq_init"
| "seq_writer (Suc 0) = (let m = seq_init in m\<lparr>sq_seq := sq_seq m + 1\<rparr>)"
| "seq_writer (Suc (Suc 0)) = (seq_writer 1)\<lparr>timestamp_sec := 1700000001\<rparr>"
| "seq_writer (Suc (Suc (Suc 0))) = (seq_writer 2)\<lparr>timestamp_nsec := 987654321\<rparr>"
| "seq_writer (Suc (Suc (Suc (Suc j)))) = (let m = seq_writer 3 in m\<lparr>sq_seq := sq_seq m + 1\<rparr>)"

text \<open>
  The reader's \<^verbatim>\<open>do { ... } while (s1 != s2)\<close>. \<open>mem k\<close> is what the reader's \<open>k\<close>-th load of the
  loop sees; \<open>s2\<close>, \<open>ts_sec\<close> and \<open>ts_nsec\<close> are the locals, uninitialised before the first round.
  In a \<^verbatim>\<open>do-while\<close> loop \<^verbatim>\<open>continue\<close> jumps to the condition. \<open>fuel\<close> bounds the rounds.
\<close>

fun seq_read :: "nat \<Rightarrow> (nat \<Rightarrow> seq_mem) \<Rightarrow> nat \<Rightarrow> u32 \<Rightarrow> int \<Rightarrow> int \<Rightarrow> int \<Rightarrow> (int \<times> int \<times> int) option" where
  "seq_read 0 mem k s2 ts_sec ts_nsec retries = None"
| "seq_read (Suc fuel) mem k s2 ts_sec ts_nsec retries =
     (let s1 = sq_seq (mem k) in
      if odd s1 then
        (if s1 \<noteq> s2 then seq_read fuel mem (k + 1) s2 ts_sec ts_nsec (retries + 1)
         else Some (ts_sec, ts_nsec, retries + 1))
      else
        let ts_sec = timestamp_sec (mem (k + 1));
            ts_nsec = timestamp_nsec (mem (k + 2));
            s2 = sq_seq (mem (k + 3))
        in if s1 \<noteq> s2 then seq_read fuel mem (k + 4) s2 ts_sec ts_nsec retries
           else Some (ts_sec, ts_nsec, retries))"

definition seqlock_phase :: "u32 \<Rightarrow> int \<Rightarrow> int \<Rightarrow> out option" where
  "seqlock_phase s2 ts_sec ts_nsec =
     map_option (\<lambda>(sec, nsec, retries). Printf ''  Read: ts=%ld.%ld (retries=%d)'' [Num sec, Num nsec, Num retries])
       (seq_read 1 (\<lambda>_. seq_writer 4) 0 s2 ts_sec ts_nsec 0)"

text \<open>
  \<^verbatim>\<open>main\<close>: the read-write lock phase ended in state \<open>s\<close>; \<open>s2\<close>, \<open>ts_sec\<close> and \<open>ts_nsec\<close> are the
  uninitialised locals of the last phase. \<open>None\<close> is a run that blocks.
\<close>

definition lab21_main :: "double \<Rightarrow> rw_state \<Rightarrow> u32 \<Rightarrow> int \<Rightarrow> int \<Rightarrow> out list option" where
  "lab21_main elapsed s s2 ts_sec ts_nsec =
     (case trylock_phase of None \<Rightarrow> None | Some (os, _) \<Rightarrow>
      case recursive_phase of None \<Rightarrow> None | Some _ \<Rightarrow>
      case seqlock_phase s2 ts_sec ts_nsec of None \<Rightarrow> None | Some r \<Rightarrow>
        Some (rw_report elapsed s # os
              @ [Printf ''  Recursive mutex: locked twice without deadlock.'' [], r]))"

section \<open>The read-write lock: invariant\<close>

definition rw_loops :: "nat \<Rightarrow> nat \<Rightarrow> nat \<Rightarrow> nat \<Rightarrow> rw_state \<Rightarrow> bool" where
  "rw_loops R n W m s \<longleftrightarrow>
     (\<forall>t<R. rd_i s t \<le> n \<and> (rd_pcs s t \<noteq> RdIdle \<longrightarrow> rd_i s t < n))
   \<and> (\<forall>t<W. wr_i s t \<le> m \<and> (wr_pcs s t \<noteq> WrIdle \<longrightarrow> wr_i s t < m))"

definition readers_in :: "nat \<Rightarrow> rw_state \<Rightarrow> nat" where
  "readers_in R s = (\<Sum>t<R. if rd_pcs s t = RdIdle then 0 else 1)"

definition writes_done :: "nat \<Rightarrow> rw_state \<Rightarrow> nat" where
  "writes_done W s = (\<Sum>t<W. wr_i s t + (if wr_pcs s t = WrStored then 1 else 0))"

definition rw_held :: "nat \<Rightarrow> nat \<Rightarrow> rw_state \<Rightarrow> bool" where
  "rw_held R W s \<longleftrightarrow>
     rw_readers s = readers_in R s
   \<and> (\<forall>t. rw_writer s = Some t \<longleftrightarrow> t < W \<and> wr_pcs s t \<noteq> WrIdle)
   \<and> (rw_writer s = None \<or> rw_readers s = 0)"

definition rw_data :: "nat \<Rightarrow> rw_state \<Rightarrow> bool" where
  "rw_data W s \<longleftrightarrow>
     shared_data s = int (writes_done W s)
   \<and> (\<forall>t<W. \<forall>v. wr_pcs s t = WrRead v \<longrightarrow> v = shared_data s)"

definition rw_inv :: "nat \<Rightarrow> nat \<Rightarrow> nat \<Rightarrow> nat \<Rightarrow> rw_state \<Rightarrow> bool" where
  "rw_inv R n W m s \<longleftrightarrow> rw_loops R n W m s \<and> rw_held R W s \<and> rw_data W s"

fun rd_rank :: "rd_pc \<Rightarrow> nat" where
  "rd_rank RdIdle = 3"
| "rd_rank RdHeld = 2"
| "rd_rank RdDone = 1"

fun wr_rank :: "wr_pc \<Rightarrow> nat" where
  "wr_rank WrIdle = 4"
| "wr_rank WrHeld = 3"
| "wr_rank (WrRead v) = 2"
| "wr_rank WrStored = 1"

definition rw_variant :: "nat \<Rightarrow> nat \<Rightarrow> nat \<Rightarrow> nat \<Rightarrow> rw_state \<Rightarrow> nat" where
  "rw_variant R n W m s = (\<Sum>t<R. 3 * (n - rd_i s t) + rd_rank (rd_pcs s t))
     + (\<Sum>t<W. 4 * (m - wr_i s t) + wr_rank (wr_pcs s t))"

lemma reader_inv:
  assumes inv: "rw_inv R n W m s" and "reader R n s s'"
  shows "rw_inv R n W m s'"
  using assms(2)
proof cases
  case (rdlock t)
  have "readers_in R s' = Suc (readers_in R s)"
    unfolding readers_in_def using rdlock by (intro sum_increment [of t]) auto
  moreover have "writes_done W s' = writes_done W s" using rdlock by (simp add: writes_done_def)
  ultimately show ?thesis
    using inv rdlock by (auto simp: rw_inv_def rw_held_def rw_loops_def rw_data_def)
next
  case (rdsum t)
  have "readers_in R s' = readers_in R s"
    unfolding readers_in_def using rdsum by (intro sum_unchanged) auto
  moreover have "writes_done W s' = writes_done W s" using rdsum by (simp add: writes_done_def)
  ultimately show ?thesis
    using inv rdsum by (auto simp: rw_inv_def rw_held_def rw_loops_def rw_data_def)
next
  case (rdunlock t)
  have "readers_in R s = Suc (readers_in R s')"
    unfolding readers_in_def using rdunlock by (intro sum_increment [of t]) auto
  moreover have "writes_done W s' = writes_done W s" using rdunlock by (simp add: writes_done_def)
  ultimately show ?thesis
    using inv rdunlock by (auto simp: rw_inv_def rw_held_def rw_loops_def rw_data_def Suc_le_eq)
qed

lemma writer_alone:
  assumes "rw_inv R n W m s" "t < W" "u < W" "wr_pcs s t \<noteq> WrIdle" "wr_pcs s u \<noteq> WrIdle"
  shows "u = t"
proof -
  have "rw_writer s = Some t" "rw_writer s = Some u"
    using assms by (simp_all add: rw_inv_def rw_held_def)
  then show ?thesis by simp
qed

lemma writer_inv:
  assumes inv: "rw_inv R n W m s" and "writer W m s s'"
  shows "rw_inv R n W m s'"
proof -
  have rd: "readers_in R s' = readers_in R s"
    using assms(2) by cases (simp_all add: readers_in_def)
  show ?thesis
    using assms(2)
  proof cases
    case (wrlock t)
    have "writes_done W s' = writes_done W s"
      unfolding writes_done_def using wrlock by (intro sum_unchanged) auto
    then show ?thesis
      using inv wrlock rd by (auto simp: rw_inv_def rw_held_def rw_loops_def rw_data_def)
  next
    case (wrload t)
    have "writes_done W s' = writes_done W s"
      unfolding writes_done_def using wrload by (intro sum_unchanged) auto
    then show ?thesis
      using inv wrload rd by (auto simp: rw_inv_def rw_held_def rw_loops_def rw_data_def)
  next
    case (wrstore t v)
    have "writes_done W s' = Suc (writes_done W s)"
      unfolding writes_done_def using wrstore by (intro sum_increment [of t]) auto
    moreover have "wr_pcs s u \<noteq> WrRead w" if "u < W" "u \<noteq> t" for u w
      using writer_alone [OF inv wrstore(2) that(1)] wrstore(3) that(2) by auto
    moreover have "v = shared_data s" "shared_data s = int (writes_done W s)"
      using inv wrstore by (auto simp: rw_inv_def rw_data_def)
    ultimately have "rw_data W s'" using wrstore(1) unfolding rw_data_def by auto
    then show ?thesis
      using inv wrstore rd by (auto simp: rw_inv_def rw_held_def rw_loops_def)
  next
    case (wrunlock t)
    have "writes_done W s' = writes_done W s"
      unfolding writes_done_def using wrunlock by (intro sum_unchanged) auto
    moreover have "wr_pcs s u = WrIdle" if "u < W" "u \<noteq> t" for u
      using writer_alone [OF inv wrunlock(2) that(1)] wrunlock(3) that(2) by auto
    ultimately show ?thesis
      using inv wrunlock rd by (auto simp: rw_inv_def rw_held_def rw_loops_def rw_data_def Suc_le_eq)
  qed
qed

lemma rw_variant_step:
  assumes inv: "rw_inv R n W m s" and "rw_step R n W m s s'"
  shows "rw_variant R n W m s' < rw_variant R n W m s"
  using assms(2) unfolding rw_step_def
proof
  assume r: "reader R n s s'"
  have "(\<Sum>t<R. 3 * (n - rd_i s' t) + rd_rank (rd_pcs s' t)) < (\<Sum>t<R. 3 * (n - rd_i s t) + rd_rank (rd_pcs s t))"
    using r
  proof cases
    case (rdunlock t)
    then have "rd_i s t < n" using inv by (auto simp: rw_inv_def rw_loops_def)
    with rdunlock show ?thesis by (intro sum_decrease [of t]) auto
  qed (auto intro!: sum_decrease)
  moreover have "wr_i s' = wr_i s" "wr_pcs s' = wr_pcs s" using r by (cases, simp_all)+
  ultimately show ?thesis by (simp add: rw_variant_def)
next
  assume w: "writer W m s s'"
  have "(\<Sum>t<W. 4 * (m - wr_i s' t) + wr_rank (wr_pcs s' t)) < (\<Sum>t<W. 4 * (m - wr_i s t) + wr_rank (wr_pcs s t))"
    using w
  proof cases
    case (wrunlock t)
    then have "wr_i s t < m" using inv by (auto simp: rw_inv_def rw_loops_def)
    with wrunlock show ?thesis by (intro sum_decrease [of t]) auto
  qed (auto intro!: sum_decrease)
  moreover have "rd_i s' = rd_i s" "rd_pcs s' = rd_pcs s" using w by (cases, simp_all)+
  ultimately show ?thesis by (simp add: rw_variant_def)
qed

lemma rw_progress:
  assumes inv: "rw_inv R n W m s" and "\<not> rw_joined R n W m s"
  shows "\<exists>s'. rw_step R n W m s s'"
proof -
  have rbusy: "\<exists>s'. rw_step R n W m s s'" if "t < R" "rd_pcs s t \<noteq> RdIdle" for t
    using that unfolding rw_step_def by (cases "rd_pcs s t") (blast intro: reader.intros)+
  have wbusy: "\<exists>s'. rw_step R n W m s s'" if "t < W" "wr_pcs s t \<noteq> WrIdle" for t
    using that unfolding rw_step_def by (cases "wr_pcs s t") (blast intro: writer.intros)+
  show ?thesis
  proof (cases "(\<exists>t<R. rd_pcs s t \<noteq> RdIdle) \<or> (\<exists>t<W. wr_pcs s t \<noteq> WrIdle)")
    case False
    then have "readers_in R s = 0" by (simp add: readers_in_def)
    moreover have "rw_writer s = None"
      using False inv by (cases "rw_writer s") (auto simp: rw_inv_def rw_held_def)
    ultimately have free: "rw_writer s = None" "rw_readers s = 0"
      using inv by (simp_all add: rw_inv_def rw_held_def)
    have "(\<exists>t<R. rd_i s t < n) \<or> (\<exists>t<W. wr_i s t < m)"
      using assms False by (auto simp: rw_joined_def rw_inv_def rw_loops_def le_neq_implies_less)
    then show ?thesis
      unfolding rw_step_def using False free by (blast intro: reader.rdlock writer.wrlock)
  qed (use rbusy wbusy in blast)
qed

interpretation rw: ending_system rw_init "rw_step R n W m" "rw_inv R n W m" "rw_joined R n W m"
  "rw_variant R n W m" for R n W m
proof
  show "rw_inv R n W m rw_init"
    by (simp add: rw_inv_def rw_loops_def rw_held_def rw_data_def rw_init_def readers_in_def writes_done_def)
  show "rw_inv R n W m t" if "rw_inv R n W m s" "rw_step R n W m s t" for s t
    using that reader_inv writer_inv unfolding rw_step_def by blast
qed (fact rw_progress rw_variant_step)+

section \<open>The sequence lock: rounds\<close>

lemma seq_writer_done: "seq_writer (Suc (Suc (Suc (Suc j)))) = \<lparr>sq_seq = 2, timestamp_sec = 1700000001, timestamp_nsec = 987654321\<rparr>"
  by (simp add: eval_nat_numeral seq_init_def)

text \<open>The writer's memory, by the number of its stores.\<close>

lemma seq_writer_cases:
  obtains "j = 0" "seq_writer j = seq_init"
  | "1 \<le> j" "j < 4" "sq_seq (seq_writer j) = 1"
  | "4 \<le> j" "seq_writer j = \<lparr>sq_seq = 2, timestamp_sec = 1700000001, timestamp_nsec = 987654321\<rparr>"
proof (cases j rule: seq_writer.cases)
  case (5 i)
  then show ?thesis using that(3) seq_writer_done by simp
qed (use that in \<open>simp_all add: eval_nat_numeral seq_init_def\<close>)

lemma seq_read_retries:
  "seq_read f mem k s2 a b r = Some (sec, nsec, r') \<Longrightarrow> r \<le> r'"
proof (induction f arbitrary: k s2 a b r)
  case (Suc f)
  have "r \<le> r'" if "seq_read f mem k' s2' a' b' (r + 1) = Some (sec, nsec, r')" for k' s2' a' b'
    using Suc.IH [OF that] by simp
  then show ?case
    using Suc.prems Suc.IH [of "k + 4" _ _ _ r] by (auto simp: Let_def split: if_splits)
qed simp

text \<open>A round whose two loads of an even sequence number agree lies before or after the writer.\<close>

lemma seq_round:
  assumes "h0 \<le> h1" "h1 \<le> h2" "h2 \<le> h3"
    and "even (sq_seq (seq_writer h0))" "sq_seq (seq_writer h0) = sq_seq (seq_writer h3)"
  shows "(timestamp_sec (seq_writer h1), timestamp_nsec (seq_writer h2))
    \<in> {(1700000000, 123456789), (1700000001, 987654321)}"
proof (cases h0 rule: seq_writer_cases)
  case 1
  then have "h3 = 0" using assms(5) by (cases h3 rule: seq_writer_cases) (simp_all add: seq_init_def)
  then show ?thesis using assms(2,3) by (simp add: seq_init_def)
next
  case 2
  then show ?thesis using assms(4) by simp
next
  case 3
  then show ?thesis
    using assms(1,2) by (cases h1 rule: seq_writer_cases; cases h2 rule: seq_writer_cases) simp_all
qed

lemma seq_read_consistent:
  assumes "mono hist" "seq_read f (\<lambda>k. seq_writer (hist k)) k s2 a b 0 = Some (sec, nsec, 0)"
  shows "(sec, nsec) \<in> {(1700000000, 123456789), (1700000001, 987654321)}"
  using assms(2)
proof (induction f arbitrary: k s2 a b)
  case (Suc f)
  let ?w = "\<lambda>k. seq_writer (hist k)"
  have le: "hist k \<le> hist (k + 1)" "hist (k + 1) \<le> hist (k + 2)" "hist (k + 2) \<le> hist (k + 3)"
    using assms(1) by (auto intro: monoD)
  have no: "seq_read f ?w (k + 1) s2 a b 1 \<noteq> Some (sec, nsec, 0)"
    using seq_read_retries [of f ?w "k + 1" s2 a b 1 sec nsec 0] by auto
  consider "odd (sq_seq (?w k))" | "even (sq_seq (?w k))" "sq_seq (?w k) = sq_seq (?w (k + 3))"
    | "even (sq_seq (?w k))" "sq_seq (?w k) \<noteq> sq_seq (?w (k + 3))" by blast
  then show ?case
  proof cases
    case 1
    then show ?thesis using Suc.prems no by (simp add: Let_def split: if_splits)
  next
    case 2
    then have "sec = timestamp_sec (?w (k + 1))" "nsec = timestamp_nsec (?w (k + 2))"
      using Suc.prems by (simp_all add: Let_def)
    then show ?thesis using seq_round [OF le 2] by simp
  next
    case 3
    then show ?thesis using Suc.prems by (intro Suc.IH [of "k + 4"]) (simp add: Let_def)
  qed
qed simp

lemma seq_read_returns:
  assumes "\<And>k. K \<le> k \<Longrightarrow> 4 \<le> hist k" and "0 < f" "K < k + f"
  shows "seq_read f (\<lambda>k. seq_writer (hist k)) k s2 a b r \<noteq> None"
  using assms(2,3)
proof (induction f arbitrary: k s2 a b r)
  case (Suc f)
  show ?case
  proof (cases "K \<le> k")
    case True
    then have "4 \<le> hist k" "4 \<le> hist (k + 3)" using assms(1) [of k] assms(1) [of "k + 3"] by simp_all
    then have "sq_seq (seq_writer (hist k)) = 2" "sq_seq (seq_writer (hist (k + 3))) = 2"
      by (cases "hist k" rule: seq_writer_cases; simp; cases "hist (k + 3)" rule: seq_writer_cases; simp)+
    then show ?thesis by (simp add: Let_def)
  next
    case False
    then show ?thesis
      using Suc.IH [of "k + 1"] Suc.IH [of "k + 4"] Suc.prems by (auto simp: Let_def)
  qed
qed simp

section \<open>Properties\<close>

text \<open>
  C22. The read-write lock: in every schedule of the four readers and two writers, no reader is
  ever inside its section together with a writer, two writers are never inside together,
  nobody deadlocks, and after the join \<open>shared_data\<close> is exactly the number of writes, 100000.
\<close>

theorem rwlock_exact:
  assumes "rw_phase\<^sup>*\<^sup>* rw_init s"
  shows "(\<exists>e. rw_phase\<^sup>*\<^sup>* s e \<and> rw_joined 4 RW_ITERS 2 (RW_ITERS div 10) e)
    \<and> (\<forall>w<2. wr_pcs s w \<noteq> WrIdle \<longrightarrow>
         (\<forall>t<4. rd_pcs s t = RdIdle) \<and> (\<forall>u<2. wr_pcs s u \<noteq> WrIdle \<longrightarrow> u = w))
    \<and> (rw_joined 4 RW_ITERS 2 (RW_ITERS div 10) s \<longrightarrow> shared_data s = 100000)"
proof -
  note run = assms [unfolded rw_phase_def]
  note inv = rw.inv_reachable [OF run]
  have "(\<forall>t<4. rd_pcs s t = RdIdle) \<and> (\<forall>u<2. wr_pcs s u \<noteq> WrIdle \<longrightarrow> u = w)"
    if w: "w < 2" "wr_pcs s w \<noteq> WrIdle" for w
  proof -
    have "rw_writer s = Some w" using inv w by (simp add: rw_inv_def rw_held_def)
    then have "readers_in 4 s = 0" using inv by (simp add: rw_inv_def rw_held_def)
    then have "\<forall>t<4. rd_pcs s t = RdIdle"
      by (auto simp: readers_in_def sum_eq_0_iff split: if_splits)
    then show ?thesis using writer_alone [OF inv] w by blast
  qed
  moreover have "shared_data s = 100000" if "rw_joined 4 RW_ITERS 2 (RW_ITERS div 10) s"
    using inv that by (simp add: rw_inv_def rw_data_def writes_done_def rw_joined_def RW_ITERS_def)
  ultimately show ?thesis
    using rw.reaches_end [OF run] unfolding rw_phase_def by blast
qed

theorem rwlock_exact_witness:
  "\<exists>e. rw_phase\<^sup>*\<^sup>* rw_init e \<and> shared_data e = 100000"
proof -
  obtain e where e: "rw_phase\<^sup>*\<^sup>* rw_init e" "rw_joined 4 RW_ITERS 2 (RW_ITERS div 10) e"
    using rwlock_exact [of rw_init] by blast
  then show ?thesis using rwlock_exact [OF e(1)] by blast
qed

text \<open>
  C23. The sequence lock reader next to the writer: on every history of loads that follows the writer's
  stores in order, the loop ends at the latest one round after the load from which the writer is done,
  and if it has not counted a retry it returns the old pair or the new pair, never a mixture.
\<close>

theorem seqlock_consistent:
  assumes "mono hist" and "\<And>k. K \<le> k \<Longrightarrow> 4 \<le> hist k"
  shows "\<exists>sec nsec retries. seq_read (K + 1) (\<lambda>k. seq_writer (hist k)) 0 s2 ts_sec ts_nsec 0 = Some (sec, nsec, retries)
    \<and> (retries = 0 \<longrightarrow> (sec, nsec) \<in> {(1700000000, 123456789), (1700000001, 987654321)})"
proof -
  let ?run = "seq_read (K + 1) (\<lambda>k. seq_writer (hist k)) 0 s2 ts_sec ts_nsec 0"
  have "?run \<noteq> None" by (rule seq_read_returns [OF assms(2)]) auto
  then obtain sec nsec r where run: "?run = Some (sec, nsec, r)" by (cases ?run) auto
  moreover have "(sec, nsec) \<in> {(1700000000, 123456789), (1700000001, 987654321)}" if "r = 0"
    using seq_read_consistent [OF assms(1)] run that by blast
  ultimately show ?thesis by blast
qed

theorem seqlock_consistent_witness:
  "mono (\<lambda>k. k :: nat) \<and> seq_read 5 seq_writer 0 7 0 0 0 = Some (1700000001, 987654321, 0)"
proof -
  have "seq_writer 5 = seq_writer 4" "seq_writer 6 = seq_writer 4" "seq_writer 7 = seq_writer 4"
    by (simp_all add: eval_nat_numeral)
  then have "\<exists>sec nsec. seq_read 5 seq_writer 0 7 0 0 0 = Some (sec, nsec, 0) \<and> sec \<noteq> 1700000000"
    by (simp add: eval_nat_numeral seq_init_def Let_def)
  then show ?thesis using seqlock_consistent [of "\<lambda>k. k" 4 7 0 0] by (auto simp: monoI)
qed

text \<open>
  C33. The sequence lock reader can return a torn timestamp: there is a history of its loads that
  follows the writer's four stores in order for which the loop exits after a retry with the
  old seconds and the new nanoseconds. The \<^verbatim>\<open>continue\<close> of the odd case jumps to the loop
  condition and compares the odd \<open>s1\<close> with the equally odd \<open>s2\<close> of the round before. Run
  after the writer, as \<^verbatim>\<open>main\<close> does, the reader returns the new pair at once, whatever its
  uninitialised locals hold.
\<close>

theorem seqlock_torn_read:
  "(\<exists>hist. mono hist \<and> hist 0 = 0 \<and> (\<forall>k. hist k \<le> 4) \<and>
      seq_read 2 (\<lambda>k. seq_writer (hist k)) 0 s2 ts_sec ts_nsec 0 = Some (1700000000, 987654321, 1))
   \<and> seqlock_phase s2 ts_sec ts_nsec
       = Some (Printf ''  Read: ts=%ld.%ld (retries=%d)'' [Num 1700000001, Num 987654321, Num 0])"
proof
  define hist :: "nat \<Rightarrow> nat" where "hist k = (if k < 2 then 0 else 3)" for k
  have w3: "seq_writer 3 = \<lparr>sq_seq = 1, timestamp_sec = 1700000001, timestamp_nsec = 987654321\<rparr>"
    and w4: "seq_writer 4 = \<lparr>sq_seq = 2, timestamp_sec = 1700000001, timestamp_nsec = 987654321\<rparr>"
    by (simp_all add: eval_nat_numeral seq_init_def)
  have "seq_read 2 (\<lambda>k. seq_writer (hist k)) 0 s2 ts_sec ts_nsec 0 = Some (1700000000, 987654321, 1)"
    by (simp add: numeral_2_eq_2 hist_def w3 seq_init_def Let_def)
  moreover have "mono hist" "hist 0 = 0" "\<forall>k. hist k \<le> 4" by (auto simp: hist_def mono_def)
  ultimately show "\<exists>hist. mono hist \<and> hist 0 = 0 \<and> (\<forall>k. hist k \<le> 4) \<and>
      seq_read 2 (\<lambda>k. seq_writer (hist k)) 0 s2 ts_sec ts_nsec 0 = Some (1700000000, 987654321, 1)"
    by blast
  show "seqlock_phase s2 ts_sec ts_nsec
       = Some (Printf ''  Read: ts=%ld.%ld (retries=%d)'' [Num 1700000001, Num 987654321, Num 0])"
    by (simp add: seqlock_phase_def w4 Let_def)
qed

text \<open>
  Trylock and the recursive mutex: the trylock phase never blocks, reports FAILED with
  \<^verbatim>\<open>EBUSY\<close> while the mutex is held and OK when it is free, and leaves it unlocked; the
  recursive phase locks twice without blocking and is balanced, where the same sequence on a
  normal mutex blocks forever.
\<close>

theorem trylock_and_recursive:
  "trylock_phase = Some ([Printf ''  trylock while held: %s (returns EBUSY=%d)'' [Str ''FAILED'', Num 16],
      Printf ''  trylock while free: %s'' [Str ''OK'']], \<lparr>m_recursive = False, m_count = 0\<rparr>)
   \<and> recursive_phase = Some \<lparr>m_recursive = True, m_count = 0\<rparr>
   \<and> Option.bind (mutex_lock \<lparr>m_recursive = False, m_count = 0\<rparr>) mutex_lock = None"
  by (simp add: trylock_phase_def recursive_phase_def mutex_lock_def mutex_trylock_def mutex_unlock_def
      EBUSY_def Let_def)

end
