(* ===== verification/RingBuffer.thy ===== *)
theory RingBuffer
  imports Prelude
begin

text \<open>
  The circular array that \<^verbatim>\<open>labs/lab_22_condvar.c\<close> and \<^verbatim>\<open>labs/lab_23_mpmc_semaphore.c\<close> share
  between producers and consumers: \<^verbatim>\<open>buffer[in]=val; in=(in+1)%BUFSIZE\<close> and
  \<^verbatim>\<open>val=buffer[out]; out=(out+1)%BUFSIZE\<close>. The contract of such a buffer is the locale
  \<open>bounded_queue\<close>: the items it holds form a list, put appends and get takes the head. Its client
  lemmas follow the history of a queue: what went in is what came out followed by what is still
  inside. The array satisfies the contract for every capacity.
\<close>

section \<open>The circular array\<close>

record 'v ring =
  buffer :: "'v list"
  in_idx :: nat
  out_idx :: nat

definition ring_put :: "nat \<Rightarrow> 'v \<Rightarrow> 'v ring \<Rightarrow> 'v ring" where
  "ring_put n v r = r\<lparr>buffer := (buffer r)[in_idx r := v], in_idx := (in_idx r + 1) mod n\<rparr>"

definition ring_get :: "nat \<Rightarrow> 'v ring \<Rightarrow> 'v \<times> 'v ring" where
  "ring_get n r = (buffer r ! out_idx r, r\<lparr>out_idx := (out_idx r + 1) mod n\<rparr>)"

section \<open>Bounded queues\<close>

locale bounded_queue =
  fixes put :: "'v \<Rightarrow> 's \<Rightarrow> 's"
    and get :: "'s \<Rightarrow> 'v \<times> 's"
    and items :: "'s \<Rightarrow> 'v list"
    and ok :: "'s \<Rightarrow> bool"
    and cap :: nat
  assumes bounded: "ok s \<Longrightarrow> length (items s) \<le> cap"
    and put_ok: "ok s \<Longrightarrow> length (items s) < cap \<Longrightarrow> ok (put v s)"
    and put_items: "ok s \<Longrightarrow> length (items s) < cap \<Longrightarrow> items (put v s) = items s @ [v]"
    and get_ok: "ok s \<Longrightarrow> items s \<noteq> [] \<Longrightarrow> ok (snd (get s))"
    and get_items: "ok s \<Longrightarrow> items s \<noteq> [] \<Longrightarrow> items s = fst (get s) # items (snd (get s))"
begin

lemma put_history:
  assumes "ok s" "length (items s) < cap" "ins = outs @ items s"
  shows "ins @ [v] = outs @ items (put v s)"
  using assms by (simp add: put_items)

lemma get_history:
  assumes "ok s" "items s \<noteq> []" "ins = outs @ items s"
  shows "ins = (outs @ [fst (get s)]) @ items (snd (get s))"
  using assms(3) get_items [OF assms(1,2)] by simp

text \<open>The item a get returns is the oldest one put and not yet taken.\<close>

lemma get_next:
  assumes "ok s" "items s \<noteq> []" "ins = outs @ items s"
  shows "fst (get s) = ins ! length outs"
  using get_history [OF assms] by simp

end

section \<open>The array is a bounded queue\<close>

text \<open>The queue is the array together with the number of items in it.\<close>

definition ring_items :: "nat \<Rightarrow> 'v ring \<times> nat \<Rightarrow> 'v list" where
  "ring_items n q = map (\<lambda>k. buffer (fst q) ! ((out_idx (fst q) + k) mod n)) [0..<snd q]"

definition ring_ok :: "nat \<Rightarrow> 'v ring \<times> nat \<Rightarrow> bool" where
  "ring_ok n q \<longleftrightarrow> 0 < n \<and> length (buffer (fst q)) = n \<and> out_idx (fst q) < n
     \<and> in_idx (fst q) = (out_idx (fst q) + snd q) mod n \<and> snd q \<le> n"

definition counted_put :: "nat \<Rightarrow> 'v \<Rightarrow> 'v ring \<times> nat \<Rightarrow> 'v ring \<times> nat" where
  "counted_put n v q = (ring_put n v (fst q), Suc (snd q))"

definition counted_get :: "nat \<Rightarrow> 'v ring \<times> nat \<Rightarrow> 'v \<times> 'v ring \<times> nat" where
  "counted_get n q = (fst (ring_get n (fst q)), snd (ring_get n (fst q)), snd q - 1)"

lemma length_ring_items [simp]: "length (ring_items n q) = snd q"
  by (simp add: ring_items_def)

lemma ring_slot_distinct:
  assumes "k < c" "c < n"
  shows "(out + k) mod n \<noteq> (out + c) mod (n::nat)"
proof
  assume "(out + k) mod n = (out + c) mod n"
  then have "n dvd (out + c) - (out + k)" using assms by (metis mod_eq_dvd_iff_nat add_le_mono1 add.commute nat_less_le)
  then show False using assms by (auto dest: dvd_imp_le)
qed

lemma ring_put_items:
  assumes "ring_ok n q" "snd q < n"
  shows "ring_items n (counted_put n v q) = ring_items n q @ [v]"
proof -
  have "(buffer (fst q))[in_idx (fst q) := v] ! ((out_idx (fst q) + k) mod n)
      = buffer (fst q) ! ((out_idx (fst q) + k) mod n)" if "k < snd q" for k
    using assms ring_slot_distinct [of k "snd q" n "out_idx (fst q)"] that
    by (auto simp: ring_ok_def)
  then show ?thesis
    using assms by (auto simp: ring_items_def counted_put_def ring_put_def ring_ok_def)
qed

lemma ring_get_items:
  assumes "ring_ok n q" "0 < snd q"
  shows "ring_items n q = fst (counted_get n q) # ring_items n (snd (counted_get n q))"
proof -
  have "[0..<snd q] = 0 # map Suc [0..<snd q - 1]"
    using assms(2) by (metis Suc_pred' map_Suc_upt upt_conv_Cons)
  then show ?thesis
    using assms(1)
    by (simp add: ring_items_def counted_get_def ring_get_def ring_ok_def comp_def mod_simps)
qed

interpretation ring: bounded_queue "counted_put n" "counted_get n" "ring_items n" "ring_ok n" n for n
proof
  fix q :: "'v ring \<times> nat" and v
  show "length (ring_items n q) \<le> n" if "ring_ok n q" using that by (simp add: ring_ok_def)
  show "ring_ok n (counted_put n v q)" if "ring_ok n q" "length (ring_items n q) < n"
    using that by (auto simp: ring_ok_def counted_put_def ring_put_def mod_simps)
  show "ring_items n (counted_put n v q) = ring_items n q @ [v]"
    if "ring_ok n q" "length (ring_items n q) < n"
    using that ring_put_items by simp
  show "ring_ok n (snd (counted_get n q))" if ok: "ring_ok n q" and "ring_items n q \<noteq> []"
  proof -
    have "snd q \<noteq> 0" using that(2) by (auto simp: ring_items_def)
    then obtain c where "snd q = Suc c" by (cases "snd q") auto
    then show ?thesis using ok by (auto simp: ring_ok_def counted_get_def ring_get_def mod_simps)
  qed
  show "ring_items n q = fst (counted_get n q) # ring_items n (snd (counted_get n q))"
    if "ring_ok n q" "ring_items n q \<noteq> []"
  proof -
    have "0 < snd q" using that(2) by (cases "snd q") (auto simp: ring_items_def)
    then show ?thesis using that(1) by (rule ring_get_items [rotated])
  qed
qed

lemma ring_items_empty [simp]: "ring_items n q = [] \<longleftrightarrow> snd q = 0"
  by (simp flip: length_0_conv)

section \<open>The abstract queue\<close>

text \<open>
  What the two labs promise of their buffer, without array, indices, locks and threads: the items
  inside, the number of items put so far and the list of those taken. Items are put in the order
  0, 1, 2, and so on while there is room, and the oldest item is taken.
\<close>

type_synonym fifo = "int list \<times> nat \<times> int list"

inductive fifo_step :: "nat \<Rightarrow> fifo \<Rightarrow> fifo \<Rightarrow> bool" for cap where
  fifo_put: "length q < cap \<Longrightarrow> fifo_step cap (q, n, g) (q @ [int n], Suc n, g)"
| fifo_get: "fifo_step cap (v # q, n, g) (q, n, g @ [v])"

inductive_cases fifo_stepE: "fifo_step cap x y"

definition fifo_start :: fifo where "fifo_start = ([], 0, [])"

text \<open>The abstract queue delivers every item once and in order, and holds at most \<open>cap\<close> of them.\<close>

lemma fifo_delivers: "(fifo_step cap)\<^sup>*\<^sup>* fifo_start x \<Longrightarrow> (case x of (q, n, g) \<Rightarrow> g @ q = map int [0..<n] \<and> length q \<le> cap)"
  by (induction rule: rtranclp_induct) (auto simp: fifo_start_def elim!: fifo_stepE)

text \<open>The array's operations are those of the abstract queue.\<close>

lemma ring_put_fifo:
  assumes "ring_ok cap q" "snd q < cap" "counted_put cap (int n) q = q'"
  shows "fifo_step cap (ring_items cap q, n, g) (ring_items cap q', Suc n, g)"
  unfolding assms(3) [symmetric] ring_put_items [OF assms(1,2)] using assms(2) by (intro fifo_put) simp

lemma ring_get_fifo:
  assumes "ring_ok cap q" "0 < snd q" "counted_get cap q = (v, q')"
  shows "fifo_step cap (ring_items cap q, n, g) (ring_items cap q', n, g @ [v])"
  using ring_get_items [OF assms(1,2)] assms(3) by (simp add: fifo_get)

end
