(* ===== verification/CondVar.thy ===== *)
theory CondVar
  imports RingBuffer
begin

text \<open>
  The bounded buffer with condition variables of \<^verbatim>\<open>labs/lab_22_condvar.c\<close>: one producer of 20
  items, two consumers, a mutex, the conditions \<^verbatim>\<open>not_full\<close> and \<^verbatim>\<open>not_empty\<close> and the flag
  \<^verbatim>\<open>done\<close>. A step is one operation of one thread on the mutex or a condition, or the work it
  does between two of them while it holds the mutex. \<^verbatim>\<open>pthread_cond_wait\<close> releases the mutex and
  starts to wait in one step; a signal wakes one waiting thread, if there is one; a woken thread
  competes for the mutex and tests its condition again. POSIX also lets a waiting thread wake
  without a signal: those steps are the relation \<open>spurious\<close>.
\<close>

section \<open>State\<close>

definition CV_BUFSIZE :: nat where [src_consts]: "CV_BUFSIZE = 8"

definition CV_ITEMS :: nat where [src_consts]: "CV_ITEMS = 20"

datatype actor = Producer | Consumer nat

datatype p_pc =
    PLock nat | PTest nat | PWait nat | PWoken nat | PPut nat | PSignal nat | PUnlock nat
  | PDoneLock | PDoneSet | PDoneBroadcast | PDoneUnlock | PExit

datatype c_pc = CLock | CTest | CWait | CWoken | CGo | CSignal int | CUnlock int | CExit

record cv_state =
  cv_ring :: "int ring"
  cv_count :: nat
  done_flag :: bool
  cv_mtx :: "actor option"
  prod_pc :: p_pc
  cons_pc :: "nat \<Rightarrow> c_pc"
  cv_out :: "out list"

definition cv_init :: cv_state where
  "cv_init = \<lparr>cv_ring = \<lparr>buffer = replicate CV_BUFSIZE 0, in_idx = 0, out_idx = 0\<rparr>, cv_count = 0,
     done_flag = False, cv_mtx = None, prod_pc = PLock 0, cons_pc = (\<lambda>_. CLock), cv_out = []\<rparr>"

section \<open>The threads\<close>

definition produced_msg :: "nat \<Rightarrow> nat \<Rightarrow> out" where
  "produced_msg val c = Printf ''  [P] produced %d (count=%d)'' [Num (int val), Num (int c)]"

definition consumed_msg :: "int \<Rightarrow> nat \<Rightarrow> out" where
  "consumed_msg val c = Printf ''  [C] consumed %d (count=%d)'' [Num val, Num (int c)]"

text \<open>\<^verbatim>\<open>produce(i)\<close>; \<open>i\<close> is also the loop counter of \<^verbatim>\<open>producer\<close>.\<close>

inductive produce :: "cv_state \<Rightarrow> cv_state \<Rightarrow> bool" where
  p_lock: "prod_pc s = PLock i \<Longrightarrow> cv_mtx s = None \<Longrightarrow>
     produce s (s\<lparr>cv_mtx := Some Producer, prod_pc := PTest i\<rparr>)"
| p_full: "prod_pc s = PTest i \<Longrightarrow> cv_count s = CV_BUFSIZE \<Longrightarrow>
     produce s (s\<lparr>cv_mtx := None, prod_pc := PWait i\<rparr>)"
| p_room: "prod_pc s = PTest i \<Longrightarrow> cv_count s \<noteq> CV_BUFSIZE \<Longrightarrow> produce s (s\<lparr>prod_pc := PPut i\<rparr>)"
| p_relock: "prod_pc s = PWoken i \<Longrightarrow> cv_mtx s = None \<Longrightarrow>
     produce s (s\<lparr>cv_mtx := Some Producer, prod_pc := PTest i\<rparr>)"
| p_put: "prod_pc s = PPut i \<Longrightarrow>
     produce s (s\<lparr>cv_ring := ring_put CV_BUFSIZE (int i) (cv_ring s), cv_count := Suc (cv_count s),
                 cv_out := cv_out s @ [produced_msg i (Suc (cv_count s))], prod_pc := PSignal i\<rparr>)"
| p_signal: "prod_pc s = PSignal i \<Longrightarrow> c < 2 \<Longrightarrow> cons_pc s c = CWait \<Longrightarrow>
     produce s (s\<lparr>cons_pc := (cons_pc s)(c := CWoken), prod_pc := PUnlock i\<rparr>)"
| p_signal_nobody: "prod_pc s = PSignal i \<Longrightarrow> \<forall>c<2. cons_pc s c \<noteq> CWait \<Longrightarrow>
     produce s (s\<lparr>prod_pc := PUnlock i\<rparr>)"
| p_unlock: "prod_pc s = PUnlock i \<Longrightarrow>
     produce s (s\<lparr>cv_mtx := None, prod_pc := (if Suc i < CV_ITEMS then PLock (Suc i) else PDoneLock)\<rparr>)"

text \<open>The end of \<^verbatim>\<open>producer\<close>: set \<^verbatim>\<open>done\<close> and wake every consumer.\<close>

inductive producer :: "cv_state \<Rightarrow> cv_state \<Rightarrow> bool" where
  item: "produce s t \<Longrightarrow> producer s t"
| d_lock: "prod_pc s = PDoneLock \<Longrightarrow> cv_mtx s = None \<Longrightarrow>
     producer s (s\<lparr>cv_mtx := Some Producer, prod_pc := PDoneSet\<rparr>)"
| d_set: "prod_pc s = PDoneSet \<Longrightarrow> producer s (s\<lparr>done_flag := True, prod_pc := PDoneBroadcast\<rparr>)"
| d_broadcast: "prod_pc s = PDoneBroadcast \<Longrightarrow>
     producer s (s\<lparr>cons_pc := (\<lambda>c. if cons_pc s c = CWait then CWoken else cons_pc s c),
                  prod_pc := PDoneUnlock\<rparr>)"
| d_unlock: "prod_pc s = PDoneUnlock \<Longrightarrow> producer s (s\<lparr>cv_mtx := None, prod_pc := PExit\<rparr>)"

text \<open>\<^verbatim>\<open>consume()\<close> called in a loop by consumer \<open>c\<close>, until it returns a negative value.\<close>

inductive consumer :: "nat \<Rightarrow> cv_state \<Rightarrow> cv_state \<Rightarrow> bool" for c where
  c_lock: "cons_pc s c = CLock \<Longrightarrow> cv_mtx s = None \<Longrightarrow>
     consumer c s (s\<lparr>cv_mtx := Some (Consumer c), cons_pc := (cons_pc s)(c := CTest)\<rparr>)"
| c_empty: "cons_pc s c = CTest \<Longrightarrow> cv_count s = 0 \<and> \<not> done_flag s \<Longrightarrow>
     consumer c s (s\<lparr>cv_mtx := None, cons_pc := (cons_pc s)(c := CWait)\<rparr>)"
| c_go: "cons_pc s c = CTest \<Longrightarrow> \<not> (cv_count s = 0 \<and> \<not> done_flag s) \<Longrightarrow>
     consumer c s (s\<lparr>cons_pc := (cons_pc s)(c := CGo)\<rparr>)"
| c_relock: "cons_pc s c = CWoken \<Longrightarrow> cv_mtx s = None \<Longrightarrow>
     consumer c s (s\<lparr>cv_mtx := Some (Consumer c), cons_pc := (cons_pc s)(c := CTest)\<rparr>)"
| c_finished: "cons_pc s c = CGo \<Longrightarrow> cv_count s = 0 \<and> done_flag s \<Longrightarrow>
     consumer c s (s\<lparr>cons_pc := (cons_pc s)(c := CUnlock (- 1))\<rparr>)"
| c_get: "cons_pc s c = CGo \<Longrightarrow> \<not> (cv_count s = 0 \<and> done_flag s) \<Longrightarrow>
     ring_get CV_BUFSIZE (cv_ring s) = (val, r) \<Longrightarrow>
     consumer c s (s\<lparr>cv_ring := r, cv_count := cv_count s - 1,
                    cv_out := cv_out s @ [consumed_msg val (cv_count s - 1)],
                    cons_pc := (cons_pc s)(c := CSignal val)\<rparr>)"
| c_signal: "cons_pc s c = CSignal val \<Longrightarrow> prod_pc s = PWait i \<Longrightarrow>
     consumer c s (s\<lparr>prod_pc := PWoken i, cons_pc := (cons_pc s)(c := CUnlock val)\<rparr>)"
| c_signal_nobody: "cons_pc s c = CSignal val \<Longrightarrow> \<forall>i. prod_pc s \<noteq> PWait i \<Longrightarrow>
     consumer c s (s\<lparr>cons_pc := (cons_pc s)(c := CUnlock val)\<rparr>)"
| c_unlock: "cons_pc s c = CUnlock val \<Longrightarrow>
     consumer c s (s\<lparr>cv_mtx := None, cons_pc := (cons_pc s)(c := (if 0 \<le> val then CLock else CExit))\<rparr>)"

definition cv_step :: "cv_state \<Rightarrow> cv_state \<Rightarrow> bool" where
  "cv_step s t \<longleftrightarrow> producer s t \<or> consumer 0 s t \<or> consumer 1 s t"

inductive spurious :: "cv_state \<Rightarrow> cv_state \<Rightarrow> bool" where
  p_spurious: "prod_pc s = PWait i \<Longrightarrow> spurious s (s\<lparr>prod_pc := PWoken i\<rparr>)"
| c_spurious: "c < 2 \<Longrightarrow> cons_pc s c = CWait \<Longrightarrow> spurious s (s\<lparr>cons_pc := (cons_pc s)(c := CWoken)\<rparr>)"

definition cv_any :: "cv_state \<Rightarrow> cv_state \<Rightarrow> bool" where
  "cv_any s t \<longleftrightarrow> cv_step s t \<or> spurious s t"

definition cv_joined :: "cv_state \<Rightarrow> bool" where
  "cv_joined s \<longleftrightarrow> prod_pc s = PExit \<and> cons_pc s 0 = CExit \<and> cons_pc s 1 = CExit"

text \<open>\<^verbatim>\<open>main\<close>, whose threads have got as far as the state \<open>s\<close>.\<close>

definition lab22_main :: "cv_state \<Rightarrow> out list" where
  "lab22_main s =
     Printf ''  Buffer size: %d  Producer: 20 items  Consumer: 2 threads'' [Num (int CV_BUFSIZE)] # cv_out s"

section \<open>Invariant\<close>

text \<open>The values the run has printed as consumed, in order.\<close>

definition consumed_of :: "out \<Rightarrow> int list" where
  "consumed_of x = (case x of Printf f as \<Rightarrow>
      if f = ''  [C] consumed %d (count=%d)'' then (case as of Num v # _ \<Rightarrow> [v] | _ \<Rightarrow> []) else []
    | _ \<Rightarrow> [])"

definition consumed :: "out list \<Rightarrow> int list" where
  "consumed os = concat (map consumed_of os)"

lemma consumed_simps [simp]:
  "consumed [] = []" "consumed (os @ [consumed_msg v k]) = consumed os @ [v]"
  "consumed (os @ [produced_msg i k]) = consumed os"
  by (simp_all add: consumed_def consumed_of_def consumed_msg_def produced_msg_def)

fun puts :: "p_pc \<Rightarrow> nat" where
  "puts (PLock i) = i"
| "puts (PTest i) = i"
| "puts (PWait i) = i"
| "puts (PWoken i) = i"
| "puts (PPut i) = i"
| "puts (PSignal i) = Suc i"
| "puts (PUnlock i) = Suc i"
| "puts _ = CV_ITEMS"

fun p_holds :: "p_pc \<Rightarrow> bool" where
  "p_holds (PLock _) = False"
| "p_holds (PWait _) = False"
| "p_holds (PWoken _) = False"
| "p_holds PDoneLock = False"
| "p_holds PExit = False"
| "p_holds _ = True"

fun c_holds :: "c_pc \<Rightarrow> bool" where
  "c_holds CLock = False"
| "c_holds CWait = False"
| "c_holds CWoken = False"
| "c_holds CExit = False"
| "c_holds _ = True"

text \<open>A consumer that will look at the buffer again.\<close>

fun c_active :: "c_pc \<Rightarrow> bool" where
  "c_active CWait = False"
| "c_active CExit = False"
| "c_active (CUnlock v) = (0 \<le> v)"
| "c_active _ = True"

definition cv_mutex :: "cv_state \<Rightarrow> bool" where
  "cv_mutex s \<longleftrightarrow> (cv_mtx s = Some Producer \<longleftrightarrow> p_holds (prod_pc s))
     \<and> (\<forall>c. cv_mtx s = Some (Consumer c) \<longleftrightarrow> c_holds (cons_pc s c))"

definition cv_two :: "cv_state \<Rightarrow> bool" where
  "cv_two s \<longleftrightarrow> (\<forall>c. cv_mtx s = Some (Consumer c) \<longrightarrow> c < 2)"

definition cv_queue :: "cv_state \<Rightarrow> bool" where
  "cv_queue s \<longleftrightarrow> ring_ok CV_BUFSIZE (cv_ring s, cv_count s)
     \<and> map int [0..<puts (prod_pc s)] = consumed (cv_out s) @ ring_items CV_BUFSIZE (cv_ring s, cv_count s)"

text \<open>What a thread knows from its last test of the buffer.\<close>

fun c_knows :: "nat \<Rightarrow> bool \<Rightarrow> c_pc \<Rightarrow> bool" where
  "c_knows k d CGo = (k = 0 \<longrightarrow> d)"
| "c_knows k d (CSignal v) = (0 \<le> v)"
| "c_knows k d (CUnlock v) = (0 \<le> v \<or> k = 0 \<and> d)"
| "c_knows k d CExit = (k = 0 \<and> d)"
| "c_knows k d _ = True"

definition cv_prod :: "cv_state \<Rightarrow> bool" where
  "cv_prod s \<longleftrightarrow> cv_count s \<le> CV_BUFSIZE \<and> puts (prod_pc s) \<le> CV_ITEMS
     \<and> (\<forall>i. prod_pc s = PTest i \<or> prod_pc s = PLock i \<or> prod_pc s = PWait i \<or> prod_pc s = PWoken i
           \<or> prod_pc s = PPut i \<longrightarrow> i < CV_ITEMS)
     \<and> (\<forall>i. prod_pc s = PPut i \<longrightarrow> cv_count s < CV_BUFSIZE)
     \<and> (done_flag s \<longleftrightarrow> prod_pc s \<in> {PDoneBroadcast, PDoneUnlock, PExit})"

definition cv_knows :: "cv_state \<Rightarrow> bool" where
  "cv_knows s \<longleftrightarrow> (\<forall>c. c_knows (cv_count s) (done_flag s) (cons_pc s c))"

definition cv_tests :: "cv_state \<Rightarrow> bool" where
  "cv_tests s \<longleftrightarrow> cv_prod s \<and> cv_knows s"

text \<open>No wake-up is lost: whoever waits still has a reason to, or somebody is about to signal.\<close>

definition wait_full :: "cv_state \<Rightarrow> bool" where
  "wait_full s \<longleftrightarrow>
     (\<forall>i. prod_pc s = PWait i \<longrightarrow> cv_count s = CV_BUFSIZE \<or> (\<exists>c v. cons_pc s c = CSignal v))"

definition items_noticed :: "cv_state \<Rightarrow> bool" where
  "items_noticed s \<longleftrightarrow>
     (0 < cv_count s \<longrightarrow> (\<exists>i. prod_pc s = PSignal i) \<or> (\<exists>c<2. c_active (cons_pc s c)))"

definition wait_done :: "cv_state \<Rightarrow> bool" where
  "wait_done s \<longleftrightarrow> (\<forall>c. done_flag s \<and> cons_pc s c = CWait \<longrightarrow> prod_pc s = PDoneBroadcast)"

definition cv_inv :: "cv_state \<Rightarrow> bool" where
  "cv_inv s \<longleftrightarrow> cv_mutex s \<and> cv_two s \<and> cv_queue s \<and> cv_tests s \<and> wait_full s \<and> items_noticed s \<and> wait_done s"

lemma cv_inv_init: "cv_inv cv_init"
  by (simp add: cv_inv_def cv_mutex_def cv_two_def cv_queue_def cv_tests_def
      cv_prod_def cv_knows_def wait_full_def items_noticed_def wait_done_def cv_init_def
      consumed_def ring_ok_def ring_items_def src_consts)

subsection \<open>Every step keeps it\<close>

lemma less2: "c < (2::nat) \<Longrightarrow> (c = 0 \<Longrightarrow> P) \<Longrightarrow> (c = 1 \<Longrightarrow> P) \<Longrightarrow> P"
  by linarith

lemma mutex_producer: "producer s t \<Longrightarrow> cv_mutex s \<Longrightarrow> cv_mutex t"
  by (erule producer.cases; (erule produce.cases)?; (elim less2)?) (auto simp: cv_mutex_def)

lemma consumer_alone:
  assumes "cv_mutex s" "c_holds (cons_pc s c)"
  shows "cv_mtx s = Some (Consumer c)" and "\<not> p_holds (prod_pc s)"
    and "c_holds (cons_pc s c') \<longleftrightarrow> c' = c"
proof -
  show m: "cv_mtx s = Some (Consumer c)" using assms by (simp add: cv_mutex_def)
  show "\<not> p_holds (prod_pc s)" using assms(1) by (simp add: cv_mutex_def m)
  have "cv_mtx s = Some (Consumer c') \<longleftrightarrow> c_holds (cons_pc s c')"
    using assms(1) unfolding cv_mutex_def by blast
  then show "c_holds (cons_pc s c') \<longleftrightarrow> c' = c" by (auto simp: m)
qed

lemma mutex_consumer:
  assumes "consumer c s t" and m: "cv_mutex s"
  shows "cv_mutex t"
  using assms(1)
proof cases
  case c_empty
  then show ?thesis using consumer_alone [OF m, of c] by (simp add: cv_mutex_def)
next
  case c_unlock
  then show ?thesis using consumer_alone [OF m, of c] by (simp add: cv_mutex_def)
qed (use m in \<open>auto simp: cv_mutex_def\<close>)

text \<open>What a thread without the mutex knows stays true when another one works on the buffer.\<close>

lemma c_knows_frame: "c_knows k d pc \<Longrightarrow> \<not> c_holds pc \<Longrightarrow> \<not> (k = 0 \<and> d) \<Longrightarrow> c_knows k' d' pc"
  by (cases pc) auto

lemma tests_producer:
  assumes "producer s t" "cv_mutex s" "cv_tests s"
  shows "cv_tests t"
proof -
  have "cv_prod t"
    using assms by (elim producer.cases; (elim produce.cases)?) (auto simp: cv_tests_def cv_prod_def)
  moreover have "cv_knows t"
    using assms by (elim producer.cases; (elim produce.cases)?)
      (auto simp: cv_mutex_def cv_tests_def cv_knows_def cv_prod_def intro: c_knows_frame)
  ultimately show ?thesis by (simp add: cv_tests_def)
qed

text \<open>The item a consumer finds is the next of the sequence, so it is not negative.\<close>

lemma take_history:
  assumes "cv_queue s" "cv_count s \<noteq> 0" "ring_get CV_BUFSIZE (cv_ring s) = (val, r)"
  shows "0 \<le> val" and "ring_ok CV_BUFSIZE (r, cv_count s - 1)"
    and "map int [0..<puts (prod_pc s)] = (consumed (cv_out s) @ [val]) @ ring_items CV_BUFSIZE (r, cv_count s - 1)"
proof -
  have ok: "ring_ok CV_BUFSIZE (cv_ring s, cv_count s)"
    and h: "map int [0..<puts (prod_pc s)] = consumed (cv_out s) @ ring_items CV_BUFSIZE (cv_ring s, cv_count s)"
    and ne: "ring_items CV_BUFSIZE (cv_ring s, cv_count s) \<noteq> []"
    using assms(1,2) by (simp_all add: cv_queue_def)
  have g: "counted_get CV_BUFSIZE (cv_ring s, cv_count s) = (val, r, cv_count s - 1)"
    using assms(3) by (simp add: counted_get_def)
  show hist: "map int [0..<puts (prod_pc s)] = (consumed (cv_out s) @ [val]) @ ring_items CV_BUFSIZE (r, cv_count s - 1)"
    using ring.get_history [OF ok ne h] unfolding g by simp
  then have "val \<in> set (map int [0..<puts (prod_pc s)])" by simp
  then show "0 \<le> val" by auto
  show "ring_ok CV_BUFSIZE (r, cv_count s - 1)" using ring.get_ok [OF ok ne] unfolding g by simp
qed

lemma tests_knows: "cv_tests s \<Longrightarrow> c_knows (cv_count s) (done_flag s) (cons_pc s c)"
  by (simp add: cv_tests_def cv_knows_def)

lemma knows_consumer:
  assumes "consumer c s t" and m: "cv_mutex s" and "cv_queue s" and inv: "cv_tests s"
  shows "cv_knows t"
  using assms(1)
proof cases
  case (c_get val r)
  note k = tests_knows [OF inv]
  have n: "cv_count s \<noteq> 0" using k [of c] c_get by auto
  have "c_knows (cv_count s - 1) (done_flag s) (cons_pc s c')" if "c' \<noteq> c" for c'
    using c_knows_frame [OF k] consumer_alone(3) [OF m, of c c'] c_get(2) n that by simp
  then show ?thesis
    using c_get(1) take_history(1) [OF assms(3) n c_get(4)] by (auto simp: cv_knows_def)
qed (use tests_knows [OF inv] tests_knows [OF inv, of c] in \<open>auto simp: cv_knows_def\<close>)

lemma tests_consumer:
  assumes "consumer c s t" "cv_mutex s" "cv_queue s" "cv_tests s"
  shows "cv_tests t"
proof -
  have "cv_prod t" using assms(1,4) by cases (auto simp: cv_tests_def cv_prod_def)
  with knows_consumer [OF assms] show ?thesis by (simp add: cv_tests_def)
qed

lemma queue_producer:
  assumes "producer s t" "cv_queue s" "cv_tests s"
  shows "cv_queue t"
  using assms(1)
proof cases
  case item
  then show ?thesis
  proof cases
    case (p_put i)
    have ok: "ring_ok CV_BUFSIZE (cv_ring s, cv_count s)"
      and h: "map int [0..<i] = consumed (cv_out s) @ ring_items CV_BUFSIZE (cv_ring s, cv_count s)"
      and lt: "length (ring_items CV_BUFSIZE (cv_ring s, cv_count s)) < CV_BUFSIZE"
      using assms(2,3) p_put by (simp_all add: cv_queue_def cv_tests_def cv_prod_def)
    show ?thesis
      using ring.put_ok [OF ok lt, of "int i"] ring.put_history [OF ok lt h, of "int i"] p_put
      by (simp add: cv_queue_def counted_put_def)
  next
    case (p_unlock i)
    then have "puts (if Suc i < CV_ITEMS then PLock (Suc i) else PDoneLock) = Suc i"
      using assms(3) by (simp add: cv_tests_def cv_prod_def)
    with p_unlock assms(2) show ?thesis by (simp add: cv_queue_def)
  qed (use assms(2) in \<open>simp_all add: cv_queue_def\<close>)
qed (use assms(2) in \<open>simp_all add: cv_queue_def\<close>)

lemma queue_consumer:
  assumes "consumer c s t" "cv_queue s" "cv_tests s"
  shows "cv_queue t"
  using assms(1)
proof cases
  case (c_get val r)
  have "cv_count s \<noteq> 0" using tests_knows [OF assms(3), of c] c_get by auto
  then show ?thesis
    using take_history(2,3) [OF assms(2) _ c_get(4)] c_get(1) by (simp add: cv_queue_def)
qed (use assms(2) in \<open>simp_all add: cv_queue_def\<close>)

lemma wait_full_producer: "producer s t \<Longrightarrow> wait_full s \<Longrightarrow> wait_full t"
  by (erule producer.cases; (erule produce.cases)?) (auto simp: wait_full_def)

lemma wait_full_frame:
  assumes "wait_full s" "prod_pc t = prod_pc s" "cv_count t = cv_count s"
    and "\<And>c v. cons_pc s c = CSignal v \<Longrightarrow> cons_pc t c = CSignal v"
  shows "wait_full t"
  using assms unfolding wait_full_def by metis

lemma wait_full_consumer:
  assumes "consumer c s t" and w: "wait_full s"
  shows "wait_full t"
  using assms(1)
proof cases
  case (c_get val r)
  then have "cons_pc t c = CSignal val" by simp
  then show ?thesis unfolding wait_full_def by blast
next
  case (c_signal val i)
  then show ?thesis by (simp add: wait_full_def)
next
  case (c_signal_nobody val)
  then show ?thesis by (simp add: wait_full_def)
qed (use w in \<open>auto intro!: wait_full_frame [OF w]\<close>)

lemma wait_done_producer: "producer s t \<Longrightarrow> cv_tests s \<Longrightarrow> wait_done s \<Longrightarrow> wait_done t"
  by (erule producer.cases; (erule produce.cases)?) (auto simp: wait_done_def cv_tests_def cv_prod_def)

lemma wait_done_consumer: "consumer c s t \<Longrightarrow> cv_tests s \<Longrightarrow> wait_done s \<Longrightarrow> wait_done t"
  by (erule consumer.cases) (auto simp: wait_done_def cv_tests_def cv_prod_def)

text \<open>A signal that finds nobody waiting is not lost: the consumers have not left and will look.\<close>

lemma items_noticed_producer:
  assumes "producer s t" and m: "cv_mutex s" and inv: "cv_tests s" and w: "items_noticed s"
  shows "items_noticed t"
  using assms(1)
proof cases
  case item
  then show ?thesis
  proof cases
    case (p_signal_nobody i)
    have "c_knows (cv_count s) False (cons_pc s 0)" "\<not> c_holds (cons_pc s 0)"
      using tests_knows [OF inv, of 0] inv m p_signal_nobody by (auto simp: cv_tests_def cv_prod_def cv_mutex_def)
    then have "c_active (cons_pc s 0)"
      using p_signal_nobody by (cases "cons_pc s 0") auto
    then have "\<exists>c<2. c_active (cons_pc t c)" using p_signal_nobody by (intro exI [of _ 0]) simp
    then show ?thesis by (simp add: items_noticed_def)
  next
    case (p_signal i c)
    then have "\<exists>c<2. c_active (cons_pc t c)" by (intro exI [of _ c]) simp
    then show ?thesis by (simp add: items_noticed_def)
  qed (use w in \<open>auto simp: items_noticed_def\<close>)
next
  case d_broadcast
  then show ?thesis using w by (fastforce simp: items_noticed_def)
qed (use w in \<open>auto simp: items_noticed_def\<close>)

text \<open>A consumer that stops looking has seen the buffer empty.\<close>

lemma items_noticed_consumer:
  assumes "consumer c s t" "c < 2" and inv: "cv_tests s"
  shows "items_noticed t"
proof -
  have "c_active (cons_pc t c) \<or> cv_count t = 0"
    using assms(1) tests_knows [OF inv, of c] by cases auto
  with assms(2) show ?thesis by (auto simp: items_noticed_def)
qed

lemma two_producer: "producer s t \<Longrightarrow> cv_two s \<Longrightarrow> cv_two t"
  by (erule producer.cases; (erule produce.cases)?) (auto simp: cv_two_def)

lemma two_consumer: "consumer c s t \<Longrightarrow> c < 2 \<Longrightarrow> cv_two s \<Longrightarrow> cv_two t"
  by (erule consumer.cases) (auto simp: cv_two_def)

lemma cv_inv_producer: "producer s t \<Longrightarrow> cv_inv s \<Longrightarrow> cv_inv t"
  unfolding cv_inv_def
  by (elim conjE, intro conjI) (erule (1) mutex_producer | erule (1) two_producer
      | erule (2) queue_producer | erule (2) tests_producer
      | erule (1) wait_full_producer | erule (3) items_noticed_producer | erule (2) wait_done_producer)+

lemma cv_inv_consumer: "consumer c s t \<Longrightarrow> c < 2 \<Longrightarrow> cv_inv s \<Longrightarrow> cv_inv t"
  unfolding cv_inv_def
  by (elim conjE, intro conjI) (erule (1) mutex_consumer | erule (2) two_consumer
      | erule (2) queue_consumer | erule (3) tests_consumer
      | erule (1) wait_full_consumer | erule (2) items_noticed_consumer | erule (2) wait_done_consumer)+

lemma cv_inv_step: "cv_inv s \<Longrightarrow> cv_step s t \<Longrightarrow> cv_inv t"
  by (auto simp: cv_step_def intro: cv_inv_producer cv_inv_consumer)

lemma cv_inv_spurious:
  assumes "cv_inv s" "spurious s t"
  shows "cv_inv t"
  using assms(2)
proof cases
  case (p_spurious i)
  moreover have "cv_mutex t" "cv_two t" "cv_queue t" "cv_knows t" "wait_full t"
    using assms(1) p_spurious
    by (simp_all add: cv_inv_def cv_mutex_def cv_two_def cv_queue_def cv_tests_def cv_knows_def wait_full_def)
  moreover have "cv_prod t" using assms(1) p_spurious by (auto simp: cv_inv_def cv_tests_def cv_prod_def)
  moreover have "items_noticed t" "wait_done t"
    using assms(1) p_spurious by (auto simp: cv_inv_def items_noticed_def wait_done_def)
  ultimately show ?thesis by (simp add: cv_inv_def cv_tests_def)
next
  case (c_spurious c)
  have "cv_mutex t" using assms(1) c_spurious by (auto simp: cv_inv_def cv_mutex_def)
  moreover have "cv_queue t" using assms(1) c_spurious by (simp add: cv_inv_def cv_queue_def)
  moreover have "cv_prod t" using assms(1) c_spurious by (simp add: cv_inv_def cv_tests_def cv_prod_def)
  moreover have "cv_knows t" using assms(1) c_spurious by (simp add: cv_inv_def cv_tests_def cv_knows_def)
  moreover have "wait_done t" using assms(1) c_spurious by (auto simp: cv_inv_def wait_done_def)
  moreover have "wait_full s" using assms(1) by (simp add: cv_inv_def)
  then have "wait_full t" by (rule wait_full_frame) (use c_spurious in auto)
  moreover have "\<exists>c<2. c_active (cons_pc t c)" using c_spurious by (intro exI [of _ c]) simp
  moreover have "cv_two t" using assms(1) c_spurious by (simp add: cv_inv_def cv_two_def)
  ultimately show ?thesis by (simp add: cv_inv_def cv_tests_def items_noticed_def)
qed

section \<open>Progress and termination\<close>

text \<open>Whoever holds the mutex can move, and whoever wants it can move when it is free.\<close>

lemma producer_moves: "p_holds (prod_pc s) \<Longrightarrow> \<exists>t. producer s t"
proof (cases "prod_pc s")
  case (PTest i)
  then show ?thesis by (cases "cv_count s = CV_BUFSIZE") (blast intro: producer.item produce.intros)+
next
  case (PSignal i)
  then show ?thesis by (cases "\<exists>c<2. cons_pc s c = CWait") (blast intro: producer.item produce.intros)+
qed (auto intro: producer.intros produce.intros)

lemma producer_enters:
  "cv_mtx s = None \<Longrightarrow> \<not> p_holds (prod_pc s) \<Longrightarrow> \<nexists>i. prod_pc s = PWait i \<Longrightarrow> prod_pc s \<noteq> PExit \<Longrightarrow>
   \<exists>t. producer s t"
  by (cases "prod_pc s") (auto intro: producer.intros produce.intros)

lemma consumer_moves: "c_holds (cons_pc s c) \<Longrightarrow> \<exists>t. consumer c s t"
proof (cases "cons_pc s c")
  case CTest
  then show ?thesis by (cases "cv_count s = 0 \<and> \<not> done_flag s") (blast intro: consumer.intros)+
next
  case CGo
  then show ?thesis
    by (cases "cv_count s = 0 \<and> done_flag s"; cases "ring_get CV_BUFSIZE (cv_ring s)")
      (blast intro: consumer.intros)+
next
  case (CSignal val)
  then show ?thesis by (cases "\<exists>i. prod_pc s = PWait i") (blast intro: consumer.intros)+
qed (auto intro: consumer.intros)

lemma consumer_enters:
  "cv_mtx s = None \<Longrightarrow> \<not> c_holds (cons_pc s c) \<Longrightarrow> c_active (cons_pc s c) \<Longrightarrow> \<exists>t. consumer c s t"
  by (cases "cons_pc s c") (auto intro: consumer.intros)

lemma stepI: "producer s t \<Longrightarrow> cv_step s t" "consumer c s t \<Longrightarrow> c < 2 \<Longrightarrow> cv_step s t"
  by (auto simp: cv_step_def less_2_cases_iff)

lemma cv_progress:
  assumes inv: "cv_inv s" and run: "\<not> cv_joined s"
  shows "\<exists>t. cv_step s t"
proof (cases "cv_mtx s")
  case None
  have free: "\<not> p_holds (prod_pc s)" "\<not> c_holds (cons_pc s c)" for c
    using inv None by (simp_all add: cv_inv_def cv_mutex_def)
  show ?thesis
  proof (cases "\<exists>c<2. c_active (cons_pc s c)")
    case True
    then show ?thesis using consumer_enters [OF None free(2)] stepI(2) by blast
  next
    case False
    then have idle: "\<forall>c<2. cons_pc s c = CWait \<or> cons_pc s c = CExit"
    proof (intro allI impI)
      fix c :: nat
      assume "c < 2"
      with False free(2) [of c] show "cons_pc s c = CWait \<or> cons_pc s c = CExit"
        by (cases "cons_pc s c") auto
    qed
    have "cv_count s = 0" using inv False free(1) by (auto simp: cv_inv_def items_noticed_def)
    then have "\<nexists>i. prod_pc s = PWait i"
      using inv free(2) unfolding cv_inv_def wait_full_def CV_BUFSIZE_def
      by (metis c_holds.simps(7) zero_neq_numeral)
    moreover have "prod_pc s \<noteq> PExit"
    proof
      assume x: "prod_pc s = PExit"
      then have "\<forall>c<2. cons_pc s c = CExit"
        using inv idle by (auto simp: cv_inv_def cv_tests_def cv_prod_def wait_done_def)
      with x run show False by (simp add: cv_joined_def)
    qed
    ultimately show ?thesis using producer_enters [OF None free(1)] stepI(1) by blast
  qed
next
  case (Some a)
  then show ?thesis
    using inv producer_moves consumer_moves stepI
    by (cases a) (auto simp: cv_inv_def cv_mutex_def cv_two_def, blast+)
qed

text \<open>
  The variant: what each thread still has to do in its current round, and what the items not yet
  put and not yet taken will cost. A signal pays for the second look of the thread it wakes.
\<close>

fun p_rank :: "p_pc \<Rightarrow> nat" where
  "p_rank (PLock _) = 4"
| "p_rank (PTest _) = 3"
| "p_rank (PWait _) = 2"
| "p_rank (PWoken _) = 4"
| "p_rank (PPut _) = 2"
| "p_rank (PSignal _) = 15"
| "p_rank (PUnlock _) = 12"
| "p_rank PDoneLock = 11"
| "p_rank PDoneSet = 10"
| "p_rank PDoneBroadcast = 9"
| "p_rank PDoneUnlock = 1"
| "p_rank PExit = 0"

fun c_rank :: "c_pc \<Rightarrow> nat" where
  "c_rank CLock = 4"
| "c_rank CTest = 3"
| "c_rank CWait = 2"
| "c_rank CWoken = 4"
| "c_rank CGo = 2"
| "c_rank (CSignal _) = 8"
| "c_rank (CUnlock v) = (if 0 \<le> v then 5 else 1)"
| "c_rank CExit = 0"

definition cv_variant :: "cv_state \<Rightarrow> nat" where
  "cv_variant s = p_rank (prod_pc s) + 14 * (CV_ITEMS - puts (prod_pc s))
     + 7 * (CV_ITEMS - length (consumed (cv_out s))) + c_rank (cons_pc s 0) + c_rank (cons_pc s 1)"

lemma variant_producer:
  assumes "producer s t" "cv_tests s"
  shows "cv_variant t < cv_variant s"
  using assms(1)
proof cases
  case item
  then show ?thesis
  proof cases
    case (p_signal i c)
    then show ?thesis by (auto simp: cv_variant_def less_2_cases_iff)
  qed (use assms(2) in \<open>auto simp: cv_variant_def cv_tests_def cv_prod_def\<close>)
qed (auto simp: cv_variant_def)

lemma consumed_bound: "cv_queue s \<Longrightarrow> length (consumed (cv_out s)) + cv_count s = puts (prod_pc s)"
  unfolding cv_queue_def by (drule conjunct2, drule arg_cong [of _ _ length]) simp

lemma variant_consumer:
  assumes "consumer c s t" "c < 2" and q: "cv_queue s" and inv: "cv_tests s"
  shows "cv_variant t < cv_variant s"
proof -
  have c: "c = 0 \<or> c = Suc 0" using assms(2) by auto
  have le: "puts (prod_pc s) \<le> CV_ITEMS" using inv by (simp add: cv_tests_def cv_prod_def)
  note k = tests_knows [OF inv, of c]
  show ?thesis
    using assms(1)
  proof cases
    case (c_get val r)
    have "cv_count s \<noteq> 0" using k c_get by auto
    then have "length (consumed (cv_out s)) < CV_ITEMS" using consumed_bound [OF q] le by simp
    then show ?thesis using c c_get(1,2) by (auto simp: cv_variant_def)
  qed (use c k in \<open>auto simp: cv_variant_def\<close>)
qed

interpretation cv: ending_system cv_init cv_step cv_inv cv_joined cv_variant
proof
  show "cv_variant t < cv_variant s" if "cv_inv s" "cv_step s t" for s t
    using that by (auto simp: cv_inv_def cv_step_def intro: variant_producer variant_consumer)
qed (fact cv_inv_init cv_inv_step cv_progress)+

text \<open>The same invariant with the wake-ups POSIX allows at any time.\<close>

interpretation cv_posix: invariant_system cv_init cv_any cv_inv
  by unfold_locales (auto simp: cv_any_def intro: cv_inv_init cv_inv_step cv_inv_spurious)

section \<open>Properties\<close>

lemma consumed_prefix:
  assumes "cv_inv s"
  shows "consumed (cv_out s) = map int [0..<length (consumed (cv_out s))]"
proof -
  let ?n = "length (consumed (cv_out s))"
  have q: "cv_queue s" using assms by (simp add: cv_inv_def)
  then have "consumed (cv_out s) = take ?n (map int [0..<puts (prod_pc s)])"
    by (simp add: cv_queue_def)
  with consumed_bound [OF q] show ?thesis by (simp add: take_map)
qed

lemma joined_consumed:
  assumes "cv_inv s" "cv_joined s"
  shows "cv_count s = 0" "length (consumed (cv_out s)) = CV_ITEMS"
proof -
  show 0: "cv_count s = 0"
    using assms tests_knows [of s 0] by (simp add: cv_inv_def cv_joined_def)
  show "length (consumed (cv_out s)) = CV_ITEMS"
    using consumed_bound [of s] assms 0 by (simp add: cv_inv_def cv_joined_def)
qed

text \<open>
  C8. The bounded buffer with condition variables: in every state that the producer and the two
  consumers can reach, spurious wake-ups included, the buffer holds at most eight items, the
  values printed as consumed are 0, 1, 2, and so on in order, and no wake-up has been lost, since
  the run can still be completed. When all threads have returned, exactly the twenty items have
  been consumed and the buffer is empty.
\<close>

theorem condvar_fifo:
  assumes "cv_any\<^sup>*\<^sup>* cv_init s"
  shows "cv_count s \<le> 8
    \<and> consumed (cv_out s) = map int [0..<length (consumed (cv_out s))]
    \<and> (\<exists>e. cv_step\<^sup>*\<^sup>* s e \<and> cv_joined e)
    \<and> (cv_joined s \<longrightarrow> cv_count s = 0 \<and> consumed (cv_out s) = map int [0..<20])"
proof -
  have inv: "cv_inv s" by (rule cv_posix.inv_reachable) fact
  have "cv_count s \<le> 8" using inv by (simp add: cv_inv_def cv_tests_def cv_prod_def src_consts)
  moreover note consumed_prefix [OF inv] cv.ends_from [OF inv]
  moreover have "cv_joined s \<longrightarrow> cv_count s = 0 \<and> consumed (cv_out s) = map int [0..<20]"
    using joined_consumed [OF inv] consumed_prefix [OF inv] unfolding CV_ITEMS_def by metis
  ultimately show ?thesis by blast
qed

theorem condvar_fifo_witness:
  "\<exists>e. cv_any\<^sup>*\<^sup>* cv_init e \<and> cv_joined e \<and> consumed (cv_out e) = map int [0..<20]"
proof -
  obtain e where e: "cv_step\<^sup>*\<^sup>* cv_init e" "cv_joined e" using condvar_fifo [of cv_init] by blast
  then have "cv_any\<^sup>*\<^sup>* cv_init e" by (auto elim!: mono_rtranclp [rule_format, rotated] simp: cv_any_def)
  with e(2) show ?thesis using condvar_fifo [of e] by blast
qed

text \<open>
  C19. Without spurious wake-ups every schedule of the condition variable lab ends: no run takes
  more than 432 steps, and a run that cannot continue has all three threads returned.
\<close>

theorem condvar_terminates:
  assumes "(cv_step ^^ n) cv_init s"
  shows "n \<le> 432 \<and> ((\<forall>t. \<not> cv_step s t) \<longrightarrow> cv_joined s)"
  using cv.run_length [OF assms cv_inv_init] cv.stuck_is_ended [OF relpowp_imp_rtranclp [OF assms]]
  by (auto simp: cv_variant_def cv_init_def src_consts)

theorem condvar_terminates_witness:
  "\<exists>n e. (cv_step ^^ n) cv_init e \<and> cv_joined e \<and> n \<le> 432"
proof -
  obtain e where "cv_step\<^sup>*\<^sup>* cv_init e" "cv_joined e" using cv.reaches_end by blast
  moreover then obtain n where "(cv_step ^^ n) cv_init e" by (blast dest: rtranclp_imp_relpowp)
  ultimately show ?thesis using condvar_terminates by blast
qed

section \<open>Refinement of the abstract queue\<close>

definition cv_abs :: "cv_state \<Rightarrow> fifo" where
  "cv_abs s = (ring_items CV_BUFSIZE (cv_ring s, cv_count s), puts (prod_pc s), consumed (cv_out s))"

lemma producer_fifo:
  assumes "producer s t" "cv_queue s" "cv_tests s"
  shows "cv_abs t = cv_abs s \<or> fifo_step CV_BUFSIZE (cv_abs s) (cv_abs t)"
  using assms(1)
proof cases
  case item
  then show ?thesis
  proof cases
    case (p_put i)
    then show ?thesis
      using ring_put_fifo [of CV_BUFSIZE "(cv_ring s, cv_count s)" i _ "consumed (cv_out s)", OF _ _ refl] assms(2,3)
      by (auto simp: cv_abs_def counted_put_def cv_queue_def cv_tests_def cv_prod_def)
  next
    case (p_unlock i)
    then have "puts (if Suc i < CV_ITEMS then PLock (Suc i) else PDoneLock) = Suc i"
      using assms(3) by (simp add: cv_tests_def cv_prod_def)
    with p_unlock show ?thesis by (simp add: cv_abs_def)
  qed (simp_all add: cv_abs_def)
qed (simp_all add: cv_abs_def)

lemma consumer_fifo:
  assumes "consumer c s t" "cv_queue s" "cv_tests s"
  shows "cv_abs t = cv_abs s \<or> fifo_step CV_BUFSIZE (cv_abs s) (cv_abs t)"
  using assms(1)
proof cases
  case (c_get val r)
  have "cv_count s \<noteq> 0" using tests_knows [OF assms(3), of c] c_get by auto
  then show ?thesis
    using ring_get_fifo [of CV_BUFSIZE "(cv_ring s, cv_count s)" val "(r, cv_count s - 1)"] assms(2) c_get
    by (auto simp: cv_abs_def counted_get_def cv_queue_def)
qed (simp_all add: cv_abs_def)

lemma spurious_fifo: "spurious s t \<Longrightarrow> cv_abs t = cv_abs s"
  by (erule spurious.cases) (simp_all add: cv_abs_def)

interpretation cvq: refining_system cv_init cv_any cv_inv cv_abs "fifo_step CV_BUFSIZE"
proof
  show "cv_abs t = cv_abs s \<or> fifo_step CV_BUFSIZE (cv_abs s) (cv_abs t)" if "cv_inv s" "cv_any s t" for s t
    using that producer_fifo consumer_fifo spurious_fifo unfolding cv_any_def cv_step_def cv_inv_def by blast
qed

lemma cv_abs_init: "cv_abs cv_init = fifo_start"
  by (simp add: cv_abs_def cv_init_def fifo_start_def)

end
