(* ===== verification/SemBuffer.thy ===== *)
theory SemBuffer
  imports RingBuffer
begin

text \<open>
  The semaphore queue of \<^verbatim>\<open>labs/lab_23_mpmc_semaphore.c\<close>: two producers and two consumers move
  ten items each through a circular array of five slots. The semaphores \<^verbatim>\<open>empty_slots\<close> and
  \<^verbatim>\<open>full_slots\<close> count free slots and items, \<^verbatim>\<open>buf_mtx\<close> protects the array. A step is one
  operation on a semaphore or on the mutex, or the body of the critical section. The flag
  \<^verbatim>\<open>stop\<close> is read by the loops and never set.
\<close>

section \<open>State\<close>

definition SEM_BUFSIZE :: nat where [src_consts]: "SEM_BUFSIZE = 5"

datatype sp_pc = SpWait | SpLock | SpBody | SpUnlock | SpPost

datatype sactor = SProd nat | SCons nat

record sem_state =
  sem_ring :: "int ring"
  empty_slots :: nat
  full_slots :: nat
  buf_mtx :: "sactor option"
  total_produced :: nat
  total_consumed :: nat
  sp_i :: "nat \<Rightarrow> nat"
  sp_pcs :: "nat \<Rightarrow> sp_pc"
  sc_i :: "nat \<Rightarrow> nat"
  sc_pcs :: "nat \<Rightarrow> sp_pc"
  sem_out :: "out list"

definition sem_start :: sem_state where
  "sem_start = \<lparr>sem_ring = \<lparr>buffer = replicate SEM_BUFSIZE 0, in_idx = 0, out_idx = 0\<rparr>,
     empty_slots = SEM_BUFSIZE, full_slots = 0, buf_mtx = None, total_produced = 0, total_consumed = 0,
     sp_i = (\<lambda>_. 0), sp_pcs = (\<lambda>_. SpWait), sc_i = (\<lambda>_. 0), sc_pcs = (\<lambda>_. SpWait), sem_out = []\<rparr>"

definition put_msg :: "nat \<Rightarrow> nat \<Rightarrow> out" where
  "put_msg who v = Printf ''  P%d: put %d'' [Num (int who), Num (int v)]"

definition got_msg :: "nat \<Rightarrow> int \<Rightarrow> out" where
  "got_msg who v = Printf ''  C%d: got %d'' [Num (int who), Num v]"

section \<open>The threads\<close>

text \<open>Producer \<open>p\<close> (its \<^verbatim>\<open>id\<close> is \<open>p\<close>) and consumer \<open>c\<close> (its \<^verbatim>\<open>id\<close> is \<open>c + 2\<close>).\<close>

inductive sem_producer :: "nat \<Rightarrow> sem_state \<Rightarrow> sem_state \<Rightarrow> bool" for p where
  sp_wait: "sp_i s p < 10 \<Longrightarrow> sp_pcs s p = SpWait \<Longrightarrow> 0 < empty_slots s \<Longrightarrow>
     sem_producer p s (s\<lparr>empty_slots := empty_slots s - 1, sp_pcs := (sp_pcs s)(p := SpLock)\<rparr>)"
| sp_lock: "sp_pcs s p = SpLock \<Longrightarrow> buf_mtx s = None \<Longrightarrow>
     sem_producer p s (s\<lparr>buf_mtx := Some (SProd p), sp_pcs := (sp_pcs s)(p := SpBody)\<rparr>)"
| sp_body: "sp_pcs s p = SpBody \<Longrightarrow> val = total_produced s \<Longrightarrow>
     sem_producer p s (s\<lparr>total_produced := total_produced s + 1,
        sem_ring := ring_put SEM_BUFSIZE (int val) (sem_ring s),
        sem_out := sem_out s @ [put_msg p val], sp_pcs := (sp_pcs s)(p := SpUnlock)\<rparr>)"
| sp_unlock: "sp_pcs s p = SpUnlock \<Longrightarrow>
     sem_producer p s (s\<lparr>buf_mtx := None, sp_pcs := (sp_pcs s)(p := SpPost)\<rparr>)"
| sp_post: "sp_pcs s p = SpPost \<Longrightarrow>
     sem_producer p s (s\<lparr>full_slots := full_slots s + 1, sp_i := (sp_i s)(p := sp_i s p + 1),
                        sp_pcs := (sp_pcs s)(p := SpWait)\<rparr>)"

inductive sem_consumer :: "nat \<Rightarrow> sem_state \<Rightarrow> sem_state \<Rightarrow> bool" for c where
  sc_wait: "sc_i s c < 10 \<Longrightarrow> sc_pcs s c = SpWait \<Longrightarrow> 0 < full_slots s \<Longrightarrow>
     sem_consumer c s (s\<lparr>full_slots := full_slots s - 1, sc_pcs := (sc_pcs s)(c := SpLock)\<rparr>)"
| sc_lock: "sc_pcs s c = SpLock \<Longrightarrow> buf_mtx s = None \<Longrightarrow>
     sem_consumer c s (s\<lparr>buf_mtx := Some (SCons c), sc_pcs := (sc_pcs s)(c := SpBody)\<rparr>)"
| sc_body: "sc_pcs s c = SpBody \<Longrightarrow> ring_get SEM_BUFSIZE (sem_ring s) = (val, r) \<Longrightarrow>
     sem_consumer c s (s\<lparr>sem_ring := r, total_consumed := total_consumed s + 1,
        sem_out := sem_out s @ [got_msg (c + 2) val], sc_pcs := (sc_pcs s)(c := SpUnlock)\<rparr>)"
| sc_unlock: "sc_pcs s c = SpUnlock \<Longrightarrow>
     sem_consumer c s (s\<lparr>buf_mtx := None, sc_pcs := (sc_pcs s)(c := SpPost)\<rparr>)"
| sc_post: "sc_pcs s c = SpPost \<Longrightarrow>
     sem_consumer c s (s\<lparr>empty_slots := empty_slots s + 1, sc_i := (sc_i s)(c := sc_i s c + 1),
                        sc_pcs := (sc_pcs s)(c := SpWait)\<rparr>)"

definition sem_step :: "sem_state \<Rightarrow> sem_state \<Rightarrow> bool" where
  "sem_step s t \<longleftrightarrow> (\<exists>k<2. sem_producer k s t \<or> sem_consumer k s t)"

definition sem_joined :: "sem_state \<Rightarrow> bool" where
  "sem_joined s \<longleftrightarrow> (\<forall>k<2. sp_i s k = 10 \<and> sp_pcs s k = SpWait \<and> sc_i s k = 10 \<and> sc_pcs s k = SpWait)"

definition sem_report :: "sem_state \<Rightarrow> out" where
  "sem_report s = Printf ''  Total produced: %d, consumed: %d''
     [Num (int (total_produced s)), Num (int (total_consumed s))]"

text \<open>\<^verbatim>\<open>main\<close>, once the threads have ended in the state \<open>s\<close>.\<close>

definition lab23_main :: "sem_state \<Rightarrow> out list" where
  "lab23_main s = sem_out s @ [sem_report s]"

section \<open>Invariant\<close>

text \<open>Threads between \<^verbatim>\<open>sem_wait\<close> and their access to the array, and between that and \<^verbatim>\<open>sem_post\<close>.\<close>

fun claims :: "sp_pc \<Rightarrow> nat" where
  "claims SpLock = 1"
| "claims SpBody = 1"
| "claims _ = 0"

fun owes :: "sp_pc \<Rightarrow> nat" where
  "owes SpUnlock = 1"
| "owes SpPost = 1"
| "owes _ = 0"

definition got :: "out list \<Rightarrow> int list" where
  "got os = concat (map (\<lambda>x. case x of Printf f as \<Rightarrow>
      if f = ''  C%d: got %d'' then (case as of [_, Num v] \<Rightarrow> [v] | _ \<Rightarrow> []) else [] | _ \<Rightarrow> []) os)"

lemma got_simps [simp]:
  "got [] = []" "got (os @ [got_msg who v]) = got os @ [v]" "got (os @ [put_msg who k]) = got os"
  by (simp_all add: got_def got_msg_def put_msg_def)

definition sem_mutex :: "sem_state \<Rightarrow> bool" where
  "sem_mutex s \<longleftrightarrow> (\<forall>k. buf_mtx s = Some (SProd k) \<longleftrightarrow> sp_pcs s k = SpBody \<or> sp_pcs s k = SpUnlock)
     \<and> (\<forall>k. buf_mtx s = Some (SCons k) \<longleftrightarrow> sc_pcs s k = SpBody \<or> sc_pcs s k = SpUnlock)"

text \<open>The semaphores together with the threads in between account for every slot.\<close>

definition sem_slots :: "sem_state \<Rightarrow> bool" where
  "sem_slots s \<longleftrightarrow>
     empty_slots s + (\<Sum>k<2. claims (sp_pcs s k)) + (\<Sum>k<2. owes (sc_pcs s k)) + total_produced s
       = SEM_BUFSIZE + total_consumed s
   \<and> full_slots s + (\<Sum>k<2. owes (sp_pcs s k)) + (\<Sum>k<2. claims (sc_pcs s k)) + total_consumed s
       = total_produced s"

definition sem_totals :: "sem_state \<Rightarrow> bool" where
  "sem_totals s \<longleftrightarrow>
     total_produced s = (\<Sum>k<2. sp_i s k) + (\<Sum>k<2. owes (sp_pcs s k))
   \<and> total_consumed s = (\<Sum>k<2. sc_i s k) + (\<Sum>k<2. owes (sc_pcs s k))"

definition sem_loops :: "sem_state \<Rightarrow> bool" where
  "sem_loops s \<longleftrightarrow> (\<forall>k. sp_i s k \<le> 10 \<and> (sp_pcs s k \<noteq> SpWait \<longrightarrow> sp_i s k < 10)
     \<and> sc_i s k \<le> 10 \<and> (sc_pcs s k \<noteq> SpWait \<longrightarrow> sc_i s k < 10))"

definition sem_queue :: "sem_state \<Rightarrow> bool" where
  "sem_queue s \<longleftrightarrow> ring_ok SEM_BUFSIZE (sem_ring s, total_produced s - total_consumed s)
     \<and> map int [0..<total_produced s]
         = got (sem_out s) @ ring_items SEM_BUFSIZE (sem_ring s, total_produced s - total_consumed s)
     \<and> length (got (sem_out s)) = total_consumed s"

definition sem_two :: "sem_state \<Rightarrow> bool" where
  "sem_two s \<longleftrightarrow> (\<forall>k. buf_mtx s = Some (SProd k) \<or> buf_mtx s = Some (SCons k) \<longrightarrow> k < 2)"

definition sem_inv :: "sem_state \<Rightarrow> bool" where
  "sem_inv s \<longleftrightarrow> sem_mutex s \<and> sem_two s \<and> sem_slots s \<and> sem_totals s \<and> sem_loops s \<and> sem_queue s"

lemma sem_inv_init: "sem_inv sem_start"
  by (simp add: sem_inv_def sem_mutex_def sem_two_def sem_slots_def sem_totals_def sem_loops_def
      sem_queue_def sem_start_def ring_ok_def ring_items_def src_consts)

lemma sum2: "(\<Sum>k<2. f k) = f 0 + f (Suc 0)" for f :: "nat \<Rightarrow> nat"
  by (simp add: eval_nat_numeral)

lemma two_cases: "k < 2 \<Longrightarrow> k = 0 \<or> k = Suc 0"
  by auto

lemma slots_producer: "sem_producer p s t \<Longrightarrow> p < 2 \<Longrightarrow> sem_slots s \<Longrightarrow> sem_slots t"
  by (erule sem_producer.cases; drule two_cases) (auto simp: sem_slots_def sum2)

lemma slots_consumer: "sem_consumer c s t \<Longrightarrow> c < 2 \<Longrightarrow> sem_slots s \<Longrightarrow> sem_slots t"
  by (erule sem_consumer.cases; drule two_cases) (auto simp: sem_slots_def sum2)

lemma totals_producer: "sem_producer p s t \<Longrightarrow> p < 2 \<Longrightarrow> sem_totals s \<Longrightarrow> sem_totals t"
  by (erule sem_producer.cases; drule two_cases) (auto simp: sem_totals_def sum2)

lemma totals_consumer: "sem_consumer c s t \<Longrightarrow> c < 2 \<Longrightarrow> sem_totals s \<Longrightarrow> sem_totals t"
  by (erule sem_consumer.cases; drule two_cases) (auto simp: sem_totals_def sum2)

lemma loops_producer: "sem_producer p s t \<Longrightarrow> sem_loops s \<Longrightarrow> sem_loops t"
  by (erule sem_producer.cases) (auto simp: sem_loops_def Suc_le_eq)

lemma loops_consumer: "sem_consumer c s t \<Longrightarrow> sem_loops s \<Longrightarrow> sem_loops t"
  by (erule sem_consumer.cases) (auto simp: sem_loops_def Suc_le_eq)

lemma sem_two_producer: "sem_producer p s t \<Longrightarrow> p < 2 \<Longrightarrow> sem_two s \<Longrightarrow> sem_two t"
  by (erule sem_producer.cases) (auto simp: sem_two_def)

lemma sem_two_consumer: "sem_consumer c s t \<Longrightarrow> c < 2 \<Longrightarrow> sem_two s \<Longrightarrow> sem_two t"
  by (erule sem_consumer.cases) (auto simp: sem_two_def)

lemma sem_mutex_producer:
  assumes "sem_producer p s t" and m: "sem_mutex s"
  shows "sem_mutex t"
  using assms(1)
proof cases
  case sp_unlock
  then have "buf_mtx s = Some (SProd p)" using m by (simp add: sem_mutex_def)
  with m sp_unlock show ?thesis by (auto simp: sem_mutex_def)
qed (use m in \<open>auto simp: sem_mutex_def\<close>)

lemma sem_mutex_consumer:
  assumes "sem_consumer c s t" and m: "sem_mutex s"
  shows "sem_mutex t"
  using assms(1)
proof cases
  case sc_unlock
  then have "buf_mtx s = Some (SCons c)" using m by (simp add: sem_mutex_def)
  with m sc_unlock show ?thesis by (auto simp: sem_mutex_def)
qed (use m in \<open>auto simp: sem_mutex_def\<close>)

text \<open>A producer in its section finds a free slot, a consumer in its section finds an item.\<close>

lemma slot_free:
  assumes "sem_slots s" "p < 2" "sp_pcs s p = SpBody"
  shows "total_consumed s \<le> total_produced s" "total_produced s - total_consumed s < SEM_BUFSIZE"
  using assms two_cases [OF assms(2)] by (auto simp: sem_slots_def sum2)

lemma item_ready:
  assumes "sem_slots s" "c < 2" "sc_pcs s c = SpBody"
  shows "total_consumed s < total_produced s"
  using assms two_cases [OF assms(2)] by (auto simp: sem_slots_def sum2)

lemma sem_queue_producer:
  assumes "sem_producer p s t" "p < 2" "sem_slots s" "sem_queue s"
  shows "sem_queue t"
  using assms(1)
proof cases
  case (sp_body val)
  let ?q = "(sem_ring s, total_produced s - total_consumed s)"
  note free = slot_free [OF assms(3,2) sp_body(2)]
  have ok: "ring_ok SEM_BUFSIZE ?q" and lt: "length (ring_items SEM_BUFSIZE ?q) < SEM_BUFSIZE"
    and h: "map int [0..<total_produced s] = got (sem_out s) @ ring_items SEM_BUFSIZE ?q"
    using assms(4) free by (simp_all add: sem_queue_def)
  have "Suc (total_produced s - total_consumed s) = Suc (total_produced s) - total_consumed s"
    using free(1) by simp
  then show ?thesis
    using ring.put_ok [OF ok lt, of "int val"] ring.put_history [OF ok lt h, of "int val"] assms(4) sp_body
    by (simp add: sem_queue_def counted_put_def)
qed (use assms(4) in \<open>simp_all add: sem_queue_def\<close>)

lemma sem_queue_consumer:
  assumes "sem_consumer c s t" "c < 2" "sem_slots s" "sem_queue s"
  shows "sem_queue t"
  using assms(1)
proof cases
  case (sc_body val r)
  let ?q = "(sem_ring s, total_produced s - total_consumed s)"
  have ready: "total_consumed s < total_produced s" by (rule item_ready [OF assms(3,2) sc_body(2)])
  have ok: "ring_ok SEM_BUFSIZE ?q" and ne: "ring_items SEM_BUFSIZE ?q \<noteq> []"
    and h: "map int [0..<total_produced s] = got (sem_out s) @ ring_items SEM_BUFSIZE ?q"
    using assms(4) ready by (simp_all add: sem_queue_def)
  have g: "counted_get SEM_BUFSIZE ?q = (val, r, total_produced s - Suc (total_consumed s))"
    using sc_body(3) by (simp add: counted_get_def)
  show ?thesis
    using ring.get_ok [OF ok ne] ring.get_history [OF ok ne h] assms(4) sc_body(1) unfolding g
    by (simp add: sem_queue_def)
qed (use assms(4) in \<open>simp_all add: sem_queue_def\<close>)

lemma sem_inv_step: "sem_inv s \<Longrightarrow> sem_step s t \<Longrightarrow> sem_inv t"
  unfolding sem_inv_def sem_step_def
  by (elim conjE exE disjE; intro conjI)
    (blast intro: sem_mutex_producer sem_mutex_consumer sem_two_producer sem_two_consumer slots_producer slots_consumer
      totals_producer totals_consumer loops_producer loops_consumer sem_queue_producer sem_queue_consumer)+

section \<open>Progress and termination\<close>

lemma sem_producer_moves: "sp_pcs s p = SpBody \<or> sp_pcs s p = SpUnlock \<or> sp_pcs s p = SpPost \<Longrightarrow>
    \<exists>t. sem_producer p s t"
  by (auto intro: sem_producer.intros)

lemma sem_consumer_moves: "sc_pcs s c = SpBody \<or> sc_pcs s c = SpUnlock \<or> sc_pcs s c = SpPost \<Longrightarrow>
    \<exists>t. sem_consumer c s t"
  by (cases "ring_get SEM_BUFSIZE (sem_ring s)") (auto intro: sem_consumer.intros)

text \<open>
  If all threads stand before a \<^verbatim>\<open>sem_wait\<close> and none can pass, the buffer is full with the
  consumers gone or empty with the producers gone, and the totals exclude both.
\<close>

lemma nobody_waits_forever:
  assumes inv: "sem_inv s" and wait: "\<forall>k<2. sp_pcs s k = SpWait \<and> sc_pcs s k = SpWait"
    and stuck: "\<forall>k<2. sp_i s k < 10 \<longrightarrow> empty_slots s = 0" "\<forall>k<2. sc_i s k < 10 \<longrightarrow> full_slots s = 0"
  shows "sem_joined s"
proof -
  have pcs: "sp_pcs s 0 = SpWait" "sp_pcs s (Suc 0) = SpWait" "sc_pcs s 0 = SpWait" "sc_pcs s (Suc 0) = SpWait"
    using wait by simp_all
  have t: "total_produced s = sp_i s 0 + sp_i s (Suc 0)" "total_consumed s = sc_i s 0 + sc_i s (Suc 0)"
    and e: "empty_slots s + total_produced s = 5 + total_consumed s" "full_slots s + total_consumed s = total_produced s"
    using inv by (simp_all add: sem_inv_def sem_totals_def sem_slots_def sum2 pcs src_consts)
  have b: "sp_i s 0 \<le> 10" "sp_i s (Suc 0) \<le> 10" "sc_i s 0 \<le> 10" "sc_i s (Suc 0) \<le> 10"
    using inv by (auto simp: sem_inv_def sem_loops_def)
  have "sp_i s 0 < 10 \<or> sp_i s (Suc 0) < 10 \<longrightarrow> empty_slots s = 0"
    "sc_i s 0 < 10 \<or> sc_i s (Suc 0) < 10 \<longrightarrow> full_slots s = 0"
    using stuck(1) [rule_format, of 0] stuck(1) [rule_format, of "Suc 0"]
      stuck(2) [rule_format, of 0] stuck(2) [rule_format, of "Suc 0"] by auto
  with t e b have "sp_i s 0 = 10 \<and> sp_i s (Suc 0) = 10 \<and> sc_i s 0 = 10 \<and> sc_i s (Suc 0) = 10" by linarith
  with pcs show ?thesis by (auto simp: sem_joined_def dest!: two_cases)
qed

lemma sem_progress:
  assumes inv: "sem_inv s" and run: "\<not> sem_joined s"
  shows "\<exists>t. sem_step s t"
proof (rule ccontr)
  assume stuck: "\<not> (\<exists>t. sem_step s t)"
  then have no: "\<not> sem_producer k s t" "\<not> sem_consumer k s t" if "k < 2" for k t
    using that by (auto simp: sem_step_def)
  have pc: "sp_pcs s k = SpWait \<or> sp_pcs s k = SpLock" "sc_pcs s k = SpWait \<or> sc_pcs s k = SpLock"
    if "k < 2" for k
    using no [OF that] sem_producer_moves [of s k] sem_consumer_moves [of s k]
    by (cases "sp_pcs s k"; cases "sc_pcs s k"; auto)+
  have free: "buf_mtx s = None"
  proof (cases "buf_mtx s")
    case (Some a)
    have "k < 2 \<and> (sp_pcs s k = SpBody \<or> sp_pcs s k = SpUnlock)" if "a = SProd k" for k
      using inv Some that by (auto simp: sem_inv_def sem_mutex_def sem_two_def)
    moreover have "k < 2 \<and> (sc_pcs s k = SpBody \<or> sc_pcs s k = SpUnlock)" if "a = SCons k" for k
      using inv Some that by (auto simp: sem_inv_def sem_mutex_def sem_two_def)
    ultimately show ?thesis using pc by (cases a) fastforce+
  qed
  have "sp_pcs s k = SpWait" "sc_pcs s k = SpWait" if "k < 2" for k
    using no [OF that] pc [OF that] free by (auto intro: sem_producer.sp_lock sem_consumer.sc_lock)
  moreover have "sp_i s k < 10 \<longrightarrow> empty_slots s = 0" "sc_i s k < 10 \<longrightarrow> full_slots s = 0"
    if "k < 2" for k
    using no [OF that] calculation [OF that] sem_producer.sp_wait [of s k] sem_consumer.sc_wait [of s k]
    by blast+
  ultimately show False using nobody_waits_forever [OF inv] run by blast
qed

fun sp_rank :: "sp_pc \<Rightarrow> nat" where
  "sp_rank SpWait = 0"
| "sp_rank SpLock = 1"
| "sp_rank SpBody = 2"
| "sp_rank SpUnlock = 3"
| "sp_rank SpPost = 4"

definition sem_variant :: "sem_state \<Rightarrow> nat" where
  "sem_variant s = (\<Sum>k<2. 5 * (10 - sp_i s k) - sp_rank (sp_pcs s k))
     + (\<Sum>k<2. 5 * (10 - sc_i s k) - sp_rank (sc_pcs s k))"

lemma sem_decreases:
  assumes "sem_inv s" "sem_step s t"
  shows "sem_variant t < sem_variant s"
proof -
  obtain k where k: "k < 2" and st: "sem_producer k s t \<or> sem_consumer k s t"
    using assms(2) by (auto simp: sem_step_def)
  have lt: "sp_pcs s k \<noteq> SpWait \<Longrightarrow> sp_i s k < 10" "sc_pcs s k \<noteq> SpWait \<Longrightarrow> sc_i s k < 10"
    using assms(1) by (simp_all add: sem_inv_def sem_loops_def)
  from st show ?thesis
  proof
    assume "sem_producer k s t"
    then show ?thesis
      using lt(1) two_cases [OF k] by cases (auto simp: sem_variant_def sum2)
  next
    assume "sem_consumer k s t"
    then show ?thesis
      using lt(2) two_cases [OF k] by cases (auto simp: sem_variant_def sum2)
  qed
qed

interpretation sem: ending_system sem_start sem_step sem_inv sem_joined sem_variant
  by unfold_locales (fact sem_inv_init sem_inv_step sem_progress sem_decreases)+

section \<open>Property\<close>

text \<open>
  C11. The semaphore queue: in every reachable state the array holds between zero and five items,
  the values the consumers print are 0, 1, 2, and so on in this order, whichever consumer prints
  them. No schedule deadlocks; when all
  threads have returned, the report says 20 produced and 20 consumed and every item was delivered
  once.
\<close>

theorem semaphore_fifo:
  assumes "sem_step\<^sup>*\<^sup>* sem_start s"
  shows "total_consumed s \<le> total_produced s \<and> total_produced s \<le> total_consumed s + 5
    \<and> got (sem_out s) = map int [0..<total_consumed s]
    \<and> (\<exists>e. sem_step\<^sup>*\<^sup>* s e \<and> sem_joined e)
    \<and> (sem_joined s \<longrightarrow> got (sem_out s) = map int [0..<20]
         \<and> sem_report s = Printf ''  Total produced: %d, consumed: %d'' [Num 20, Num 20])"
proof -
  have inv: "sem_inv s" by (rule sem.inv_reachable) fact
  have le: "total_consumed s \<le> total_produced s" "total_produced s \<le> total_consumed s + 5"
    using inv by (auto simp: sem_inv_def sem_slots_def src_consts)
  have "got (sem_out s) = take (total_consumed s) (map int [0..<total_produced s])"
    using inv by (simp add: sem_inv_def sem_queue_def)
  then have g: "got (sem_out s) = map int [0..<total_consumed s]" using le by (simp add: take_map)
  have "total_produced s = 20 \<and> total_consumed s = 20" if "sem_joined s"
    using inv that by (simp add: sem_inv_def sem_totals_def sem_joined_def sum2)
  with le g show ?thesis using sem.reaches_end [OF assms] by (auto simp: sem_report_def)
qed

theorem semaphore_fifo_witness:
  "\<exists>e. sem_step\<^sup>*\<^sup>* sem_start e \<and> sem_joined e \<and> got (sem_out e) = map int [0..<20]"
proof -
  obtain e where "sem_step\<^sup>*\<^sup>* sem_start e" "sem_joined e" using semaphore_fifo [of sem_start] by blast
  then show ?thesis using semaphore_fifo [of e] by blast
qed

section \<open>Refinement of the abstract queue\<close>

definition sem_abs :: "sem_state \<Rightarrow> fifo" where
  "sem_abs s = (ring_items SEM_BUFSIZE (sem_ring s, total_produced s - total_consumed s), total_produced s, got (sem_out s))"

lemma sem_producer_fifo:
  assumes "sem_producer p s t" "p < 2" "sem_slots s" "sem_queue s"
  shows "sem_abs t = sem_abs s \<or> fifo_step SEM_BUFSIZE (sem_abs s) (sem_abs t)"
  using assms(1)
proof cases
  case (sp_body val)
  note free = slot_free [OF assms(3,2) sp_body(2)]
  have "counted_put SEM_BUFSIZE (int val) (sem_ring s, total_produced s - total_consumed s) =
      (ring_put SEM_BUFSIZE (int val) (sem_ring s), Suc (total_produced s) - total_consumed s)"
    using free(1) by (simp add: counted_put_def Suc_diff_le)
  from ring_put_fifo [OF _ _ this, of "got (sem_out s)"] show ?thesis
    using assms(4) free sp_body by (simp add: sem_abs_def sem_queue_def)
qed (simp_all add: sem_abs_def)

lemma sem_consumer_fifo:
  assumes "sem_consumer c s t" "c < 2" "sem_slots s" "sem_queue s"
  shows "sem_abs t = sem_abs s \<or> fifo_step SEM_BUFSIZE (sem_abs s) (sem_abs t)"
  using assms(1)
proof cases
  case (sc_body val r)
  have "counted_get SEM_BUFSIZE (sem_ring s, total_produced s - total_consumed s) =
      (val, r, total_produced s - Suc (total_consumed s))"
    using sc_body(3) by (simp add: counted_get_def)
  from ring_get_fifo [OF _ _ this] show ?thesis
    using assms(4) item_ready [OF assms(3,2) sc_body(2)] sc_body(1) by (simp add: sem_abs_def sem_queue_def)
qed (simp_all add: sem_abs_def)

interpretation semq: refining_system sem_start sem_step sem_inv sem_abs "fifo_step SEM_BUFSIZE"
proof
  show "sem_abs t = sem_abs s \<or> fifo_step SEM_BUFSIZE (sem_abs s) (sem_abs t)" if "sem_inv s" "sem_step s t" for s t
    using that sem_producer_fifo sem_consumer_fifo unfolding sem_inv_def sem_step_def by blast
qed

lemma sem_abs_start: "sem_abs sem_start = fifo_start"
  by (simp add: sem_abs_def sem_start_def fifo_start_def)

end
