(* ===== verification/LockFree.thy ===== *)
theory LockFree
  imports Prelude "HOL-Library.Multiset"
begin

text \<open>
  The lock-free stack of \<^verbatim>\<open>labs/lab_24_lockfree.c\<close>, on an explicit heap: an address is a
  number, 0 is the null pointer, and an address without a node is free memory that \<^verbatim>\<open>malloc\<close> may
  hand out, again if it has been freed before. Each thread runs a list of operations; a step is
  one atomic access to \<^verbatim>\<open>stack_top\<close> or one access to a node. Reading or freeing a node that has
  been freed is the state \<open>fault\<close>. \<^verbatim>\<open>atomic_compare_exchange_weak\<close> may also fail when the values
  agree: those steps are the relation \<open>cas_spurious\<close>.
\<close>

section \<open>State and operations\<close>

record node_t =
  val :: int
  nxt :: nat

datatype stack_op = Push int | Pop

datatype lf_pc =
  Idle | PushLoad nat | PushCas nat nat | PopLoad | PopNext nat | PopCas nat nat | PopTake nat

record lf_state =
  heap :: "nat \<rightharpoonup> node_t"
  stack_top :: nat
  lf_ops :: "tid \<Rightarrow> stack_op list"
  lf_pcs :: "tid \<Rightarrow> lf_pc"
  popped :: "int option list"
  fault :: bool

text \<open>\<^verbatim>\<open>push(v)\<close>: allocate, then load and try to exchange until that succeeds.\<close>

inductive push :: "tid \<Rightarrow> lf_state \<Rightarrow> lf_state \<Rightarrow> bool" for t where
  push_alloc: "lf_pcs s t = Idle \<Longrightarrow> lf_ops s t = Push v # r \<Longrightarrow> a \<noteq> 0 \<Longrightarrow> heap s a = None \<Longrightarrow>
     push t s (s\<lparr>heap := (heap s)(a \<mapsto> \<lparr>val = v, nxt = x\<rparr>), lf_ops := (lf_ops s)(t := r),
                lf_pcs := (lf_pcs s)(t := PushLoad a)\<rparr>)"
| push_load: "lf_pcs s t = PushLoad n \<Longrightarrow> heap s n = Some nd \<Longrightarrow>
     push t s (s\<lparr>heap := (heap s)(n \<mapsto> nd\<lparr>nxt := stack_top s\<rparr>),
                lf_pcs := (lf_pcs s)(t := PushCas n (stack_top s))\<rparr>)"
| push_swap: "lf_pcs s t = PushCas n old \<Longrightarrow> stack_top s = old \<Longrightarrow>
     push t s (s\<lparr>stack_top := n, lf_pcs := (lf_pcs s)(t := Idle)\<rparr>)"
| push_retry: "lf_pcs s t = PushCas n old \<Longrightarrow> stack_top s \<noteq> old \<Longrightarrow>
     push t s (s\<lparr>lf_pcs := (lf_pcs s)(t := PushLoad n)\<rparr>)"

text \<open>\<^verbatim>\<open>pop(&out)\<close>; the log holds \<open>None\<close> for a call that returned 0.\<close>

inductive pop :: "tid \<Rightarrow> lf_state \<Rightarrow> lf_state \<Rightarrow> bool" for t where
  pop_call: "lf_pcs s t = Idle \<Longrightarrow> lf_ops s t = Pop # r \<Longrightarrow>
     pop t s (s\<lparr>lf_ops := (lf_ops s)(t := r), lf_pcs := (lf_pcs s)(t := PopLoad)\<rparr>)"
| pop_empty: "lf_pcs s t = PopLoad \<Longrightarrow> stack_top s = 0 \<Longrightarrow>
     pop t s (s\<lparr>popped := popped s @ [None], lf_pcs := (lf_pcs s)(t := Idle)\<rparr>)"
| pop_load: "lf_pcs s t = PopLoad \<Longrightarrow> stack_top s \<noteq> 0 \<Longrightarrow>
     pop t s (s\<lparr>lf_pcs := (lf_pcs s)(t := PopNext (stack_top s))\<rparr>)"
| pop_next: "lf_pcs s t = PopNext old \<Longrightarrow> heap s old = Some nd \<Longrightarrow>
     pop t s (s\<lparr>lf_pcs := (lf_pcs s)(t := PopCas old (nxt nd))\<rparr>)"
| pop_next_fault: "lf_pcs s t = PopNext old \<Longrightarrow> heap s old = None \<Longrightarrow> pop t s (s\<lparr>fault := True\<rparr>)"
| pop_swap: "lf_pcs s t = PopCas old n \<Longrightarrow> stack_top s = old \<Longrightarrow>
     pop t s (s\<lparr>stack_top := n, lf_pcs := (lf_pcs s)(t := PopTake old)\<rparr>)"
| pop_retry: "lf_pcs s t = PopCas old n \<Longrightarrow> stack_top s \<noteq> old \<Longrightarrow>
     pop t s (s\<lparr>lf_pcs := (lf_pcs s)(t := PopLoad)\<rparr>)"
| pop_take: "lf_pcs s t = PopTake old \<Longrightarrow> heap s old = Some nd \<Longrightarrow>
     pop t s (s\<lparr>heap := (heap s)(old := None), popped := popped s @ [Some (val nd)],
               lf_pcs := (lf_pcs s)(t := Idle)\<rparr>)"
| pop_take_fault: "lf_pcs s t = PopTake old \<Longrightarrow> heap s old = None \<Longrightarrow> pop t s (s\<lparr>fault := True\<rparr>)"

definition lf_step :: "nat \<Rightarrow> lf_state \<Rightarrow> lf_state \<Rightarrow> bool" where
  "lf_step T s s' \<longleftrightarrow> (\<exists>t<T. push t s s' \<or> pop t s s')"

inductive cas_spurious :: "nat \<Rightarrow> lf_state \<Rightarrow> lf_state \<Rightarrow> bool" for T where
  push_spurious: "t < T \<Longrightarrow> lf_pcs s t = PushCas n old \<Longrightarrow>
     cas_spurious T s (s\<lparr>lf_pcs := (lf_pcs s)(t := PushLoad n)\<rparr>)"
| pop_spurious: "t < T \<Longrightarrow> lf_pcs s t = PopCas old n \<Longrightarrow>
     cas_spurious T s (s\<lparr>lf_pcs := (lf_pcs s)(t := PopLoad)\<rparr>)"

definition lf_any :: "nat \<Rightarrow> lf_state \<Rightarrow> lf_state \<Rightarrow> bool" where
  "lf_any T s s' \<longleftrightarrow> lf_step T s s' \<or> cas_spurious T s s'"

text \<open>
  The result of \<^verbatim>\<open>malloc\<close> is not tested. If it is the null pointer, the next access writes through it;
  the relations above are the runs in which \<^verbatim>\<open>malloc\<close> succeeds.
\<close>

inductive push_null :: "nat \<Rightarrow> lf_state \<Rightarrow> lf_state \<Rightarrow> bool" for T where
  malloc_null: "t < T \<Longrightarrow> lf_pcs s t = Idle \<Longrightarrow> lf_ops s t = Push v # r \<Longrightarrow> push_null T s (s\<lparr>fault := True\<rparr>)"

text \<open>\<^verbatim>\<open>main\<close>: an empty stack and threads that run \<^verbatim>\<open>pusher\<close>, \<open>n\<close> pushes each.\<close>

definition pusher :: "nat \<Rightarrow> stack_op list" where
  "pusher n = map (\<lambda>i. Push (int i)) [0..<n]"

definition lf_start :: "nat \<Rightarrow> lf_state" where
  "lf_start n = \<lparr>heap = Map.empty, stack_top = 0, lf_ops = (\<lambda>_. pusher n), lf_pcs = (\<lambda>_. Idle),
     popped = [], fault = False\<rparr>"

definition lf_joined :: "nat \<Rightarrow> lf_state \<Rightarrow> bool" where
  "lf_joined T s \<longleftrightarrow> (\<forall>t<T. lf_ops s t = [] \<and> lf_pcs s t = Idle)"

text \<open>
  The drain loop of \<^verbatim>\<open>main\<close>, alone: each call of \<^verbatim>\<open>pop\<close> is one exchange. \<open>None\<close> is a loop that
  never ends or an access to freed memory.
\<close>

partial_function (option) drain :: "int \<Rightarrow> (nat \<rightharpoonup> node_t) \<Rightarrow> nat \<Rightarrow> (int \<times> (nat \<rightharpoonup> node_t)) option" where
  "drain cnt h p =
     (if p = 0 then Some (cnt, h)
      else case h p of None \<Rightarrow> None
         | Some nd \<Rightarrow> drain (cnt + 1) (h(p := None)) (nxt nd))"

declare drain.simps [code]

definition lab24_report :: "lf_state \<Rightarrow> double \<Rightarrow> out list option" where
  "lab24_report s elapsed =
     map_option (\<lambda>(cnt, _).
        [Printf ''  Pushed 400000 items in %.1f ms'' [Dbl (elapsed / 10 ^ 6)],
         Printf ''  Popped %d items (should be 400000)'' [Num cnt],
         Printf ''    ptr  = 0x%lx (48-bit VA)'' [Num 0x7fffc0001234],
         Printf ''    tag  = %lu (version counter, incremented on each successful CAS)'' [Num 7]])
       (drain 0 (heap s) (stack_top s))"

section \<open>The chain of nodes\<close>

fun chain :: "(nat \<rightharpoonup> node_t) \<Rightarrow> nat \<Rightarrow> nat list \<Rightarrow> bool" where
  "chain h p [] = (p = 0)"
| "chain h p (a # as) = (p = a \<and> a \<noteq> 0 \<and> (case h a of None \<Rightarrow> False | Some nd \<Rightarrow> chain h (nxt nd) as))"

definition vals :: "(nat \<rightharpoonup> node_t) \<Rightarrow> nat list \<Rightarrow> int list" where
  "vals h as = map (\<lambda>a. val (the (h a))) as"

lemma chain_cong: "(\<And>a. a \<in> set as \<Longrightarrow> h' a = h a) \<Longrightarrow> chain h' p as = chain h p as"
  by (induction as arbitrary: p) (auto split: option.splits)

lemma chain_upd: "a \<notin> set as \<Longrightarrow> chain (h(a := y)) p as = chain h p as"
  by (rule chain_cong) auto

lemma vals_cong: "(\<And>a. a \<in> set as \<Longrightarrow> h' a = h a) \<Longrightarrow> vals h' as = vals h as"
  by (simp add: vals_def)

lemma chain_dom: "chain h p as \<Longrightarrow> set as \<subseteq> dom h"
  by (induction as arbitrary: p) (auto split: option.splits)

text \<open>Draining a well-formed stack returns the number of its nodes and frees exactly these.\<close>

lemma drain_chain:
  "chain h p as \<Longrightarrow> distinct as \<Longrightarrow> drain c h p = Some (c + int (length as), h |` (- set as))"
proof (induction as arbitrary: h p c)
  case Nil
  then show ?case by (simp add: drain.simps)
next
  case (Cons a as)
  then obtain nd where a: "p = a" "a \<noteq> 0" "h a = Some nd" and ch: "chain h (nxt nd) as"
    by (auto split: option.splits)
  have d: "a \<notin> set as" "distinct as" using Cons.prems(2) by simp_all
  have "chain (h(a := None)) (nxt nd) as" using ch d(1) by (simp add: chain_upd)
  then have "drain (c + 1) (h(a := None)) (nxt nd)
      = Some (c + 1 + int (length as), (h(a := None)) |` (- set as))"
    using d(2) by (rule Cons.IH)
  moreover have "(h(a := None)) |` (- set as) = h |` (- set (a # as))"
    by (auto simp: restrict_map_def fun_eq_iff)
  moreover have "drain c h p = drain (c + 1) (h(a := None)) (nxt nd)"
    using a by (subst drain.simps) simp
  ultimately show ?case by simp
qed

section \<open>Invariant of the pushers\<close>

fun own_node :: "lf_pc \<Rightarrow> nat set" where
  "own_node (PushLoad n) = {n}"
| "own_node (PushCas n _) = {n}"
| "own_node _ = {}"

definition push_only :: "lf_state \<Rightarrow> bool" where
  "push_only s \<longleftrightarrow> \<not> fault s \<and> finite (dom (heap s)) \<and> (\<forall>t. (\<forall>x\<in>set (lf_ops s t). x \<noteq> Pop)
     \<and> lf_pcs s t \<in> {Idle} \<union> range PushLoad \<union> {PushCas n old | n old. True})"

text \<open>A node being pushed belongs to one thread, is not in the stack, and carries the loaded top.\<close>

definition lf_private :: "lf_state \<Rightarrow> nat list \<Rightarrow> bool" where
  "lf_private s as \<longleftrightarrow>
     (\<forall>t a. a \<in> own_node (lf_pcs s t) \<longrightarrow> a \<notin> set as \<and> a \<noteq> 0)
   \<and> (\<forall>t u a. t \<noteq> u \<longrightarrow> a \<in> own_node (lf_pcs s t) \<longrightarrow> a \<notin> own_node (lf_pcs s u))
   \<and> (\<forall>t m old. lf_pcs s t = PushCas m old \<longrightarrow> nxt (the (heap s m)) = old)
   \<and> (\<forall>a. a \<in> dom (heap s) \<longleftrightarrow> a \<in> set as \<or> (\<exists>t. a \<in> own_node (lf_pcs s t)))"

text \<open>The values still to push, in the hands of a thread, and in the stack are those of the programs.\<close>

definition op_vals :: "stack_op list \<Rightarrow> int list" where
  "op_vals os = concat (map (\<lambda>x. case x of Push v \<Rightarrow> [v] | Pop \<Rightarrow> []) os)"

fun held :: "(nat \<rightharpoonup> node_t) \<Rightarrow> lf_pc \<Rightarrow> int multiset" where
  "held h (PushLoad n) = {#val (the (h n))#}"
| "held h (PushCas n _) = {#val (the (h n))#}"
| "held h _ = {#}"

definition lf_vals :: "nat \<Rightarrow> nat \<Rightarrow> lf_state \<Rightarrow> nat list \<Rightarrow> bool" where
  "lf_vals T n s as \<longleftrightarrow>
     (\<Sum>t<T. mset (op_vals (lf_ops s t)) + held (heap s) (lf_pcs s t)) + mset (vals (heap s) as)
       = (\<Sum>t<T. mset (map int [0..<n]))"

definition lf_idle :: "nat \<Rightarrow> lf_state \<Rightarrow> bool" where
  "lf_idle T s \<longleftrightarrow> (\<forall>t. T \<le> t \<longrightarrow> lf_pcs s t = Idle)"

definition lf_inv :: "nat \<Rightarrow> nat \<Rightarrow> lf_state \<Rightarrow> bool" where
  "lf_inv T n s \<longleftrightarrow> push_only s \<and> lf_idle T s
     \<and> (\<exists>as. chain (heap s) (stack_top s) as \<and> distinct as \<and> lf_private s as \<and> lf_vals T n s as)"

lemma op_vals_simps [simp]: "op_vals [] = []" "op_vals (Push v # os) = v # op_vals os"
  by (simp_all add: op_vals_def)

lemma op_vals_pusher [simp]: "op_vals (pusher n) = map int [0..<n]"
  by (simp add: op_vals_def pusher_def comp_def concat_map_singleton)

lemma lf_inv_init: "lf_inv T n (lf_start n)"
proof -
  have "push_only (lf_start n)" by (auto simp: push_only_def lf_start_def pusher_def)
  moreover have "lf_idle T (lf_start n)" by (simp add: lf_idle_def lf_start_def)
  moreover have "chain (heap (lf_start n)) (stack_top (lf_start n)) []" by (simp add: lf_start_def)
  moreover have "lf_private (lf_start n) []" "lf_vals T n (lf_start n) []"
    by (simp_all add: lf_private_def lf_vals_def lf_start_def vals_def)
  ultimately show ?thesis unfolding lf_inv_def by (metis distinct.simps(1))
qed

lemma push_only_push:
  assumes "push t s s'" "push_only s"
  shows "push_only s'"
proof -
  have "\<forall>x\<in>set (lf_ops s t). x \<noteq> Pop" using assms(2) by (simp add: push_only_def)
  with assms show ?thesis by cases (auto simp: push_only_def)
qed

lemma priv_own:
  assumes "lf_private s as" "a \<in> own_node (lf_pcs s t)"
  shows "a \<in> dom (heap s)" "a \<notin> set as" "a \<noteq> 0" "u \<noteq> t \<Longrightarrow> a \<notin> own_node (lf_pcs s u)"
  using assms unfolding lf_private_def by (elim conjE; blast)+

lemma priv_nxt: "lf_private s as \<Longrightarrow> lf_pcs s t = PushCas m old \<Longrightarrow> nxt (the (heap s m)) = old"
  unfolding lf_private_def by (elim conjE) blast

lemma priv_dom: "lf_private s as \<Longrightarrow> a \<in> dom (heap s) \<longleftrightarrow> a \<in> set as \<or> (\<exists>t. a \<in> own_node (lf_pcs s t))"
  unfolding lf_private_def by (elim conjE) blast

lemma priv_fresh:
  assumes "lf_private s as" "heap s a = None"
  shows "a \<notin> set as" "a \<notin> own_node (lf_pcs s u)"
  using priv_dom [OF assms(1), of a] assms(2) by auto

lemma privI:
  assumes "\<And>t a. a \<in> own_node (lf_pcs s t) \<Longrightarrow> a \<notin> set as \<and> a \<noteq> 0"
    and "\<And>t u a. t \<noteq> u \<Longrightarrow> a \<in> own_node (lf_pcs s t) \<Longrightarrow> a \<notin> own_node (lf_pcs s u)"
    and "\<And>t m old. lf_pcs s t = PushCas m old \<Longrightarrow> nxt (the (heap s m)) = old"
    and "\<And>a. a \<in> dom (heap s) \<longleftrightarrow> a \<in> set as \<or> (\<exists>t. a \<in> own_node (lf_pcs s t))"
  shows "lf_private s as"
  unfolding lf_private_def using assms by (intro conjI allI impI; blast)

lemma own_split:
  "(\<exists>u. b \<in> own_node (pcs u)) \<longleftrightarrow> b \<in> own_node (pcs t) \<or> (\<exists>u. u \<noteq> t \<and> b \<in> own_node (pcs u))"
  by metis

lemma own_upd:
  "(\<exists>u. b \<in> own_node ((pcs(t := pc)) u)) \<longleftrightarrow> b \<in> own_node pc \<or> (\<exists>u. u \<noteq> t \<and> b \<in> own_node (pcs u))"
  by (metis fun_upd_apply)

lemma no_pop:
  assumes "push_only s"
  shows "\<not> pop t s s'"
proof
  have ops: "\<forall>x\<in>set (lf_ops s t). x \<noteq> Pop"
    and pc: "lf_pcs s t \<in> {Idle} \<union> range PushLoad \<union> {PushCas n old | n old. True}"
    using assms by (simp_all add: push_only_def)
  assume "pop t s s'"
  then show False by cases (use ops pc in auto)
qed

lemma held_cong: "(\<And>a. a \<in> own_node pc \<Longrightarrow> val (the (h' a)) = val (the (h a))) \<Longrightarrow> held h' pc = held h pc"
  by (cases pc) auto

lemma vals_step:
  assumes "lf_vals T n s as" and "vals (heap s') as' = vals (heap s) as"
    and "\<And>u. mset (op_vals (lf_ops s' u)) + held (heap s') (lf_pcs s' u)
          = mset (op_vals (lf_ops s u)) + held (heap s) (lf_pcs s u)"
  shows "lf_vals T n s' as'"
  using assms by (simp add: lf_vals_def)

lemma mset_move:
  fixes a b c f g v w :: "'a multiset"
  assumes "a + f = b + g" "f = g + v" "b + w = c"
  shows "a + (v + w) = c"
proof -
  have "g + (a + v) = g + b" using assms(1,2) by (simp add: ac_simps)
  then have "a + v = b" by simp
  with assms(3) show ?thesis by (auto simp: ac_simps)
qed

lemma push_inv_alloc:
  assumes inv: "chain (heap s) (stack_top s) as" "lf_private s as" "lf_vals T n s as"
    and st: "lf_pcs s t = Idle" "lf_ops s t = Push v # r" "a \<noteq> 0" "heap s a = None"
    and s'_def: "s' = s\<lparr>heap := (heap s)(a \<mapsto> \<lparr>val = v, nxt = x\<rparr>), lf_ops := (lf_ops s)(t := r),
                lf_pcs := (lf_pcs s)(t := PushLoad a)\<rparr>"
  shows "chain (heap s') (stack_top s') as \<and> lf_private s' as \<and> lf_vals T n s' as"
proof (intro conjI)
  note fresh = priv_fresh [OF inv(2) st(4)]
  show "chain (heap s') (stack_top s') as"
    using inv(1) fresh(1) by (simp add: s'_def chain_upd)
  show "lf_private s' as"
  proof (rule privI)
    show "b \<notin> set as \<and> b \<noteq> 0" if "b \<in> own_node (lf_pcs s' u)" for u b
      using that fresh(1) st(3) priv_own(2,3) [OF inv(2)] by (auto simp: s'_def split: if_splits)
    show "b \<notin> own_node (lf_pcs s' u)" if "w \<noteq> u" "b \<in> own_node (lf_pcs s' w)" for w u b
      using that fresh(2) priv_own(4) [OF inv(2)] by (auto simp: s'_def split: if_splits)
    show "nxt (the (heap s' m)) = old" if "lf_pcs s' u = PushCas m old" for u m old
      using that fresh(2) [of u] priv_nxt [OF inv(2)] by (auto simp: s'_def split: if_splits)
    show "b \<in> dom (heap s') \<longleftrightarrow> b \<in> set as \<or> (\<exists>u. b \<in> own_node (lf_pcs s' u))" for b
      unfolding s'_def lf_state.simps own_upd
      using priv_dom [OF inv(2), of b] own_split [of b "lf_pcs s" t] st(1) by auto
  qed
  show "lf_vals T n s' as"
  proof (rule vals_step [OF inv(3)])
    show "vals (heap s') as = vals (heap s) as" using fresh(1) by (auto simp: s'_def intro!: vals_cong)
    show "mset (op_vals (lf_ops s' u)) + held (heap s') (lf_pcs s' u)
        = mset (op_vals (lf_ops s u)) + held (heap s) (lf_pcs s u)" for u
      using st fresh(2) [of u] by (auto simp: s'_def intro!: held_cong)
  qed
qed

lemma push_inv_load:
  assumes inv: "chain (heap s) (stack_top s) as" "lf_private s as" "lf_vals T n s as"
    and st: "lf_pcs s t = PushLoad m" "heap s m = Some nd"
    and s'_def: "s' = s\<lparr>heap := (heap s)(m \<mapsto> nd\<lparr>nxt := stack_top s\<rparr>),
                lf_pcs := (lf_pcs s)(t := PushCas m (stack_top s))\<rparr>"
  shows "chain (heap s') (stack_top s') as \<and> lf_private s' as \<and> lf_vals T n s' as"
proof (intro conjI)
  have own: "m \<in> own_node (lf_pcs s t)" by (simp add: st(1))
  note m = priv_own [OF inv(2) own]
  have pn: "own_node (lf_pcs s' u) = own_node (lf_pcs s u)" for u using st(1) by (simp add: s'_def)
  show "chain (heap s') (stack_top s') as"
    using inv(1) m(2) by (simp add: s'_def chain_upd)
  show "lf_private s' as"
  proof (rule privI, unfold pn)
    show "nxt (the (heap s' k)) = old" if "lf_pcs s' u = PushCas k old" for u k old
      using that priv_nxt [OF inv(2)] m(4) [of u] by (auto simp: s'_def split: if_splits)
    show "b \<in> dom (heap s') \<longleftrightarrow> b \<in> set as \<or> (\<exists>u. b \<in> own_node (lf_pcs s u))" for b
      using priv_dom [OF inv(2), of b] m(1) by (auto simp: s'_def)
  qed (use priv_own [OF inv(2)] in auto)
  show "lf_vals T n s' as"
  proof (rule vals_step [OF inv(3)])
    show "vals (heap s') as = vals (heap s) as" using m(2) by (auto simp: s'_def intro!: vals_cong)
    show "mset (op_vals (lf_ops s' u)) + held (heap s') (lf_pcs s' u)
        = mset (op_vals (lf_ops s u)) + held (heap s) (lf_pcs s u)" for u
      using st m(4) [of u] by (auto simp: s'_def intro!: held_cong)
  qed
qed

lemma push_inv_swap:
  assumes inv: "chain (heap s) (stack_top s) as" "lf_private s as" "lf_vals T n s as" "t < T"
    and st: "lf_pcs s t = PushCas m (stack_top s)"
    and s'_def: "s' = s\<lparr>stack_top := m, lf_pcs := (lf_pcs s)(t := Idle)\<rparr>"
  shows "m \<notin> set as \<and> chain (heap s') (stack_top s') (m # as)
    \<and> lf_private s' (m # as) \<and> lf_vals T n s' (m # as)"
proof (intro conjI)
  have own: "m \<in> own_node (lf_pcs s t)" by (simp add: st(1))
  note m = priv_own [OF inv(2) own]
  obtain nd where nd: "heap s m = Some nd" using m(1) by blast
  have nx: "nxt nd = stack_top s" using priv_nxt [OF inv(2) st] nd by simp
  show "m \<notin> set as" by (fact m(2))
  show "chain (heap s') (stack_top s') (m # as)" using inv(1) m nd nx by (simp add: s'_def)
  show "lf_private s' (m # as)"
  proof (rule privI)
    show "b \<notin> set (m # as) \<and> b \<noteq> 0" if "b \<in> own_node (lf_pcs s' u)" for u b
      using that priv_own(2,3) [OF inv(2)] m(4) [of u] by (auto simp: s'_def split: if_splits)
    show "b \<notin> own_node (lf_pcs s' u)" if "w \<noteq> u" "b \<in> own_node (lf_pcs s' w)" for w u b
      using that priv_own(4) [OF inv(2)] by (auto simp: s'_def split: if_splits)
    show "nxt (the (heap s' k)) = old" if "lf_pcs s' u = PushCas k old" for u k old
      using that priv_nxt [OF inv(2)] by (auto simp: s'_def split: if_splits)
    show "b \<in> dom (heap s') \<longleftrightarrow> b \<in> set (m # as) \<or> (\<exists>u. b \<in> own_node (lf_pcs s' u))" for b
    proof -
      show ?thesis
        unfolding s'_def lf_state.simps own_upd
        using priv_dom [OF inv(2), of b] own_split [of b "lf_pcs s" t] st by auto
    qed
  qed
  show "lf_vals T n s' (m # as)"
  proof -
    let ?f = "\<lambda>s u. mset (op_vals (lf_ops s u)) + held (heap s) (lf_pcs s u)"
    have 1: "(\<Sum>u<T. ?f s' u) + ?f s t = (\<Sum>u<T. ?f s u) + ?f s' t"
      using inv(4) by (intro sum_change) (simp_all add: s'_def)
    have 2: "?f s t = ?f s' t + {#val nd#}" using st nd by (simp add: s'_def)
    have 3: "mset (vals (heap s') (m # as)) = {#val nd#} + mset (vals (heap s) as)"
      using nd by (simp add: vals_def s'_def)
    show ?thesis
      unfolding lf_vals_def 3 by (rule mset_move [OF 1 2 inv(3) [unfolded lf_vals_def]])
  qed
qed

text \<open>An exchange that fails, for a reason or not, sends the thread back to the load.\<close>

lemma lf_inv_retry:
  assumes "lf_inv T n s" and st: "t < T" "lf_pcs s t = PushCas m old"
    and s'_def: "s' = s\<lparr>lf_pcs := (lf_pcs s)(t := PushLoad m)\<rparr>"
  shows "lf_inv T n s'"
proof -
  obtain as where inv: "chain (heap s) (stack_top s) as" "lf_private s as" "lf_vals T n s as"
    and d: "distinct as" and po: "push_only s"
    using assms(1) by (auto simp: lf_inv_def)
  have pn: "own_node (lf_pcs s' u) = own_node (lf_pcs s u)" for u using st(2) by (simp add: s'_def)
  have "lf_private s' as"
  proof (rule privI, unfold pn)
    show "nxt (the (heap s' k)) = x" if "lf_pcs s' u = PushCas k x" for u k x
      using that priv_nxt [OF inv(2)] by (auto simp: s'_def split: if_splits)
    show "b \<in> dom (heap s') \<longleftrightarrow> b \<in> set as \<or> (\<exists>u. b \<in> own_node (lf_pcs s u))" for b
      using priv_dom [OF inv(2), of b] by (simp add: s'_def)
  qed (use priv_own [OF inv(2)] in auto)
  moreover have "lf_vals T n s' as" using st(2) by (intro vals_step [OF inv(3)]) (auto simp: s'_def)
  moreover have "push_only s'" using po by (auto simp: push_only_def s'_def)
  moreover have "lf_idle T s'" using assms(1) st(1) by (simp add: lf_inv_def lf_idle_def s'_def)
  moreover have "chain (heap s') (stack_top s') as" using inv(1) by (simp add: s'_def)
  ultimately show ?thesis using d unfolding lf_inv_def by blast
qed

lemma lf_inv_push:
  assumes "lf_inv T n s" "push t s s'" "t < T"
  shows "lf_inv T n s'"
proof -
  obtain as where inv: "chain (heap s) (stack_top s) as" "lf_private s as" "lf_vals T n s as"
    and d: "distinct as" and po: "push_only s"
    using assms(1) by (auto simp: lf_inv_def)
  have "lf_idle T s'"
    using assms(2) assms(1,3) by cases (auto simp: lf_inv_def lf_idle_def)
  with push_only_push [OF assms(2) po] have po': "push_only s' \<and> lf_idle T s'" by blast
  show ?thesis
    using assms(2)
  proof cases
    case (push_alloc v r a x)
    show ?thesis
      using push_inv_alloc [OF inv push_alloc(2-5,1)] d po' unfolding lf_inv_def by blast
  next
    case (push_load m nd)
    show ?thesis
      using push_inv_load [OF inv push_load(2,3,1)] d po' unfolding lf_inv_def by blast
  next
    case (push_swap m old)
    then have "lf_pcs s t = PushCas m (stack_top s)" by simp
    from push_inv_swap [OF inv assms(3) this push_swap(1)] d have "distinct (m # as)" by simp
    with push_inv_swap [OF inv assms(3) \<open>lf_pcs s t = PushCas m (stack_top s)\<close> push_swap(1)] po'
    show ?thesis unfolding lf_inv_def by blast
  next
    case (push_retry m old)
    show ?thesis using lf_inv_retry [OF assms(1,3) push_retry(2,1)] .
  qed
qed

lemma lf_step_push: "lf_inv T n s \<Longrightarrow> lf_step T s s' \<Longrightarrow> \<exists>t<T. push t s s'"
  using no_pop unfolding lf_step_def lf_inv_def by blast

lemma lf_inv_step: "lf_inv T n s \<Longrightarrow> lf_step T s s' \<Longrightarrow> lf_inv T n s'"
  using lf_step_push lf_inv_push by blast

lemma lf_inv_spurious:
  assumes "lf_inv T n s" "cas_spurious T s s'"
  shows "lf_inv T n s'"
  using assms(2)
proof cases
  case (push_spurious t m old)
  then show ?thesis using lf_inv_retry [OF assms(1)] by blast
next
  case (pop_spurious t old m)
  have "lf_pcs s t \<in> {Idle} \<union> range PushLoad \<union> {PushCas n old | n old. True}"
    using assms(1) by (simp add: lf_inv_def push_only_def)
  with pop_spurious show ?thesis by auto
qed

lemma lf_progress:
  assumes "lf_inv T n s" "\<not> lf_joined T s"
  shows "\<exists>s'. lf_step T s s'"
proof -
  obtain as where pr: "lf_private s as" and po: "push_only s" using assms(1) by (auto simp: lf_inv_def)
  obtain t where t: "t < T" "lf_ops s t \<noteq> [] \<or> lf_pcs s t \<noteq> Idle"
    using assms(2) by (auto simp: lf_joined_def)
  have ops: "\<forall>x\<in>set (lf_ops s t). x \<noteq> Pop" and fin: "finite (insert 0 (dom (heap s)))"
    and pc: "lf_pcs s t \<in> {Idle} \<union> range PushLoad \<union> {PushCas n old | n old. True}"
    using po by (simp_all add: push_only_def)
  obtain a where a: "a \<noteq> 0" "heap s a = None" using ex_new_if_finite [OF infinite_UNIV_nat fin] by auto
  have "\<exists>s'. push t s s'"
  proof (cases "lf_pcs s t")
    case Idle
    with t(2) obtain v r where "lf_ops s t = Push v # r"
      using ops by (cases "lf_ops s t"; cases "hd (lf_ops s t)") auto
    then show ?thesis using Idle a push.push_alloc by blast
  next
    case (PushLoad m)
    then obtain nd where "heap s m = Some nd" using priv_own(1) [OF pr, of m t] by auto
    then show ?thesis using PushLoad push.push_load by blast
  next
    case (PushCas m old)
    then show ?thesis using push.push_swap push.push_retry by blast
  qed (use pc in auto)
  with t(1) show ?thesis by (auto simp: lf_step_def)
qed

text \<open>
  The variant behind lock-freedom: a failed exchange is paid for by the exchange that succeeded
  since the load.
\<close>

fun lf_rank :: "nat \<Rightarrow> lf_pc \<Rightarrow> nat" where
  "lf_rank p Idle = 3"
| "lf_rank p (PushLoad _) = 2"
| "lf_rank p (PushCas _ old) = (if old = p then 1 else 3)"
| "lf_rank p _ = 0"

definition lf_rem :: "lf_state \<Rightarrow> tid \<Rightarrow> nat" where
  "lf_rem s t = length (lf_ops s t) + (if lf_pcs s t = Idle then 0 else 1)"

definition lf_variant :: "nat \<Rightarrow> lf_state \<Rightarrow> nat" where
  "lf_variant T s = (3 * T + 1) * (\<Sum>t<T. lf_rem s t) + (\<Sum>t<T. lf_rank (stack_top s) (lf_pcs s t))"

lemma lf_rank_le: "lf_rank p pc \<le> 3"
  by (cases pc) auto

lemma push_decreases:
  assumes "push t s s'" "t < T"
  shows "lf_variant T s' < lf_variant T s"
proof -
  have same: "lf_variant T s' < lf_variant T s"
    if "stack_top s' = stack_top s" "lf_rank (stack_top s) (lf_pcs s' t) < lf_rank (stack_top s) (lf_pcs s t)"
      "lf_rem s' t = lf_rem s t" "\<And>u. u \<noteq> t \<Longrightarrow> lf_pcs s' u = lf_pcs s u \<and> lf_rem s' u = lf_rem s u"
  proof -
    have "(\<Sum>u<T. lf_rank (stack_top s') (lf_pcs s' u)) < (\<Sum>u<T. lf_rank (stack_top s) (lf_pcs s u))"
      using that assms(2) by (intro sum_decrease [of t]) auto
    moreover have "(\<Sum>u<T. lf_rem s' u) = (\<Sum>u<T. lf_rem s u)"
      using that by (intro sum_unchanged) metis
    ultimately show ?thesis by (simp add: lf_variant_def)
  qed
  show ?thesis
    using assms(1)
  proof cases
    case (push_swap m old)
    have "(\<Sum>u<T. lf_rem s u) = Suc (\<Sum>u<T. lf_rem s' u)"
      using push_swap assms(2) by (intro sum_increment [of t]) (auto simp: lf_rem_def)
    moreover have "(\<Sum>u<T. lf_rank (stack_top s') (lf_pcs s' u)) \<le> (\<Sum>u<T. 3)"
      by (intro sum_mono lf_rank_le)
    ultimately show ?thesis by (simp add: lf_variant_def algebra_simps)
  next
    case (push_alloc v r a x)
    then show ?thesis by (intro same) (auto simp: lf_rem_def)
  next
    case (push_load m nd)
    then show ?thesis by (intro same) (auto simp: lf_rem_def)
  next
    case (push_retry m old)
    then show ?thesis by (intro same) (auto simp: lf_rem_def)
  qed
qed

interpretation lf: ending_system "lf_start n" "lf_step T" "lf_inv T n" "lf_joined T" "lf_variant T" for T n
proof
  show "lf_variant T s' < lf_variant T s" if "lf_inv T n s" "lf_step T s s'" for s s'
    using lf_step_push [OF that] push_decreases by blast
qed (fact lf_inv_init lf_inv_step lf_progress)+

interpretation lf_weak: invariant_system "lf_start n" "lf_any T" "lf_inv T n" for T n
  by unfold_locales (auto simp: lf_any_def intro: lf_inv_init lf_inv_step lf_inv_spurious)

section \<open>Running a schedule\<close>

text \<open>One step of thread \<open>t\<close>; an allocation takes the address \<open>a\<close> if it is free.\<close>

definition lf_exec :: "tid \<Rightarrow> nat \<Rightarrow> lf_state \<Rightarrow> lf_state" where
  "lf_exec t a s =
     (case lf_pcs s t of
        Idle \<Rightarrow> (case lf_ops s t of
            [] \<Rightarrow> s
          | Push v # r \<Rightarrow>
              if a \<noteq> 0 \<and> heap s a = None
              then s\<lparr>heap := (heap s)(a \<mapsto> \<lparr>val = v, nxt = 0\<rparr>), lf_ops := (lf_ops s)(t := r),
                    lf_pcs := (lf_pcs s)(t := PushLoad a)\<rparr>
              else s
          | Pop # r \<Rightarrow> s\<lparr>lf_ops := (lf_ops s)(t := r), lf_pcs := (lf_pcs s)(t := PopLoad)\<rparr>)
      | PushLoad n \<Rightarrow> (case heap s n of None \<Rightarrow> s | Some nd \<Rightarrow>
            s\<lparr>heap := (heap s)(n \<mapsto> nd\<lparr>nxt := stack_top s\<rparr>),
              lf_pcs := (lf_pcs s)(t := PushCas n (stack_top s))\<rparr>)
      | PushCas n old \<Rightarrow>
            if stack_top s = old then s\<lparr>stack_top := n, lf_pcs := (lf_pcs s)(t := Idle)\<rparr>
            else s\<lparr>lf_pcs := (lf_pcs s)(t := PushLoad n)\<rparr>
      | PopLoad \<Rightarrow>
            if stack_top s = 0 then s\<lparr>popped := popped s @ [None], lf_pcs := (lf_pcs s)(t := Idle)\<rparr>
            else s\<lparr>lf_pcs := (lf_pcs s)(t := PopNext (stack_top s))\<rparr>
      | PopNext old \<Rightarrow> (case heap s old of None \<Rightarrow> s\<lparr>fault := True\<rparr>
            | Some nd \<Rightarrow> s\<lparr>lf_pcs := (lf_pcs s)(t := PopCas old (nxt nd))\<rparr>)
      | PopCas old n \<Rightarrow>
            if stack_top s = old then s\<lparr>stack_top := n, lf_pcs := (lf_pcs s)(t := PopTake old)\<rparr>
            else s\<lparr>lf_pcs := (lf_pcs s)(t := PopLoad)\<rparr>
      | PopTake old \<Rightarrow> (case heap s old of None \<Rightarrow> s\<lparr>fault := True\<rparr>
            | Some nd \<Rightarrow> s\<lparr>heap := (heap s)(old := None), popped := popped s @ [Some (val nd)],
                           lf_pcs := (lf_pcs s)(t := Idle)\<rparr>))"

lemma lf_exec_step: "lf_exec t a s = s \<or> push t s (lf_exec t a s) \<or> pop t s (lf_exec t a s)"
proof (cases "lf_pcs s t")
  case Idle
  then show ?thesis
    by (auto simp: lf_exec_def split: list.splits stack_op.splits intro: push.push_alloc pop.pop_call)
next
  case (PushLoad n)
  then show ?thesis using push.push_load by (cases "heap s n") (auto simp: lf_exec_def)
next
  case (PushCas n old)
  then show ?thesis using push.push_swap push.push_retry by (auto simp: lf_exec_def)
next
  case PopLoad
  then show ?thesis using pop.pop_empty pop.pop_load by (auto simp: lf_exec_def)
next
  case (PopNext old)
  then show ?thesis using pop.pop_next pop.pop_next_fault by (cases "heap s old") (auto simp: lf_exec_def)
next
  case (PopCas old n)
  then show ?thesis using pop.pop_swap pop.pop_retry by (auto simp: lf_exec_def)
next
  case (PopTake old)
  then show ?thesis using pop.pop_take pop.pop_take_fault by (cases "heap s old") (auto simp: lf_exec_def)
qed

fun lf_run :: "(tid \<times> nat) list \<Rightarrow> lf_state \<Rightarrow> lf_state" where
  "lf_run [] s = s"
| "lf_run ((t, a) # sch) s = lf_run sch (lf_exec t a s)"

lemma lf_run_reachable: "(\<forall>x\<in>set sch. fst x < T) \<Longrightarrow> (lf_step T)\<^sup>*\<^sup>* s (lf_run sch s)"
proof (induction sch s rule: lf_run.induct)
  case (2 t a sch s)
  then have "lf_exec t a s = s \<or> lf_step T s (lf_exec t a s)"
    using lf_exec_step [of t a s] by (auto simp: lf_step_def)
  moreover have "(lf_step T)\<^sup>*\<^sup>* (lf_exec t a s) (lf_run sch (lf_exec t a s))" using 2 by simp
  ultimately show ?case by (auto intro: converse_rtranclp_into_rtranclp)
qed simp

definition aba_start :: lf_state where
  "aba_start = \<lparr>heap = Map.empty, stack_top = 0,
     lf_ops = (\<lambda>_. [])(0 := [Pop], 1 := [Push 20, Push 10, Pop, Pop, Push 30, Pop]),
     lf_pcs = (\<lambda>_. Idle), popped = [], fault = False\<rparr>"

text \<open>
  Thread 1 pushes nodes 2 and 1; thread 0 reads node 1 and its successor 2 and sleeps; thread 1
  pops and frees both and its next allocation gets address 1 again; thread 0's exchange finds the
  expected address and installs the freed node 2.
\<close>

definition aba_schedule :: "(tid \<times> nat) list" where
  "aba_schedule = replicate 3 (1, 2) @ replicate 3 (1, 1) @ replicate 3 (0, 0) @ replicate 10 (1, 0)
     @ replicate 3 (1, 1) @ replicate 2 (0, 0) @ replicate 3 (1, 0)"

text \<open>A failing allocation is fatal at every moment at which a thread has something left to push.\<close>

lemma push_null_fault: "t < T \<Longrightarrow> lf_pcs s t = Idle \<Longrightarrow> lf_ops s t = Push v # r \<Longrightarrow> \<exists>s'. push_null T s s' \<and> fault s'"
  by (intro exI conjI, rule push_null.intros) simp_all

section \<open>Properties\<close>

text \<open>
  C13. The lock-free stack loses nothing and leaks nothing: however the four pushers interleave,
  weak exchanges failing at any time included, no freed memory is touched and all threads can
  finish; when they have, draining the stack ends, counts exactly 400000 items and leaves an empty
  heap.
\<close>

theorem lockfree_push:
  assumes "(lf_any 4)\<^sup>*\<^sup>* (lf_start 100000) s"
  shows "\<not> fault s \<and> (\<exists>e. (lf_step 4)\<^sup>*\<^sup>* s e \<and> lf_joined 4 e)
    \<and> (lf_joined 4 s \<longrightarrow> drain 0 (heap s) (stack_top s) = Some (400000, Map.empty))"
proof -
  have inv: "lf_inv 4 100000 s" by (rule lf_weak.inv_reachable) fact
  have "drain 0 (heap s) (stack_top s) = Some (400000, Map.empty)" if j: "lf_joined 4 s"
  proof -
    obtain as where as: "chain (heap s) (stack_top s) as" "distinct as" "lf_private s as" "lf_vals 4 100000 s as"
      using inv by (auto simp: lf_inv_def)
    have idle: "lf_pcs s t = Idle" for t
      using inv j by (cases "t < 4") (auto simp: lf_inv_def lf_idle_def lf_joined_def)
    have "mset (vals (heap s) as) = (\<Sum>t<4::nat. mset (map int [0..<100000]))"
      using as(4) j idle by (simp add: lf_vals_def lf_joined_def)
    then have "size (mset (vals (heap s) as)) = size (\<Sum>t<4::nat. mset (map int [0..<100000]))" by (rule arg_cong)
    then have len: "length as = 400000" by (simp add: vals_def size_multiset_sum)
    have "dom (heap s) = set as" using priv_dom [OF as(3)] by (auto simp: idle)
    then have "heap s |` (- set as) = Map.empty" by (auto simp: restrict_map_def fun_eq_iff domIff)
    with drain_chain [OF as(1,2), of 0] len show ?thesis by simp
  qed
  then show ?thesis using inv lf.ends_from [OF inv] by (auto simp: lf_inv_def push_only_def)
qed

theorem lockfree_push_witness:
  "\<exists>s. (lf_any 4)\<^sup>*\<^sup>* (lf_start 100000) s \<and> lf_joined 4 s
     \<and> drain 0 (heap s) (stack_top s) = Some (400000, Map.empty)"
proof -
  obtain e where e: "(lf_step 4)\<^sup>*\<^sup>* (lf_start 100000) e" "lf_joined 4 e"
    using lockfree_push [of "lf_start 100000"] by blast
  then have "(lf_any 4)\<^sup>*\<^sup>* (lf_start 100000) e"
    by (auto elim!: mono_rtranclp [rule_format, rotated] simp: lf_any_def)
  with e(2) show ?thesis using lockfree_push [of e] by blast
qed

text \<open>
  C20. Lock-freedom: if exchanges fail only when the top has changed, the pushers of the lab make
  progress whatever the schedule; no run of them takes more than 5200012 steps.
\<close>

theorem lockfree_bounded:
  assumes "(lf_step 4 ^^ k) (lf_start 100000) s"
  shows "k \<le> 5200012"
  using lf.run_length [OF assms lf_inv_init]
  by (simp add: lf_variant_def lf_start_def lf_rem_def pusher_def)

theorem lockfree_bounded_witness:
  "\<exists>k e. (lf_step 4 ^^ k) (lf_start 100000) e \<and> lf_joined 4 e \<and> k \<le> 5200012"
proof -
  obtain e where "(lf_step 4)\<^sup>*\<^sup>* (lf_start 100000) e" "lf_joined 4 e" using lf.reaches_end by blast
  moreover then obtain k where "(lf_step 4 ^^ k) (lf_start 100000) e" by (blast dest: rtranclp_imp_relpowp)
  ultimately show ?thesis using lockfree_bounded by blast
qed

text \<open>
  C31. With concurrent pops the stack is not safe: there is a schedule of two threads, one popping
  once and the other pushing and popping, in which an exchange succeeds although the stack has
  changed, the top becomes a freed node, and the next pop reads freed memory.
\<close>

theorem aba_fault:
  "\<exists>s. (lf_step 2)\<^sup>*\<^sup>* aba_start s \<and> fault s \<and> stack_top s \<noteq> 0 \<and> heap s (stack_top s) = None"
proof (intro exI conjI)
  show "(lf_step 2)\<^sup>*\<^sup>* aba_start (lf_run aba_schedule aba_start)"
    by (rule lf_run_reachable) (auto simp: aba_schedule_def)
  show "fault (lf_run aba_schedule aba_start)" "stack_top (lf_run aba_schedule aba_start) \<noteq> 0"
    "heap (lf_run aba_schedule aba_start) (stack_top (lf_run aba_schedule aba_start)) = None"
    by (simp_all add: aba_schedule_def aba_start_def lf_exec_def eval_nat_numeral)
qed

end
