(* ===== verification/Rcu.thy ===== *)
theory Rcu
  imports Prelude
begin

text \<open>
  The simplified read-copy-update of \<^verbatim>\<open>labs/lab_36_rcu_lockfree.c\<close>, on an explicit heap of
  \<^verbatim>\<open>data_t\<close> blocks (0 is the null pointer): the program as \<^verbatim>\<open>main\<close> runs it, in
  one thread; \<^verbatim>\<open>malloc\<close> is a parameter that picks a free address, and \<open>None\<close> is an access to
  freed memory.
\<close>

section \<open>The program\<close>

record data_t =
  version :: int
  data_value :: int

record rcu_mem =
  rheap :: "nat \<rightharpoonup> data_t"
  global_data :: nat

type_synonym allocator = "(nat \<rightharpoonup> data_t) \<Rightarrow> nat"

text \<open>What the code relies on of \<^verbatim>\<open>malloc\<close>: it succeeds and returns memory not in use.\<close>

definition good_malloc :: "allocator \<Rightarrow> bool" where
  "good_malloc malloc \<longleftrightarrow> (\<forall>h. finite (dom h) \<longrightarrow> malloc h \<noteq> 0 \<and> h (malloc h) = None)"

definition reader_line :: "int \<Rightarrow> data_t \<Rightarrow> out" where
  "reader_line who d = Printf ''  Reader %d: version=%d value=%d''
     [Num who, Num (version d), Num (data_value d)]"

definition rcu_read :: "int \<Rightarrow> rcu_mem \<Rightarrow> out option" where
  "rcu_read who m = map_option (reader_line who) (rheap m (global_data m))"

definition rcu_update :: "allocator \<Rightarrow> int \<Rightarrow> rcu_mem \<Rightarrow> (rcu_mem \<times> out) option" where
  "rcu_update malloc new_val m =
     (let old = global_data m; p = malloc (rheap m) in
      case rheap m old of None \<Rightarrow> None
      | Some d \<Rightarrow>
          (let new_d = \<lparr>version = version d + 1, data_value = new_val\<rparr> in
           Some (m\<lparr>rheap := (rheap m)(p \<mapsto> new_d, old := None), global_data := p\<rparr>,
                 Printf ''  Writer: updated to version=%d value=%d''
                   [Num (version new_d), Num new_val])))"

definition rcu_init :: "allocator \<Rightarrow> rcu_mem" where
  "rcu_init malloc =
     (let p = malloc Map.empty in \<lparr>rheap = [p \<mapsto> \<lparr>version = 0, data_value = 0\<rparr>], global_data = p\<rparr>)"

text \<open>Phase 4: the generation counter, an \<^verbatim>\<open>unsigned\<close>.\<close>

definition gen_phase :: "rcu_mem \<Rightarrow> out list option" where
  "gen_phase m =
     (case rheap m (global_data m) of None \<Rightarrow> None
      | Some cur \<Rightarrow>
          (let old_gen = 0 :: u32; gen_counter = old_gen + 1; gen_counter' = gen_counter + 1 in
           Some [Printf ''  Current data: version=%d value=%d'' [Num (version cur), Num (data_value cur)],
                 Printf ''  Writer: incremented gen_counter to %u (write in progress)'' [Num (uint (old_gen + 1))],
                 Printf ''  All readers that started before gen=%u must complete before free(old)''
                   [Num (uint (old_gen + 1))],
                 Printf ''  Writer: gen_counter=%u (even=stable, write complete)'' [Num (uint gen_counter')]]))"

definition lab36_main :: "allocator \<Rightarrow> (out list \<times> rcu_mem) option" where
  "lab36_main malloc =
     (let m0 = rcu_init malloc in
      case rcu_read 0 m0 of None \<Rightarrow> None | Some r0 \<Rightarrow>
      case rcu_update malloc 42 m0 of None \<Rightarrow> None | Some (m1, w1) \<Rightarrow>
      case rcu_read 1 m1 of None \<Rightarrow> None | Some r1 \<Rightarrow>
      case rcu_update malloc 99 m1 of None \<Rightarrow> None | Some (m2, w2) \<Rightarrow>
      case rcu_read 2 m2 of None \<Rightarrow> None | Some r2 \<Rightarrow>
      case gen_phase m2 of None \<Rightarrow> None | Some g \<Rightarrow> Some ([r0, w1, r1, w2, r2] @ g, m2))"

section \<open>The sequential program\<close>

definition one_block :: "int \<Rightarrow> int \<Rightarrow> rcu_mem \<Rightarrow> bool" where
  "one_block v x m \<longleftrightarrow> rheap m = [global_data m \<mapsto> \<lparr>version = v, data_value = x\<rparr>]"

lemma init_block: "good_malloc malloc \<Longrightarrow> one_block 0 0 (rcu_init malloc)"
  by (simp add: one_block_def rcu_init_def Let_def)

lemma read_block: "one_block v x m \<Longrightarrow>
    rcu_read who m = Some (Printf ''  Reader %d: version=%d value=%d'' [Num who, Num v, Num x])"
  by (simp add: one_block_def rcu_read_def reader_line_def)

lemma update_block:
  assumes "good_malloc malloc" "one_block v x m"
  obtains m' where "rcu_update malloc y m
      = Some (m', Printf ''  Writer: updated to version=%d value=%d'' [Num (v + 1), Num y])"
    and "one_block (v + 1) y m'"
proof -
  let ?p = "malloc (rheap m)"
  have p: "?p \<noteq> global_data m"
    using assms unfolding good_malloc_def one_block_def by (metis dom_fun_upd dom_empty finite.emptyI finite_insert fun_upd_same option.discI)
  have "rcu_update malloc y m = Some (\<lparr>rheap = [?p \<mapsto> \<lparr>version = v + 1, data_value = y\<rparr>], global_data = ?p\<rparr>,
      Printf ''  Writer: updated to version=%d value=%d'' [Num (v + 1), Num y])"
    using assms(2) p by (simp add: one_block_def rcu_update_def Let_def fun_upd_twist)
  then show ?thesis by (rule that) (simp add: one_block_def)
qed

section \<open>Properties\<close>

text \<open>
  C25. The program of lab 36: whatever memory \<^verbatim>\<open>malloc\<close> returns, no freed block is accessed, the
  three readers print versions 0, 1, 2 with the values 0, 42, 99, the generation counter reports
  1 and 2, and when \<^verbatim>\<open>main\<close> is done the block of version 2 is the only one allocated.
\<close>

theorem rcu_main_output:
  assumes "good_malloc malloc"
  shows "\<exists>m. one_block 2 99 m \<and> lab36_main malloc = Some (
    [Printf ''  Reader %d: version=%d value=%d'' [Num 0, Num 0, Num 0],
     Printf ''  Writer: updated to version=%d value=%d'' [Num 1, Num 42],
     Printf ''  Reader %d: version=%d value=%d'' [Num 1, Num 1, Num 42],
     Printf ''  Writer: updated to version=%d value=%d'' [Num 2, Num 99],
     Printf ''  Reader %d: version=%d value=%d'' [Num 2, Num 2, Num 99],
     Printf ''  Current data: version=%d value=%d'' [Num 2, Num 99],
     Printf ''  Writer: incremented gen_counter to %u (write in progress)'' [Num 1],
     Printf ''  All readers that started before gen=%u must complete before free(old)'' [Num 1],
     Printf ''  Writer: gen_counter=%u (even=stable, write complete)'' [Num 2]], m)"
proof -
  note b0 = init_block [OF assms]
  obtain m1 where u1: "rcu_update malloc 42 (rcu_init malloc)
      = Some (m1, Printf ''  Writer: updated to version=%d value=%d'' [Num (0 + 1), Num 42])"
    and b1: "one_block (0 + 1) 42 m1" by (rule update_block [OF assms b0])
  obtain m2 where u2: "rcu_update malloc 99 m1
      = Some (m2, Printf ''  Writer: updated to version=%d value=%d'' [Num (0 + 1 + 1), Num 99])"
    and b2: "one_block (0 + 1 + 1) 99 m2" by (rule update_block [OF assms b1])
  have "rheap m2 (global_data m2) = Some \<lparr>version = 2, data_value = 99\<rparr>"
    using b2 by (simp add: one_block_def)
  then show ?thesis
    using b2 by (intro exI [of _ m2])
      (simp add: lab36_main_def Let_def read_block [OF b0] read_block [OF b1] read_block [OF b2]
        u1 u2 [simplified] gen_phase_def)
qed

text \<open>An allocator that satisfies the contract: the first address above all blocks in use.\<close>

definition bump :: allocator where
  "bump h = (if dom h = {} then 1 else Suc (Max (dom h)))"

lemma bump_good: "good_malloc bump"
proof -
  have "Suc (Max (dom h)) \<notin> dom h" if "finite (dom h)" for h :: "nat \<rightharpoonup> data_t"
    using that by (metis Max_ge Suc_n_not_le_n)
  then show ?thesis by (auto simp: good_malloc_def bump_def domIff)
qed

theorem rcu_main_output_witness:
  "\<exists>m out. lab36_main bump = Some (out, m) \<and> length out = 9 \<and> one_block 2 99 m"
  using rcu_main_output [OF bump_good] by auto

end
