(* ===== verification/RcuConcurrent.thy ===== *)
theory RcuConcurrent
  imports Rcu
begin

text \<open>
  \<^verbatim>\<open>rcu_read\<close> and \<^verbatim>\<open>rcu_update\<close> of \<^verbatim>\<open>labs/lab_36_rcu_lockfree.c\<close> in concurrent threads, as the comments
  of the lab describe them: any number of readers and one writer, on a memory that is not
  sequentially consistent. The stores of the writer wait in a buffer. Plain stores to different
  locations become visible to the readers in any order; a store with \<^verbatim>\<open>memory_order_release\<close> becomes
  visible after all stores before it. The loads of a reader take effect in program order, the first one
  has \<^verbatim>\<open>memory_order_acquire\<close>. \<^verbatim>\<open>usleep\<close> is all that separates the publication of the new block from the
  release of the old one.
\<close>

section \<open>Memory\<close>

datatype store = StVersion nat int | StValue nat int | StRelease nat

datatype location = LocVersion nat | LocValue nat | LocGlobal

fun location_of :: "store \<Rightarrow> location" where
  "location_of (StVersion p n) = LocVersion p"
| "location_of (StValue p v) = LocValue p"
| "location_of (StRelease p) = LocGlobal"

fun commit :: "store \<Rightarrow> rcu_mem \<Rightarrow> rcu_mem" where
  "commit (StVersion p n) m = m\<lparr>rheap := (rheap m)(p := map_option (\<lambda>d. d\<lparr>version := n\<rparr>) (rheap m p))\<rparr>"
| "commit (StValue p v) m = m\<lparr>rheap := (rheap m)(p := map_option (\<lambda>d. d\<lparr>data_value := v\<rparr>) (rheap m p))\<rparr>"
| "commit (StRelease p) m = m\<lparr>global_data := p\<rparr>"

text \<open>May a store become visible before the stores in front of it in the buffer?\<close>

fun overtakes :: "store \<Rightarrow> store list \<Rightarrow> bool" where
  "overtakes (StRelease p) pre = (pre = [])"
| "overtakes st pre = (\<forall>e\<in>set pre. location_of e \<noteq> location_of st)"

section \<open>Readers and a writer\<close>

datatype rr_pc = RStart | RHold nat | RVersion nat int | RDone

datatype rw_pc = WIdle | WAlloc nat nat | WVersion nat nat | WCopied nat nat | WSleep nat nat int

record rcu_state =
  mem :: rcu_mem
  sbuf :: "store list"
  todo :: "int list"
  wpc :: rw_pc
  rpc :: "nat \<Rightarrow> rr_pc"
  rcu_out :: "out list"
  rcu_fault :: bool

text \<open>Reader \<open>r\<close> loads the pointer, then the two fields of the block behind it.\<close>

inductive reader_step :: "rcu_state \<Rightarrow> rcu_state \<Rightarrow> bool" where
  r_load: "rpc s r = RStart \<Longrightarrow> reader_step s (s\<lparr>rpc := (rpc s)(r := RHold (global_data (mem s)))\<rparr>)"
| r_version: "rpc s r = RHold p \<Longrightarrow> rheap (mem s) p = Some d \<Longrightarrow>
     reader_step s (s\<lparr>rpc := (rpc s)(r := RVersion p (version d))\<rparr>)"
| r_print: "rpc s r = RVersion p n \<Longrightarrow> rheap (mem s) p = Some d \<Longrightarrow>
     reader_step s (s\<lparr>rpc := (rpc s)(r := RDone),
       rcu_out := rcu_out s @ [reader_line (int r) \<lparr>version = n, data_value = data_value d\<rparr>]\<rparr>)"
| r_fault: "rpc s r = RHold p \<or> rpc s r = RVersion p n \<Longrightarrow> rheap (mem s) p = None \<Longrightarrow>
     reader_step s (s\<lparr>rcu_fault := True\<rparr>)"

text \<open>
  What the writer itself loads: the memory with its own stores. It takes the next value of \<open>todo\<close>,
  allocates a block (with unknown contents), stores its fields and publishes it.
\<close>

definition own_view :: "rcu_state \<Rightarrow> rcu_mem" where
  "own_view s = fold commit (sbuf s) (mem s)"

inductive writer_step :: "rcu_state \<Rightarrow> rcu_state \<Rightarrow> bool" where
  w_alloc: "wpc s = WIdle \<Longrightarrow> todo s \<noteq> [] \<Longrightarrow> p \<noteq> 0 \<Longrightarrow> rheap (mem s) p = None \<Longrightarrow>
     writer_step s (s\<lparr>mem := (mem s)\<lparr>rheap := (rheap (mem s))(p \<mapsto> junk)\<rparr>,
                     wpc := WAlloc (global_data (own_view s)) p\<rparr>)"
| w_version: "wpc s = WAlloc old p \<Longrightarrow> rheap (own_view s) old = Some d \<Longrightarrow>
     writer_step s (s\<lparr>sbuf := sbuf s @ [StVersion p (version d + 1)], wpc := WVersion old p\<rparr>)"
| w_fault: "wpc s = WAlloc old p \<Longrightarrow> rheap (own_view s) old = None \<Longrightarrow> writer_step s (s\<lparr>rcu_fault := True\<rparr>)"
| w_value: "wpc s = WVersion old p \<Longrightarrow> todo s = v # vs \<Longrightarrow>
     writer_step s (s\<lparr>sbuf := sbuf s @ [StValue p v], wpc := WCopied old p\<rparr>)"
| w_publish: "wpc s = WCopied old p \<Longrightarrow> todo s = v # vs \<Longrightarrow>
     writer_step s (s\<lparr>sbuf := sbuf s @ [StRelease p], todo := vs, wpc := WSleep old p v\<rparr>)"

inductive commit_step :: "rcu_state \<Rightarrow> rcu_state \<Rightarrow> bool" where
  commit_store: "sbuf s = pre @ st # post \<Longrightarrow> overtakes st pre \<Longrightarrow>
     commit_step s (s\<lparr>mem := commit st (mem s), sbuf := pre @ post\<rparr>)"

text \<open>
  After the sleep the stores have reached the memory, since a thread that is switched out leaves none
  behind; whether the readers are done with the old block is another question.
\<close>

inductive free_step :: "rcu_state \<Rightarrow> rcu_state \<Rightarrow> bool" where
  w_free: "wpc s = WSleep old p v \<Longrightarrow> sbuf s = [] \<Longrightarrow> rheap (mem s) p = Some d \<Longrightarrow>
     free_step s (s\<lparr>mem := (mem s)\<lparr>rheap := (rheap (mem s))(old := None)\<rparr>, wpc := WIdle,
        rcu_out := rcu_out s @ [Printf ''  Writer: updated to version=%d value=%d'' [Num (version d), Num v]]\<rparr>)"

definition rcu_step :: "rcu_state \<Rightarrow> rcu_state \<Rightarrow> bool" where
  "rcu_step s t \<longleftrightarrow> reader_step s t \<or> writer_step s t \<or> commit_step s t \<or> free_step s t"

text \<open>The sleep was long enough: no reader still holds the block that is freed.\<close>

fun holds :: "rr_pc \<Rightarrow> nat \<Rightarrow> bool" where
  "holds (RHold p) q = (p = q)"
| "holds (RVersion p n) q = (p = q)"
| "holds _ q = False"

definition grace :: "rcu_state \<Rightarrow> bool" where
  "grace s \<longleftrightarrow> (\<forall>old p v. wpc s = WSleep old p v \<longrightarrow> (\<forall>r. \<not> holds (rpc s r) old))"

definition rcu_graceful :: "rcu_state \<Rightarrow> rcu_state \<Rightarrow> bool" where
  "rcu_graceful s t \<longleftrightarrow> reader_step s t \<or> writer_step s t \<or> commit_step s t \<or> (free_step s t \<and> grace s)"

definition rcu_start :: "int list \<Rightarrow> rcu_state" where
  "rcu_start ups = \<lparr>mem = \<lparr>rheap = [1 \<mapsto> \<lparr>version = 0, data_value = 0\<rparr>], global_data = 1\<rparr>, sbuf = [], todo = ups,
     wpc = WIdle, rpc = (\<lambda>_. RStart), rcu_out = [], rcu_fault = False\<rparr>"

section \<open>Readers under a sufficient grace period\<close>

text \<open>A block as some update published it (version 0 is the initial block).\<close>

definition published :: "int list \<Rightarrow> data_t \<Rightarrow> bool" where
  "published ups d \<longleftrightarrow> (\<exists>k\<le>length ups. version d = int k \<and> data_value d = (0 # ups) ! k)"

text \<open>A reader's line shows a published block.\<close>

definition line_ok :: "int list \<Rightarrow> out \<Rightarrow> bool" where
  "line_ok ups x \<longleftrightarrow> (\<forall>who v y. x = Printf ''  Reader %d: version=%d value=%d'' [Num who, Num v, Num y]
     \<longrightarrow> published ups \<lparr>version = v, data_value = y\<rparr>)"

text \<open>
  The fields of the new block \<open>p\<close>: each is either in memory or pending. The first flag tells whether
  the value has been stored yet.
\<close>

definition version_stage :: "nat \<Rightarrow> int \<Rightarrow> store list \<Rightarrow> data_t \<Rightarrow> bool" where
  "version_stage p n xs e \<longleftrightarrow> xs = [StVersion p n] \<or> xs = [] \<and> version e = n"

definition value_stage :: "nat \<Rightarrow> int \<Rightarrow> store list \<Rightarrow> data_t \<Rightarrow> bool" where
  "value_stage p v xs e \<longleftrightarrow> xs = [StValue p v] \<or> xs = [] \<and> data_value e = v"

definition new_block :: "nat \<Rightarrow> int \<Rightarrow> int \<Rightarrow> store list \<Rightarrow> data_t \<Rightarrow> bool" where
  "new_block p n v xs e \<longleftrightarrow> (\<exists>a b. xs = a @ b \<and> version_stage p n a e \<and> value_stage p v b e)"

text \<open>Where the writer is in update \<open>k\<close>, while the current block has version \<open>n\<close>.\<close>

definition writer_ok :: "int list \<Rightarrow> nat \<Rightarrow> rcu_state \<Rightarrow> bool" where
  "writer_ok ups k s \<longleftrightarrow> (case wpc s of
       WIdle \<Rightarrow> sbuf s = [] \<and> todo s = drop k ups
     | WAlloc old p \<Rightarrow> sbuf s = [] \<and> todo s = drop k ups \<and> todo s \<noteq> [] \<and> old = global_data (mem s) \<and> p \<noteq> old
         \<and> rheap (mem s) p \<noteq> None
     | WVersion old p \<Rightarrow> todo s = drop k ups \<and> todo s \<noteq> [] \<and> old = global_data (mem s) \<and> p \<noteq> old
         \<and> (\<exists>e. rheap (mem s) p = Some e \<and> version_stage p (int k + 1) (sbuf s) e)
     | WCopied old p \<Rightarrow> todo s = drop k ups \<and> todo s \<noteq> [] \<and> old = global_data (mem s) \<and> p \<noteq> old
         \<and> (\<exists>e. rheap (mem s) p = Some e \<and> new_block p (int k + 1) (ups ! k) (sbuf s) e)
     | WSleep old p v \<Rightarrow>
         sbuf s = [] \<and> todo s = drop k ups \<and> p = global_data (mem s) \<and> old \<noteq> p
       \<or> k < length ups \<and> todo s = drop (Suc k) ups \<and> old = global_data (mem s) \<and> p \<noteq> old
         \<and> (\<exists>e xs. rheap (mem s) p = Some e \<and> sbuf s = xs @ [StRelease p] \<and> new_block p (int k + 1) (ups ! k) xs e))"

text \<open>The block that is allocated and not yet visible.\<close>

definition hidden :: "rcu_state \<Rightarrow> nat \<Rightarrow> bool" where
  "hidden s q \<longleftrightarrow> (case wpc s of WIdle \<Rightarrow> False | WAlloc old p \<Rightarrow> q = p | WVersion old p \<Rightarrow> q = p
     | WCopied old p \<Rightarrow> q = p | WSleep old p v \<Rightarrow> q = p \<and> sbuf s \<noteq> [])"

definition settled :: "int list \<Rightarrow> rcu_state \<Rightarrow> nat \<Rightarrow> data_t \<Rightarrow> bool" where
  "settled ups s q d \<longleftrightarrow> rheap (mem s) q = Some d \<and> published ups d \<and> \<not> hidden s q"

definition reader_ok :: "int list \<Rightarrow> rcu_state \<Rightarrow> rr_pc \<Rightarrow> bool" where
  "reader_ok ups s c \<longleftrightarrow> (case c of
       RHold q \<Rightarrow> (\<exists>d. settled ups s q d)
     | RVersion q n \<Rightarrow> (\<exists>d. settled ups s q d \<and> version d = n)
     | _ \<Rightarrow> True)"

definition rcu_inv :: "int list \<Rightarrow> rcu_state \<Rightarrow> bool" where
  "rcu_inv ups s \<longleftrightarrow> \<not> rcu_fault s \<and> (\<forall>x\<in>set (rcu_out s). line_ok ups x) \<and> (\<forall>r. reader_ok ups s (rpc s r))
     \<and> (\<exists>k d. k \<le> length ups \<and> settled ups s (global_data (mem s)) d \<and> version d = int k \<and> writer_ok ups k s)"

lemma line_ok_reader: "published ups d \<Longrightarrow> line_ok ups (reader_line who d)"
  by (auto simp: line_ok_def reader_line_def published_def)

lemma line_ok_writer: "line_ok ups (Printf ''  Writer: updated to version=%d value=%d'' as)"
  by (simp add: line_ok_def)

lemma published_next: "k < length ups \<Longrightarrow> version d = int k + 1 \<Longrightarrow> data_value d = ups ! k \<Longrightarrow> published ups d"
  unfolding published_def by (intro exI [of _ "Suc k"]) auto

lemma frame_simps [simp]:
  "settled ups (s\<lparr>rpc := x\<rparr>) = settled ups s" "writer_ok ups k (s\<lparr>rpc := x\<rparr>) = writer_ok ups k s"
  "settled ups (s\<lparr>rcu_out := y\<rparr>) = settled ups s" "writer_ok ups k (s\<lparr>rcu_out := y\<rparr>) = writer_ok ups k s"
  "reader_ok ups (s\<lparr>rpc := x\<rparr>) = reader_ok ups s" "reader_ok ups (s\<lparr>rcu_out := y\<rparr>) = reader_ok ups s"
  by (auto simp: settled_def hidden_def writer_ok_def reader_ok_def fun_eq_iff split: rw_pc.splits rr_pc.splits)

text \<open>The invariant after a step that leaves the readers and what they see alone.\<close>

lemma rcu_invE:
  assumes "rcu_inv ups s"
  obtains k d where "k \<le> length ups" "settled ups s (global_data (mem s)) d" "version d = int k" "writer_ok ups k s"
    "\<not> rcu_fault s" "\<And>x. x \<in> set (rcu_out s) \<Longrightarrow> line_ok ups x" "\<And>r. reader_ok ups s (rpc s r)"
  using assms by (auto simp: rcu_inv_def)

lemma rcu_inv_frame:
  assumes "rcu_inv ups s" and "rpc t = rpc s" "rcu_out t = rcu_out s" "rcu_fault t = rcu_fault s"
    and "\<And>r q d. holds (rpc s r) q \<Longrightarrow> settled ups s q d \<Longrightarrow> settled ups t q d"
    and "k \<le> length ups" "settled ups t (global_data (mem t)) d" "version d = int k" "writer_ok ups k t"
  shows "rcu_inv ups t"
proof -
  have "reader_ok ups t (rpc t r)" for r
  proof -
    have "reader_ok ups s (rpc s r)" using assms(1) by (auto elim: rcu_invE)
    then show ?thesis
      using assms(2) assms(5) [of r] by (cases "rpc s r") (auto simp: reader_ok_def)
  qed
  then show ?thesis using assms by (auto simp: rcu_inv_def)
qed

lemma rcu_inv_init: "rcu_inv ups (rcu_start ups)"
  by (auto simp: rcu_inv_def settled_def hidden_def writer_ok_def reader_ok_def rcu_start_def published_def
      intro!: exI [of _ 0])

lemma rcu_inv_reader:
  assumes inv: "rcu_inv ups s" and "reader_step s t"
  shows "rcu_inv ups t"
  using assms(2)
proof cases
  case (r_load r)
  have "reader_ok ups s (RHold (global_data (mem s)))" using inv by (auto simp: rcu_inv_def reader_ok_def)
  then show ?thesis using inv r_load(1) by (auto simp: rcu_inv_def)
next
  case (r_version r p d)
  have "reader_ok ups s (rpc s r)" using inv by (auto simp: rcu_inv_def)
  then have "reader_ok ups s (RVersion p (version d))" using r_version by (auto simp: reader_ok_def settled_def)
  then show ?thesis using inv r_version(1) by (auto simp: rcu_inv_def)
next
  case (r_print r p n d)
  have "reader_ok ups s (rpc s r)" using inv by (auto simp: rcu_inv_def)
  then have "published ups \<lparr>version = n, data_value = data_value d\<rparr>"
    using r_print by (auto simp: reader_ok_def settled_def published_def)
  moreover have "reader_ok ups s RDone" by (simp add: reader_ok_def)
  ultimately show ?thesis using inv r_print(1) line_ok_reader by (auto simp: rcu_inv_def)
next
  case (r_fault r p n)
  have "reader_ok ups s (rpc s r)" using inv by (auto simp: rcu_inv_def)
  then show ?thesis using r_fault by (auto simp: reader_ok_def settled_def)
qed

lemma rcu_inv_writer:
  assumes inv: "rcu_inv ups s" and "writer_step s t"
  shows "rcu_inv ups t"
proof -
  obtain k d where k: "k \<le> length ups" "version d = int k" and cur: "settled ups s (global_data (mem s)) d"
    and w: "writer_ok ups k s" using inv by (auto elim: rcu_invE)
  have next_value: "k < length ups \<and> ups ! k = v \<and> drop (Suc k) ups = vs" if "drop k ups = v # vs" for v vs
    using that by (metis Cons_nth_drop_Suc drop_all linorder_not_le list.discI list.inject)
  show ?thesis
    using assms(2)
  proof cases
    case (w_alloc p junk)
    have "p \<noteq> global_data (mem s)" using cur w_alloc(5) by (auto simp: settled_def)
    then have "writer_ok ups k t" using w w_alloc by (simp add: writer_ok_def own_view_def)
    moreover have "settled ups t q d'" if "settled ups s q d'" for q d'
      using that w_alloc by (auto simp: settled_def hidden_def)
    ultimately show ?thesis using inv k cur w_alloc(1) by (intro rcu_inv_frame [of ups s t k d]) auto
  next
    case (w_version old p d')
    have "d' = d" using w w_version cur by (simp add: writer_ok_def own_view_def settled_def)
    then have "writer_ok ups k t"
      using w w_version(1,2) k(2) by (auto simp: writer_ok_def version_stage_def)
    moreover have "settled ups t q d'" if "settled ups s q d'" for q d'
      using that w_version by (auto simp: settled_def hidden_def)
    ultimately show ?thesis using inv k cur w_version(1) by (intro rcu_inv_frame [of ups s t k d]) auto
  next
    case (w_fault old p)
    then show ?thesis using w cur by (simp add: writer_ok_def own_view_def settled_def)
  next
    case (w_value old p v vs)
    have "writer_ok ups k t"
      using w w_value(1-3) next_value [of v vs]
      by (auto simp: writer_ok_def new_block_def value_stage_def)
    moreover have "settled ups t q d'" if "settled ups s q d'" for q d'
      using that w_value by (auto simp: settled_def hidden_def)
    ultimately show ?thesis using inv k cur w_value(1) by (intro rcu_inv_frame [of ups s t k d]) auto
  next
    case (w_publish old p v vs)
    have "writer_ok ups k t"
      using w w_publish(1-3) next_value [of v vs] by (auto simp: writer_ok_def)
    moreover have "settled ups t q d'" if "settled ups s q d'" for q d'
      using that w_publish by (auto simp: settled_def hidden_def)
    ultimately show ?thesis using inv k cur w_publish(1) by (intro rcu_inv_frame [of ups s t k d]) auto
  qed
qed

lemma rcu_inv_free:
  assumes inv: "rcu_inv ups s" and "free_step s t" "grace s"
  shows "rcu_inv ups t"
  using assms(2)
proof cases
  case (w_free old p v d')
  obtain k d where k: "k \<le> length ups" "version d = int k" and cur: "settled ups s (global_data (mem s)) d"
    and w: "writer_ok ups k s" using inv by (auto elim: rcu_invE)
  let ?t = "t\<lparr>rcu_out := rcu_out s\<rparr>"
  have ne: "old \<noteq> global_data (mem s)" using w w_free(2,3) by (simp add: writer_ok_def)
  have "\<not> holds (rpc s r) old" for r using assms(3) w_free(2) by (simp add: grace_def)
  then have "settled ups ?t q e" if "holds (rpc s r) q" "settled ups s q e" for r q e
    using that w_free(1) by (auto simp: settled_def hidden_def)
  moreover have "settled ups ?t (global_data (mem ?t)) d" using cur ne w_free(1) by (auto simp: settled_def hidden_def)
  moreover have "writer_ok ups k ?t" using w w_free by (simp add: writer_ok_def)
  ultimately have "rcu_inv ups ?t" using inv k w_free(1) by (intro rcu_inv_frame [of ups s ?t k d]) auto
  then show ?thesis using w_free(1) line_ok_writer by (auto simp: rcu_inv_def)
qed

text \<open>A pending plain store goes to the hidden block, and making it visible keeps the writer's stage.\<close>

lemma commit_new_block:
  assumes "new_block p n v xs e" "xs = pre @ st # post"
  shows "\<exists>e'. new_block p n v (pre @ post) e' \<and>
    (\<forall>m. rheap m p = Some e \<longrightarrow> commit st m = m\<lparr>rheap := (rheap m)(p \<mapsto> e')\<rparr>)"
proof -
  have "st = StVersion p n \<and> (pre = [] \<and> post = [] \<and> data_value e = v \<or> pre = [] \<and> post = [StValue p v])
      \<or> st = StValue p v \<and> (pre = [] \<and> post = [] \<and> version e = n \<or> pre = [StVersion p n] \<and> post = [])"
    using assms unfolding new_block_def version_stage_def value_stage_def
    by (auto simp: append_eq_Cons_conv Cons_eq_append_conv)
  then show ?thesis
  proof (elim disjE conjE)
    assume "st = StVersion p n" "pre = []" "post = []" "data_value e = v"
    then show ?thesis
      by (intro exI [of _ "e\<lparr>version := n\<rparr>"]) (auto simp: new_block_def version_stage_def value_stage_def)
  next
    assume "st = StVersion p n" "pre = []" "post = [StValue p v]"
    then show ?thesis
      by (intro exI [of _ "e\<lparr>version := n\<rparr>"]) (auto simp: new_block_def version_stage_def value_stage_def)
  next
    assume "st = StValue p v" "pre = []" "post = []" "version e = n"
    then show ?thesis
      by (intro exI [of _ "e\<lparr>data_value := v\<rparr>"]) (auto simp: new_block_def version_stage_def value_stage_def)
  next
    assume "st = StValue p v" "pre = [StVersion p n]" "post = []"
    then show ?thesis
      by (intro exI [of _ "e\<lparr>data_value := v\<rparr>"])
        (auto simp: new_block_def version_stage_def value_stage_def intro: exI [of _ "[StVersion p n]"])
  qed
qed

lemma rcu_inv_plain:
  assumes inv: "rcu_inv ups s" and k: "k \<le> length ups" "version d = int k" "settled ups s (global_data (mem s)) d"
    and t: "t = s\<lparr>mem := commit st (mem s), sbuf := pre @ post\<rparr>"
    and c: "commit st (mem s) = (mem s)\<lparr>rheap := (rheap (mem s))(p \<mapsto> e')\<rparr>" and h: "hidden s p"
    and buf: "sbuf s \<noteq> []" and w: "writer_ok ups k t"
  shows "rcu_inv ups t"
proof -
  have "settled ups t q d'" if "settled ups s q d'" for q d'
  proof -
    have "q \<noteq> p" using that h by (auto simp: settled_def)
    moreover have "hidden t q \<Longrightarrow> hidden s q" using t buf by (auto simp: hidden_def split: rw_pc.splits)
    ultimately show ?thesis using that t c by (auto simp: settled_def)
  qed
  then show ?thesis using inv k w t c by (intro rcu_inv_frame [of ups s t k d]) auto
qed

lemma rcu_inv_commit:
  assumes inv: "rcu_inv ups s" and "commit_step s t"
  shows "rcu_inv ups t"
  using assms(2)
proof cases
  case (commit_store pre st post)
  obtain k d where k: "k \<le> length ups" "version d = int k" "settled ups s (global_data (mem s)) d"
    and w: "writer_ok ups k s" using inv by (auto elim: rcu_invE)
  note plain = rcu_inv_plain [OF inv k commit_store(1)]
  show ?thesis
  proof (cases "wpc s")
    case (WVersion old p)
    then obtain e where "rheap (mem s) p = Some e" "st = StVersion p (int k + 1)" "pre = []" "post = []"
      using w commit_store(2) by (auto simp: writer_ok_def version_stage_def append_eq_Cons_conv Cons_eq_append_conv)
    then show ?thesis
      using w commit_store WVersion
      by (intro plain [of p "e\<lparr>version := int k + 1\<rparr>"]) (auto simp: writer_ok_def version_stage_def hidden_def)
  next
    case (WCopied old p)
    then obtain e where e: "rheap (mem s) p = Some e" "new_block p (int k + 1) (ups ! k) (sbuf s) e"
      using w by (auto simp: writer_ok_def)
    obtain e' where e': "new_block p (int k + 1) (ups ! k) (pre @ post) e'"
      "commit st (mem s) = (mem s)\<lparr>rheap := (rheap (mem s))(p \<mapsto> e')\<rparr>"
      using commit_new_block [OF e(2) commit_store(2)] e(1) by blast
    then show ?thesis
      using w commit_store WCopied e by (intro plain [of p e']) (auto simp: writer_ok_def hidden_def)
  next
    case (WSleep old p v)
    then obtain e xs where todo: "k < length ups" "todo s = drop (Suc k) ups" and ne: "old = global_data (mem s)" "p \<noteq> old"
      and e: "rheap (mem s) p = Some e" "sbuf s = xs @ [StRelease p]" "new_block p (int k + 1) (ups ! k) xs e"
      using w commit_store(2) by (auto simp: writer_ok_def)
    show ?thesis
    proof (cases post rule: rev_cases)
      case Nil
      then have st: "st = StRelease p" "pre = xs" using e(2) commit_store(2) by auto
      then have front: "pre = []" using commit_store(3) by simp
      then have pub: "version e = int k + 1" "data_value e = ups ! k"
        using e(3) st by (auto simp: new_block_def version_stage_def value_stage_def)
      have t: "t = s\<lparr>mem := (mem s)\<lparr>global_data := p\<rparr>, sbuf := []\<rparr>" using commit_store(1) st front Nil by simp
      have "settled ups t p e"
        using t e(1) published_next [OF todo(1) pub] WSleep by (simp add: settled_def hidden_def)
      moreover have "writer_ok ups (Suc k) t" using t WSleep todo ne by (simp add: writer_ok_def)
      moreover have "settled ups t q d'" if "settled ups s q d'" for q d'
        using that t WSleep by (simp add: settled_def hidden_def)
      ultimately show ?thesis
        using inv t pub todo by (intro rcu_inv_frame [of ups s t "Suc k" e]) auto
    next
      case (snoc ys y)
      then have xs: "xs = pre @ st # ys" "y = StRelease p" using e(2) commit_store(2) by auto
      obtain e' where e': "new_block p (int k + 1) (ups ! k) (pre @ ys) e'"
        "commit st (mem s) = (mem s)\<lparr>rheap := (rheap (mem s))(p \<mapsto> e')\<rparr>"
        using commit_new_block [OF e(3) xs(1)] e(1) by blast
      then show ?thesis
        using commit_store(1,2) WSleep todo ne snoc xs(2)
        by (intro plain [of p e']) (auto simp: writer_ok_def hidden_def)
    qed
  qed (use w commit_store(2) in \<open>auto simp: writer_ok_def\<close>)
qed

interpretation rcu: invariant_system "rcu_start ups" rcu_graceful "rcu_inv ups" for ups
  by unfold_locales
    (auto simp: rcu_graceful_def intro: rcu_inv_init rcu_inv_reader rcu_inv_writer rcu_inv_commit rcu_inv_free)

text \<open>An update that runs until its block is visible: the new block is complete.\<close>

definition update_step :: "rcu_state \<Rightarrow> rcu_state \<Rightarrow> bool" where
  "update_step s t \<longleftrightarrow> writer_step s t \<or> commit_step s t"

lemma update_visible:
  assumes "wpc s = WIdle" "sbuf s = []" "todo s = [v]" "rheap (mem s) (global_data (mem s)) = Some d"
    and p: "p \<noteq> 0" "rheap (mem s) p = None"
  shows "update_step\<^sup>*\<^sup>* s (s\<lparr>todo := [], wpc := WSleep (global_data (mem s)) p v,
      mem := (mem s)\<lparr>rheap := (rheap (mem s))(p \<mapsto> \<lparr>version = version d + 1, data_value = v\<rparr>), global_data := p\<rparr>,
      sbuf := []\<rparr>)"
proof -
  let ?g = "global_data (mem s)" and ?n = "version d + 1"
  let ?m = "\<lambda>e. (mem s)\<lparr>rheap := (rheap (mem s))(p \<mapsto> e)\<rparr>"
  let ?s1 = "s\<lparr>mem := ?m \<lparr>version = 0, data_value = 0\<rparr>, wpc := WAlloc ?g p\<rparr>"
  let ?s2 = "?s1\<lparr>sbuf := [StVersion p ?n], wpc := WVersion ?g p\<rparr>"
  let ?s3 = "?s1\<lparr>sbuf := [StVersion p ?n, StValue p v], wpc := WCopied ?g p\<rparr>"
  let ?s4 = "?s1\<lparr>sbuf := [StVersion p ?n, StValue p v, StRelease p], todo := [], wpc := WSleep ?g p v\<rparr>"
  let ?s5 = "?s4\<lparr>mem := ?m \<lparr>version = 0, data_value = v\<rparr>, sbuf := [StVersion p ?n, StRelease p]\<rparr>"
  let ?s6 = "?s4\<lparr>mem := ?m \<lparr>version = ?n, data_value = v\<rparr>, sbuf := [StRelease p]\<rparr>"
  have ne: "p \<noteq> ?g" using assms by auto
  have "update_step s ?s1"
    using writer_step.w_alloc [of s p "\<lparr>version = 0, data_value = 0\<rparr>"] assms by (simp add: update_step_def own_view_def)
  moreover have "update_step ?s1 ?s2"
    using writer_step.w_version [of ?s1 ?g p d] assms ne by (simp add: update_step_def own_view_def)
  moreover have "update_step ?s2 ?s3"
    using writer_step.w_value [of ?s2 ?g p v "[]"] assms by (simp add: update_step_def)
  moreover have "update_step ?s3 ?s4"
    using writer_step.w_publish [of ?s3 ?g p v "[]"] assms by (simp add: update_step_def)
  moreover have "update_step ?s4 ?s5"
    using commit_step.commit_store [of ?s4 "[StVersion p ?n]" "StValue p v" "[StRelease p]"] by (simp add: update_step_def)
  moreover have "update_step ?s5 ?s6"
    using commit_step.commit_store [of ?s5 "[]" "StVersion p ?n" "[StRelease p]"] by (simp add: update_step_def)
  moreover have "update_step ?s6 (?s6\<lparr>mem := (mem ?s6)\<lparr>global_data := p\<rparr>, sbuf := []\<rparr>)"
    using commit_step.commit_store [of ?s6 "[]" "StRelease p" "[]"] by (simp add: update_step_def)
  ultimately have "update_step\<^sup>*\<^sup>* s (?s6\<lparr>mem := (mem ?s6)\<lparr>global_data := p\<rparr>, sbuf := []\<rparr>)"
    by (meson converse_rtranclp_into_rtranclp rtranclp.rtrancl_refl)
  then show ?thesis by simp
qed

lemma update_runs: "update_step\<^sup>*\<^sup>* s t \<Longrightarrow> rcu_graceful\<^sup>*\<^sup>* s t" "update_step\<^sup>*\<^sup>* s t \<Longrightarrow> rcu_step\<^sup>*\<^sup>* s t"
  by (auto elim!: mono_rtranclp [rule_format, rotated] simp: update_step_def rcu_graceful_def rcu_step_def)

section \<open>Properties\<close>

text \<open>
  C17. If the sleep of the writer outlasts every reader that holds the old block, concurrent readers
  never touch freed memory, and whatever the interleaving, and in whatever order the memory makes the
  plain stores visible, each prints a version together with the value of that same version.
\<close>

theorem rcu_grace_safe:
  assumes "rcu_graceful\<^sup>*\<^sup>* (rcu_start ups) s"
  shows "\<not> rcu_fault s \<and> (\<forall>who v y.
    Printf ''  Reader %d: version=%d value=%d'' [Num who, Num v, Num y] \<in> set (rcu_out s) \<longrightarrow>
    (\<exists>k\<le>length ups. v = int k \<and> y = (0 # ups) ! k))"
  using rcu.inv_reachable [OF assms]
  by (auto simp: rcu_inv_def line_ok_def published_def)

definition demo_reads :: "int \<Rightarrow> rr_pc \<Rightarrow> rcu_state" where
  "demo_reads v c = \<lparr>mem = \<lparr>rheap = [1 \<mapsto> \<lparr>version = 0, data_value = 0\<rparr>, 2 \<mapsto> \<lparr>version = 1, data_value = v\<rparr>],
       global_data = 2\<rparr>, sbuf = [], todo = [], wpc = WSleep 1 2 v, rpc = (\<lambda>_. RStart)(0 := c),
     rcu_out = [], rcu_fault = False\<rparr>"

lemma demo_run: "update_step\<^sup>*\<^sup>* ((rcu_start [v])\<lparr>rpc := (\<lambda>_. RStart)(0 := c)\<rparr>) (demo_reads v c)"
  using update_visible [of "(rcu_start [v])\<lparr>rpc := (\<lambda>_. RStart)(0 := c)\<rparr>" v "\<lparr>version = 0, data_value = 0\<rparr>" 2]
  by (simp add: rcu_start_def demo_reads_def fun_upd_twist)

theorem rcu_grace_safe_witness:
  "\<exists>s. rcu_graceful\<^sup>*\<^sup>* (rcu_start [42]) s \<and> \<not> rcu_fault s
     \<and> reader_line 0 \<lparr>version = 1, data_value = 42\<rparr> \<in> set (rcu_out s)"
proof -
  let ?s1 = "demo_reads 42 RStart" and ?s2 = "demo_reads 42 (RHold 2)" and ?s3 = "demo_reads 42 (RVersion 2 1)"
  let ?s4 = "(demo_reads 42 RDone)\<lparr>rcu_out := [reader_line 0 \<lparr>version = 1, data_value = 42\<rparr>]\<rparr>"
  have "rcu_graceful\<^sup>*\<^sup>* (rcu_start [42]) ?s1"
    using update_runs(1) [OF demo_run [of RStart 42]] by (simp add: rcu_start_def fun_upd_idem)
  moreover have "rcu_graceful ?s1 ?s2"
    using reader_step.r_load [of ?s1 0] by (simp add: rcu_graceful_def demo_reads_def)
  moreover have "rcu_graceful ?s2 ?s3"
    using reader_step.r_version [of ?s2 0 2 "\<lparr>version = 1, data_value = 42\<rparr>"]
    by (simp add: rcu_graceful_def demo_reads_def)
  moreover have "rcu_graceful ?s3 ?s4"
    using reader_step.r_print [of ?s3 0 2 1 "\<lparr>version = 1, data_value = 42\<rparr>"]
    by (simp add: rcu_graceful_def demo_reads_def)
  ultimately have "rcu_graceful\<^sup>*\<^sup>* (rcu_start [42]) ?s4" by (meson rtranclp.rtrancl_into_rtrancl)
  then show ?thesis using rcu_grace_safe [of "[42]" ?s4] by (intro exI [of _ ?s4]) simp
qed

text \<open>
  C32. The sleep does not check that: a reader that is delayed between loading the pointer and
  reading the block, for longer than the 100 milliseconds, reads freed memory.
\<close>

theorem rcu_use_after_free:
  "\<exists>s. rcu_step\<^sup>*\<^sup>* (rcu_start [42]) s \<and> rcu_fault s"
proof -
  let ?s0 = "rcu_start [42]" and ?s2 = "demo_reads 42 (RHold 1)"
  let ?s1 = "?s0\<lparr>rpc := (\<lambda>_. RStart)(0 := RHold 1)\<rparr>"
  let ?s3 = "?s2\<lparr>mem := (mem ?s2)\<lparr>rheap := (rheap (mem ?s2))(1 := None)\<rparr>, wpc := WIdle,
     rcu_out := [Printf ''  Writer: updated to version=%d value=%d'' [Num 1, Num 42]]\<rparr>"
  have "rcu_step ?s0 ?s1" using reader_step.r_load [of ?s0 0] by (simp add: rcu_step_def rcu_start_def)
  moreover have "rcu_step\<^sup>*\<^sup>* ?s1 ?s2" by (rule update_runs(2) [OF demo_run])
  moreover have "rcu_step ?s2 ?s3"
    using free_step.w_free [of ?s2 1 2 42 "\<lparr>version = 1, data_value = 42\<rparr>"] by (simp add: rcu_step_def demo_reads_def)
  moreover have "rcu_step ?s3 (?s3\<lparr>rcu_fault := True\<rparr>)"
    using reader_step.r_fault [of ?s3 0 1] by (simp add: rcu_step_def demo_reads_def)
  ultimately have "rcu_step\<^sup>*\<^sup>* ?s0 (?s3\<lparr>rcu_fault := True\<rparr>)"
    by (meson rtranclp.rtrancl_into_rtrancl converse_rtranclp_into_rtranclp)
  then show ?thesis by (intro exI conjI) (assumption, simp)
qed

end
