(* ===== verification/Futex.thy ===== *)
theory Futex
  imports Prelude
begin

text \<open>
  The futex hand-over of \<^verbatim>\<open>labs/lab_25_sync_primitives.c\<close>: a sleeper that waits until
  \<^verbatim>\<open>futex_val\<close> is 1 and a main thread that stores 1 and wakes it. The kernel's part is the
  documented behaviour of \<^verbatim>\<open>FUTEX_WAIT\<close>, which compares the value and starts to sleep in one
  step and returns at once if they differ, and of \<^verbatim>\<open>FUTEX_WAKE\<close>. A wait may also return without a
  wake-up (a signal): the relation \<open>fx_spurious\<close>.
\<close>

section \<open>The two threads\<close>

datatype fs_pc = FsStart | FsLoad | FsCall | FsQueued | FsReport | FsExit

datatype fm_pc = FmStart | FmStore | FmWake | FmJoin | FmDone

record fx_state =
  futex_val :: int
  fs :: fs_pc
  fm :: fm_pc
  fx_out :: "out list"

definition fx_start :: fx_state where
  "fx_start = \<lparr>futex_val = 0, fs = FsStart, fm = FmStart, fx_out = []\<rparr>"

text \<open>The call \<^verbatim>\<open>futex_wait(&futex_val, expected)\<close>.\<close>

inductive futex_wait :: "int \<Rightarrow> fx_state \<Rightarrow> fx_state \<Rightarrow> bool" where
  sleeps: "fs s = FsCall \<Longrightarrow> futex_val s = expected \<Longrightarrow> futex_wait expected s (s\<lparr>fs := FsQueued\<rparr>)"
| again: "fs s = FsCall \<Longrightarrow> futex_val s \<noteq> expected \<Longrightarrow> futex_wait expected s (s\<lparr>fs := FsLoad\<rparr>)"

inductive sleeper :: "fx_state \<Rightarrow> fx_state \<Rightarrow> bool" where
  s_start: "fs s = FsStart \<Longrightarrow>
     sleeper s (s\<lparr>fs := FsLoad,
       fx_out := fx_out s @ [Printf ''  Sleeper: waiting for futex_val to become 1...'' []]\<rparr>)"
| s_zero: "fs s = FsLoad \<Longrightarrow> futex_val s = 0 \<Longrightarrow> sleeper s (s\<lparr>fs := FsCall\<rparr>)"
| s_set: "fs s = FsLoad \<Longrightarrow> futex_val s \<noteq> 0 \<Longrightarrow> sleeper s (s\<lparr>fs := FsReport\<rparr>)"
| s_wait: "futex_wait 0 s t \<Longrightarrow> sleeper s t"
| s_report: "fs s = FsReport \<Longrightarrow>
     sleeper s (s\<lparr>fs := FsExit,
       fx_out := fx_out s @ [Printf ''  Sleeper: woke up! futex_val=%d'' [Num (futex_val s)]]\<rparr>)"

text \<open>The call \<^verbatim>\<open>futex_wake(&futex_val, 1)\<close> wakes the sleeper if it sleeps.\<close>

definition futex_wake :: "fx_state \<Rightarrow> fx_state" where
  "futex_wake s = (if fs s = FsQueued then s\<lparr>fs := FsLoad\<rparr> else s)"

inductive fx_main :: "fx_state \<Rightarrow> fx_state \<Rightarrow> bool" where
  m_print: "fm s = FmStart \<Longrightarrow>
     fx_main s (s\<lparr>fm := FmStore,
       fx_out := fx_out s @ [Printf ''  Main: setting futex_val=1 and waking sleeper'' []]\<rparr>)"
| m_store: "fm s = FmStore \<Longrightarrow> fx_main s (s\<lparr>futex_val := 1, fm := FmWake\<rparr>)"
| m_wake: "fm s = FmWake \<Longrightarrow> fx_main s ((futex_wake s)\<lparr>fm := FmJoin\<rparr>)"
| m_join: "fm s = FmJoin \<Longrightarrow> fs s = FsExit \<Longrightarrow> fx_main s (s\<lparr>fm := FmDone\<rparr>)"

definition fx_step :: "fx_state \<Rightarrow> fx_state \<Rightarrow> bool" where
  "fx_step s t \<longleftrightarrow> sleeper s t \<or> fx_main s t"

inductive fx_spurious :: "fx_state \<Rightarrow> fx_state \<Rightarrow> bool" where
  interrupted: "fs s = FsQueued \<Longrightarrow> fx_spurious s (s\<lparr>fs := FsLoad\<rparr>)"

definition fx_any :: "fx_state \<Rightarrow> fx_state \<Rightarrow> bool" where
  "fx_any s t \<longleftrightarrow> fx_step s t \<or> fx_spurious s t"

text \<open>Phase 4: publish with release, read with acquire, and again with the default ordering.\<close>

definition publish_phase :: "out list" where
  "publish_phase =
     (let protected_data = 12345; lock_flag = (1 :: int);
          first = (if lock_flag \<noteq> 0
            then [Printf ''  acquire/release: data=%ld  (release-store guarantees visibility)'' [Num protected_data]]
            else []);
          lock_flag = (0 :: int); protected_data = 99999; lock_flag = (1 :: int);
          second = (if lock_flag \<noteq> 0
            then [Printf ''  seq_cst:          data=%ld  (stronger guarantee, higher cost on ARM)'' [Num protected_data]]
            else [])
      in first @ second)"

definition lab25_main :: "fx_state \<Rightarrow> out list" where
  "lab25_main s = fx_out s @ publish_phase"

section \<open>Invariant and variant\<close>

definition fx_inv :: "fx_state \<Rightarrow> bool" where
  "fx_inv s \<longleftrightarrow> (futex_val s = (if fm s = FmStart \<or> fm s = FmStore then 0 else 1))
     \<and> (fs s = FsQueued \<longrightarrow> fm s = FmStart \<or> fm s = FmStore \<or> fm s = FmWake)
     \<and> (fs s = FsReport \<or> fs s = FsExit \<longrightarrow> futex_val s = 1)
     \<and> (fs s = FsExit \<longrightarrow> Printf ''  Sleeper: woke up! futex_val=%d'' [Num 1] \<in> set (fx_out s))
     \<and> (fm s = FmDone \<longrightarrow> fs s = FsExit)"

fun fs_rank :: "fs_pc \<Rightarrow> nat" where
  "fs_rank FsStart = 6"
| "fs_rank FsLoad = 5"
| "fs_rank FsCall = 4"
| "fs_rank FsQueued = 3"
| "fs_rank FsReport = 1"
| "fs_rank FsExit = 0"

fun fm_rank :: "fm_pc \<Rightarrow> nat" where
  "fm_rank FmStart = 13"
| "fm_rank FmStore = 12"
| "fm_rank FmWake = 8"
| "fm_rank FmJoin = 1"
| "fm_rank FmDone = 0"

text \<open>Before the store the sleeper may go round once more than after it.\<close>

definition fx_variant :: "fx_state \<Rightarrow> nat" where
  "fx_variant s = fm_rank (fm s) + fs_rank (fs s) + (if fs s = FsCall \<and> futex_val s \<noteq> 0 then 2 else 0)"

lemma fx_inv_step: "fx_inv s \<Longrightarrow> fx_step s t \<Longrightarrow> fx_inv t"
  unfolding fx_step_def
  by (elim disjE sleeper.cases futex_wait.cases fx_main.cases)
    (auto simp: fx_inv_def futex_wake_def split: if_splits)

lemma fx_decreases: "fx_inv s \<Longrightarrow> fx_step s t \<Longrightarrow> fx_variant t < fx_variant s"
  unfolding fx_step_def
  by (elim disjE sleeper.cases futex_wait.cases fx_main.cases)
    (auto simp: fx_inv_def fx_variant_def futex_wake_def split: if_splits)

lemma fx_progress:
  assumes inv: "fx_inv s" and run: "fm s \<noteq> FmDone"
  shows "\<exists>t. fx_step s t"
proof (cases "fm s")
  case FmJoin
  show ?thesis
  proof (cases "fs s")
    case FsLoad
    then show ?thesis unfolding fx_step_def by (blast intro: sleeper.s_zero sleeper.s_set)
  next
    case FsCall
    then show ?thesis unfolding fx_step_def by (blast intro: sleeper.s_wait futex_wait.intros)
  next
    case FsQueued
    then show ?thesis using inv FmJoin by (simp add: fx_inv_def)
  next
    case FsStart
    then show ?thesis unfolding fx_step_def by (blast intro: sleeper.s_start)
  next
    case FsReport
    then show ?thesis unfolding fx_step_def by (blast intro: sleeper.s_report)
  next
    case FsExit
    then show ?thesis unfolding fx_step_def using FmJoin by (blast intro: fx_main.m_join)
  qed
next
  case FmDone
  then show ?thesis using run by blast
next
  case FmStart
  then show ?thesis unfolding fx_step_def by (blast intro: fx_main.m_print)
next
  case FmStore
  then show ?thesis unfolding fx_step_def by (blast intro: fx_main.m_store)
next
  case FmWake
  then show ?thesis unfolding fx_step_def by (blast intro: fx_main.m_wake)
qed

interpretation fx: ending_system fx_start fx_step fx_inv "\<lambda>s. fm s = FmDone" fx_variant
proof
  show "fx_inv fx_start" by (simp add: fx_inv_def fx_start_def)
qed (fact fx_inv_step fx_progress fx_decreases)+

interpretation fx_intr: invariant_system fx_start fx_any fx_inv
proof
  show "fx_inv fx_start" by (fact fx.inv_start)
  show "fx_inv t" if "fx_inv s" "fx_any s t" for s t
  proof -
    have "fx_inv t" if "fx_spurious s t" using that \<open>fx_inv s\<close> by cases (auto simp: fx_inv_def)
    with that show ?thesis unfolding fx_any_def using fx_inv_step by blast
  qed
qed

section \<open>Property\<close>

text \<open>
  C18. The futex hand-over loses no wake-up: whatever the interleaving of the sleeper and the main
  thread, and whether or not waits are interrupted, the run can always be completed; when it is,
  the sleeper has reported \<open>futex_val=1\<close>. Without interruptions every schedule ends within 19 steps.
\<close>

theorem futex_no_lost_wakeup:
  assumes "fx_any\<^sup>*\<^sup>* fx_start s"
  shows "(\<exists>e. fx_step\<^sup>*\<^sup>* s e \<and> fm e = FmDone)
    \<and> (fm s = FmDone \<longrightarrow> Printf ''  Sleeper: woke up! futex_val=%d'' [Num 1] \<in> set (lab25_main s))
    \<and> (\<forall>n e. (fx_step ^^ n) fx_start e \<longrightarrow> n \<le> 19)"
proof -
  have inv: "fx_inv s" by (rule fx_intr.inv_reachable) fact
  have "n \<le> 19" if "(fx_step ^^ n) fx_start e" for n e
    using fx.run_length [OF that fx.inv_start] by (simp add: fx_variant_def fx_start_def)
  then show ?thesis using inv fx.ends_from [OF inv] by (auto simp: fx_inv_def lab25_main_def)
qed

theorem futex_no_lost_wakeup_witness:
  "\<exists>e. fx_any\<^sup>*\<^sup>* fx_start e \<and> fm e = FmDone
     \<and> Printf ''  Sleeper: woke up! futex_val=%d'' [Num 1] \<in> set (lab25_main e)"
proof -
  obtain e where e: "fx_step\<^sup>*\<^sup>* fx_start e" "fm e = FmDone" using futex_no_lost_wakeup [of fx_start] by blast
  then have "fx_any\<^sup>*\<^sup>* fx_start e" by (auto elim!: mono_rtranclp [rule_format, rotated] simp: fx_any_def)
  with e(2) show ?thesis using futex_no_lost_wakeup [of e] by blast
qed

end
