(* ===== verification/DemandPaging.thy ===== *)
theory DemandPaging
  imports Prelude
begin

text \<open>
  Memory scans. The first part has the loop every memory lab uses,
  \<^verbatim>\<open>for (i = 0; i < size; i += stride) ... mem[i] ...\<close>, over memory as a function from offsets to
  bytes, which \<^verbatim>\<open>mmap\<close> returns filled with zeros and \<^verbatim>\<open>memset\<close> overwrites. The second part is the
  whole of \<^verbatim>\<open>labs/demand_paging.c\<close>: page size, mapping, read phase, write phase, warm scan, with
  standard input consumed by \<^verbatim>\<open>wait_for_enter\<close>. The page size, the process number and the results
  of \<^verbatim>\<open>mmap\<close> and \<^verbatim>\<open>munmap\<close> are the system's.
\<close>

section \<open>Memory and strided loops\<close>

type_synonym memory = "nat \<Rightarrow> u8"

definition zero_pages :: memory where
  "zero_pages = (\<lambda>_. 0)"

definition memset :: "nat \<Rightarrow> u8 \<Rightarrow> nat \<Rightarrow> memory \<Rightarrow> memory" where
  "memset off v len m = (\<lambda>i. if off \<le> i \<and> i < off + len then v else m i)"

text \<open>The offsets of \<^verbatim>\<open>for (i = start; i < size; i += stride)\<close>, for a positive stride.\<close>

function offsets :: "nat \<Rightarrow> nat \<Rightarrow> nat \<Rightarrow> nat list" where
  "offsets i stride sz = (if i < sz \<and> 0 < stride then i # offsets (i + stride) stride sz else [])"
  by pat_completeness auto
termination
  by (relation "measure (\<lambda>(i, stride, sz). sz - i)") auto

declare offsets.simps [simp del]

text \<open>Summing bytes into a \<^verbatim>\<open>uint64_t\<close>, and \<^verbatim>\<open>char\<close> values (signed on x86) into a \<^verbatim>\<open>long\<close>.\<close>

definition scan_u8 :: "memory \<Rightarrow> nat list \<Rightarrow> u64 \<Rightarrow> u64" where
  "scan_u8 m os c = fold (\<lambda>i c. c + ucast (m i)) os c"

definition scan_char :: "memory \<Rightarrow> nat list \<Rightarrow> int \<Rightarrow> int" where
  "scan_char m os c = fold (\<lambda>i c. c + sint (m i)) os c"

lemma offsets_multiple: "0 < st \<Longrightarrow> offsets (k * st) st (n * st) = map (\<lambda>j. j * st) [k..<n]"
proof (induction "n - k" arbitrary: k)
  case 0
  then show ?case by (subst offsets.simps) simp
next
  case (Suc d)
  then have "offsets (Suc k * st) st (n * st) = map (\<lambda>j. j * st) [Suc k..<n]" by (intro Suc.hyps) auto
  then have "offsets (k * st + st) st (n * st) = map (\<lambda>j. j * st) [Suc k..<n]" by (simp add: add.commute)
  then show ?case using Suc.hyps(2) Suc.prems by (subst offsets.simps) (simp add: upt_conv_Cons)
qed

lemma offsets_zero: "0 < st \<Longrightarrow> st dvd sz \<Longrightarrow> offsets 0 st sz = map (\<lambda>j. j * st) [0..<sz div st]"
  using offsets_multiple [of st 0 "sz div st"] by simp

lemma scan_char_const:
  "(\<And>i. i \<in> set os \<Longrightarrow> m i = v) \<Longrightarrow> scan_char m os c = c + int (length os) * sint v"
  unfolding scan_char_def by (induction os arbitrary: c) (simp_all add: algebra_simps)

lemma scan_u8_const:
  "(\<And>i. i \<in> set os \<Longrightarrow> m i = v) \<Longrightarrow> scan_u8 m os c = c + of_nat (length os) * ucast v"
  unfolding scan_u8_def by (induction os arbitrary: c) (simp_all add: algebra_simps)

lemma scan_u8_append: "scan_u8 m (xs @ ys) c = scan_u8 m ys (scan_u8 m xs c)"
  by (simp add: scan_u8_def)

lemma offsets_less: "i \<in> set (offsets k st sz) \<Longrightarrow> i < sz"
proof (induction k st sz rule: offsets.induct)
  case (1 k st sz)
  then show ?case by (subst (asm) (2) offsets.simps) (auto split: if_splits)
qed

lemma length_offsets: "0 < st \<Longrightarrow> st dvd sz \<Longrightarrow> length (offsets 0 st sz) = sz div st"
  by (simp add: offsets_zero)

section \<open>The experiment\<close>

definition MIB :: nat where "MIB = 1024 * 1024"

definition TOTAL_MIB :: nat where "TOTAL_MIB = 100"

definition CHUNK_MIB :: nat where "CHUNK_MIB = 10"

definition TOTAL_BYTES :: nat where "TOTAL_BYTES = TOTAL_MIB * MIB"

definition CHUNK_BYTES :: nat where "CHUNK_BYTES = CHUNK_MIB * MIB"

record dp_env =
  sc_pagesize :: int
  dp_pid :: int
  dp_mmap :: "u64 option"
  dp_munmap :: int

text \<open>\<^verbatim>\<open>wait_for_enter\<close> prints and drops input up to a newline or the end.\<close>

definition wait_for_enter :: "string \<Rightarrow> string \<Rightarrow> out list \<times> string" where
  "wait_for_enter msg input = ([Printf ''%s'' [Str msg]], drop 1 (dropWhile (\<lambda>c. c \<noteq> CHR 0x0A) input))"

text \<open>\<^verbatim>\<open>page_size\<close>: \<open>Inl\<close> is the call of \<^verbatim>\<open>exit(1)\<close>.\<close>

definition page_size :: "dp_env \<Rightarrow> out list + int" where
  "page_size e = (if sc_pagesize e \<le> 0 then Inl [Perror ''sysconf(_SC_PAGESIZE)''] else Inr (sc_pagesize e))"

text \<open>The read phase over the first byte of each chunk.\<close>

definition dp_read :: "memory \<Rightarrow> out list \<times> u64" where
  "dp_read m =
     (let os = offsets 0 CHUNK_BYTES TOTAL_BYTES in
      (map (\<lambda>o1. Printf ''    Read first byte at offset %7zu MiB'' [Num (int (o1 div MIB))]) os,
       scan_u8 m os 0))"

text \<open>The write phase, one chunk per iteration.\<close>

definition dp_write_step :: "nat \<Rightarrow> nat \<Rightarrow> memory \<times> out list \<Rightarrow> memory \<times> out list" where
  "dp_write_step ppc i st =
     (memset (i * CHUNK_BYTES) (of_nat (i + 1)) CHUNK_BYTES (fst st),
      snd st @ [Printf ''    Written: %3d / %d MiB'' [Num (int ((i + 1) * CHUNK_MIB)), Num (int TOTAL_MIB)],
                Printf ''    Expect about %zu new minor faults for this chunk and VmRSS growth.'' [Num (int ppc)]])"

definition dp_write :: "nat \<Rightarrow> memory \<Rightarrow> memory \<times> out list" where
  "dp_write ppc m = fold (dp_write_step ppc) [0..<TOTAL_MIB div CHUNK_MIB] (m, [])"

definition dp_header :: "dp_env \<Rightarrow> int \<Rightarrow> nat \<Rightarrow> nat \<Rightarrow> out list" where
  "dp_header e ps ppc tot =
     [Printf ''PID                : %d'' [Num (dp_pid e)],
      Printf ''Page size          : %ld bytes'' [Num ps],
      Printf ''Virtual reserve    : %d MiB'' [Num (int TOTAL_MIB)],
      Printf ''Touch chunk        : %d MiB'' [Num (int CHUNK_MIB)],
      Printf ''Pages per chunk    : %zu'' [Num (int ppc)],
      Printf ''Total pages        : %zu'' [Num (int tot)],
      Printf ''  ./monitor.sh %d'' [Num (dp_pid e)]]"

text \<open>After the mapping: the phases 2 to 5, with the unread input.\<close>

definition dp_phases :: "dp_env \<Rightarrow> nat \<Rightarrow> nat \<Rightarrow> u64 \<Rightarrow> string \<Rightarrow> out list \<times> int" where
  "dp_phases e ps ppc addr in1 =
     (let (w2, in2) = wait_for_enter ''[2] Press Enter to READ one byte from the first page of each 10 MiB chunk...'' in1;
          (reads, c1) = dp_read zero_pages;
          (w3, in3) = wait_for_enter ''[3] Press Enter to WRITE 10 MiB per second and force real page allocation...'' in2;
          (m, writes) = dp_write ppc zero_pages;
          (w4, in4) = wait_for_enter ''[4] Press Enter to scan all pages again (warm anonymous pages)...'' in3;
          c2 = scan_u8 m (offsets 0 ps TOTAL_BYTES) 0;
          (w5, in5) = wait_for_enter ''[5] Press Enter to release memory with munmap()...'' in4;
          out = [Printf ''    Reserved virtual range at %p'' [Ptr addr]] @ w2 @ reads
             @ [Printf ''    Read phase complete. checksum=%llu'' [Num (uint c1)]] @ w3 @ writes @ w4
             @ [Printf ''    Warm scan complete. checksum=%llu'' [Num (uint c2)]] @ w5
      in if dp_munmap e \<noteq> 0 then (out @ [Perror ''munmap''], 1)
         else (out @ [Printf ''    Memory released. VmSize and VmRSS should drop back near baseline.'' []], 0))"

definition dp_main :: "dp_env \<Rightarrow> string \<Rightarrow> out list \<times> int" where
  "dp_main e input =
     (case page_size e of Inl err \<Rightarrow> (err, 1)
      | Inr ps \<Rightarrow>
          (let ppc = CHUNK_BYTES div nat ps; tot = TOTAL_BYTES div nat ps;
               hdr = dp_header e ps ppc tot;
               (w1, in1) = wait_for_enter ''[1] Press Enter to reserve 100 MiB with mmap()...'' input
           in case dp_mmap e of None \<Rightarrow> (hdr @ w1 @ [Perror ''mmap''], 1)
              | Some addr \<Rightarrow>
                  (case dp_phases e (nat ps) ppc addr in1 of (out, rc) \<Rightarrow> (hdr @ w1 @ out, rc))))"

section \<open>Contents after the write phase\<close>

lemma dp_write_prefix:
  "fst (fold (dp_write_step ppc) [0..<k] (m, os)) i
    = (if i < k * CHUNK_BYTES then of_nat (i div CHUNK_BYTES + 1) else m i)"
proof (induction k)
  case (Suc k)
  let ?m = "fst (fold (dp_write_step ppc) [0..<k] (m, os))"
  have "fst (fold (dp_write_step ppc) [0..<Suc k] (m, os)) i
      = (if k * CHUNK_BYTES \<le> i \<and> i < k * CHUNK_BYTES + CHUNK_BYTES then of_nat (k + 1) else ?m i)"
    by (simp add: dp_write_step_def memset_def)
  moreover have "i div CHUNK_BYTES = k" if "k * CHUNK_BYTES \<le> i" "i < k * CHUNK_BYTES + CHUNK_BYTES"
    using that by (metis add.commute div_nat_eqI mult.commute mult_Suc_right)
  ultimately show ?case using Suc.IH by (auto simp: add.commute)
qed (simp)

lemma dp_write_bytes: "i < TOTAL_BYTES \<Longrightarrow> fst (dp_write ppc m) i = of_nat (i div CHUNK_BYTES + 1)"
  using dp_write_prefix [of ppc 10 m "[]" i]
  by (simp add: dp_write_def TOTAL_BYTES_def CHUNK_BYTES_def TOTAL_MIB_def CHUNK_MIB_def MIB_def)

lemma ucast_byte: "x < 256 \<Longrightarrow> ucast (of_nat x :: u8) = (of_nat x :: u64)"
  by (simp add: unsigned_of_nat take_bit_eq_mod)

text \<open>A scan of whole chunks adds the pages of each chunk.\<close>

lemma scan_chunks:
  assumes st: "0 < st"
    and m: "\<And>i. i < k * (n * st) \<Longrightarrow> m i = of_nat (i div (n * st) + 1)"
    and n: "0 < n" and k: "k < 255"
  shows "scan_u8 m (map (\<lambda>j. j * st) [0..<k * n]) 0 = of_nat (n * (k * (k + 1) div 2))"
  using m k
proof (induction k)
  case 0
  then show ?case by (simp add: scan_u8_def)
next
  case (Suc k)
  have split: "map (\<lambda>j. j * st) [0..<Suc k * n] = map (\<lambda>j. j * st) [0..<k * n] @ map (\<lambda>j. j * st) [k * n..<k * n + n]"
    using upt_add_eq_append [of 0 "k * n" n] by (simp add: add.commute [of n])
  have IH: "scan_u8 m (map (\<lambda>j. j * st) [0..<k * n]) 0 = of_nat (n * (k * (k + 1) div 2))"
    using Suc by simp
  have "m i = of_nat (k + 1)" if i: "i \<in> set (map (\<lambda>j. j * st) [k * n..<k * n + n])" for i
  proof -
    obtain j where "j \<in> set [k * n..<k * n + n]" and i': "i = j * st" using i unfolding set_map by blast
    then have j: "i = j * st" "k * n \<le> j" "j < k * n + n" by simp_all
    have "k * n * st \<le> j * st" "j * st < (k * n + n) * st" using j st by simp_all
    then have "k * (n * st) \<le> i" "i < Suc k * (n * st)" by (simp_all add: j(1) algebra_simps)
    moreover from this have "i div (n * st) = k" by (metis div_nat_eqI mult.commute mult_Suc_right)
    ultimately show ?thesis using Suc.prems(1) by simp
  qed
  then have "scan_u8 m (map (\<lambda>j. j * st) [k * n..<k * n + n]) c = c + of_nat n * ucast (of_nat (k + 1) :: u8)" for c
    using scan_u8_const [of "map (\<lambda>j. j * st) [k * n..<k * n + n]" m "of_nat (k + 1)" c] by simp
  moreover have "ucast (of_nat (k + 1) :: u8) = (of_nat (k + 1) :: u64)"
    using Suc.prems(2) by (intro ucast_byte) simp
  ultimately have "scan_u8 m (map (\<lambda>j. j * st) [0..<Suc k * n]) 0
      = of_nat (n * (k * (k + 1) div 2)) + of_nat n * of_nat (k + 1)"
    unfolding split scan_u8_append IH by simp
  also have "\<dots> = of_nat (n * (k * (k + 1) div 2) + n * (k + 1))" by (simp add: algebra_simps)
  also have "n * (k * (k + 1) div 2) + n * (k + 1) = n * (Suc k * (Suc k + 1) div 2)"
  proof -
    have "Suc k * (Suc k + 1) = k * (k + 1) + (k + 1) * 2" by (simp add: algebra_simps)
    then have "Suc k * (Suc k + 1) div 2 = k * (k + 1) div 2 + (k + 1)" by simp
    then show ?thesis by (simp only: distrib_left)
  qed
  finally show ?case .
qed

lemma dp_warm_scan:
  assumes "0 < ps" "ps dvd CHUNK_BYTES"
  shows "scan_u8 (fst (dp_write ppc m)) (offsets 0 ps TOTAL_BYTES) 0 = of_nat (CHUNK_BYTES div ps * 55)"
proof -
  let ?n = "CHUNK_BYTES div ps"
  have c: "?n * ps = CHUNK_BYTES" using assms(2) by simp
  have t: "TOTAL_BYTES = 10 * (?n * ps)"
    unfolding c by (simp add: TOTAL_BYTES_def CHUNK_BYTES_def TOTAL_MIB_def CHUNK_MIB_def)
  have pos: "0 < ?n" using c by (cases ?n) (auto simp: CHUNK_BYTES_def CHUNK_MIB_def MIB_def)
  have "offsets 0 ps TOTAL_BYTES = map (\<lambda>j. j * ps) [0..<10 * ?n]"
    using offsets_multiple [OF assms(1), of 0 "10 * ?n"] by (simp add: t mult.assoc)
  moreover have "scan_u8 (fst (dp_write ppc m)) (map (\<lambda>j. j * ps) [0..<10 * ?n]) 0 = of_nat (?n * (10 * (10 + 1) div 2))"
    using dp_write_bytes [of _ ppc m] by (intro scan_chunks [OF assms(1)] pos) (simp_all add: t c)
  ultimately show ?thesis by simp
qed

lemma dp_read_zero: "snd (dp_read zero_pages) = 0"
  using scan_u8_const [of _ zero_pages 0 0] by (simp add: dp_read_def zero_pages_def Let_def)

lemma dp_read_lines:
  "fst (dp_read m) = map (\<lambda>k. Printf ''    Read first byte at offset %7zu MiB'' [Num (10 * int k)]) [0..<10]"
proof -
  have "offsets 0 CHUNK_BYTES TOTAL_BYTES = map (\<lambda>j. j * CHUNK_BYTES) [0..<10]"
    using offsets_zero [of CHUNK_BYTES TOTAL_BYTES] by (simp add: CHUNK_BYTES_def TOTAL_BYTES_def CHUNK_MIB_def TOTAL_MIB_def MIB_def)
  moreover have "int (k * CHUNK_BYTES div MIB) = 10 * int k" for k
    by (simp add: CHUNK_BYTES_def CHUNK_MIB_def MIB_def)
  ultimately show ?thesis by (simp add: dp_read_def Let_def)
qed

lemma dp_write_lines:
  "snd (dp_write ppc m) = concat (map (\<lambda>k.
     [Printf ''    Written: %3d / %d MiB'' [Num (10 * int k + 10), Num 100],
      Printf ''    Expect about %zu new minor faults for this chunk and VmRSS growth.'' [Num (int ppc)]]) [0..<10])"
proof -
  have "snd (fold (dp_write_step ppc) ks (m, os)) = os @ concat (map (\<lambda>k.
     [Printf ''    Written: %3d / %d MiB'' [Num (int ((k + 1) * CHUNK_MIB)), Num (int TOTAL_MIB)],
      Printf ''    Expect about %zu new minor faults for this chunk and VmRSS growth.'' [Num (int ppc)]]) ks)" for ks m os
    by (induction ks arbitrary: m os) (simp_all add: dp_write_step_def)
  moreover have "int ((k + 1) * CHUNK_MIB) = 10 * int k + 10" "int TOTAL_MIB = 100" "TOTAL_MIB div CHUNK_MIB = 10" for k
    by (simp_all add: CHUNK_MIB_def TOTAL_MIB_def)
  ultimately show ?thesis unfolding dp_write_def by (simp only: append_Nil)
qed

section \<open>Properties\<close>

text \<open>
  C29. The demand paging experiment, for every page size that divides the chunk of 10 MiB: when the
  mapping succeeds the output is the configuration, then per phase the prompt and the lines of the phase.
  The ten reads are at multiples of 10 MiB and find zeros, the ten writes end at 100 MiB, and the warm scan
  reports 55 times the number of pages per chunk, since chunk \<open>k\<close> was filled with \<open>k + 1\<close>. The last line
  and the exit status tell whether \<^verbatim>\<open>munmap\<close> succeeded. The input, short or missing, does not matter.
\<close>

theorem demand_paging_checksums:
  assumes "0 < sc_pagesize e" "nat (sc_pagesize e) dvd CHUNK_BYTES" "dp_mmap e = Some addr"
    and ppc: "ppc = CHUNK_BYTES div nat (sc_pagesize e)"
  shows "dp_main e input =
    (dp_header e (sc_pagesize e) ppc (10 * ppc)
     @ [Printf ''%s'' [Str ''[1] Press Enter to reserve 100 MiB with mmap()...''],
        Printf ''    Reserved virtual range at %p'' [Ptr addr],
        Printf ''%s'' [Str ''[2] Press Enter to READ one byte from the first page of each 10 MiB chunk...'']]
     @ map (\<lambda>k. Printf ''    Read first byte at offset %7zu MiB'' [Num (10 * int k)]) [0..<10]
     @ [Printf ''    Read phase complete. checksum=%llu'' [Num 0],
        Printf ''%s'' [Str ''[3] Press Enter to WRITE 10 MiB per second and force real page allocation...'']]
     @ concat (map (\<lambda>k. [Printf ''    Written: %3d / %d MiB'' [Num (10 * int k + 10), Num 100],
          Printf ''    Expect about %zu new minor faults for this chunk and VmRSS growth.'' [Num (int ppc)]]) [0..<10])
     @ [Printf ''%s'' [Str ''[4] Press Enter to scan all pages again (warm anonymous pages)...''],
        Printf ''    Warm scan complete. checksum=%llu'' [Num (55 * int ppc)],
        Printf ''%s'' [Str ''[5] Press Enter to release memory with munmap()...''],
        if dp_munmap e = 0 then Printf ''    Memory released. VmSize and VmRSS should drop back near baseline.'' []
        else Perror ''munmap''],
     if dp_munmap e = 0 then 0 else 1)"
proof -
  let ?ps = "nat (sc_pagesize e)"
  have ps: "page_size e = Inr (sc_pagesize e)" using assms(1) by (simp add: page_size_def)
  have "CHUNK_BYTES div ?ps * 55 \<le> CHUNK_BYTES * 55" by (intro mult_right_mono) simp_all
  moreover have "CHUNK_BYTES * 55 < 2 ^ 64" by (simp add: CHUNK_BYTES_def CHUNK_MIB_def MIB_def)
  ultimately have "CHUNK_BYTES div ?ps * 55 < 2 ^ 64" by (rule order.strict_trans1)
  then have u: "uint (of_nat (CHUNK_BYTES div ?ps * 55) :: u64) = int (CHUNK_BYTES div ?ps * 55)"
    unfolding uint_nat by (subst unat_of_nat) simp
  have warm: "uint (scan_u8 (fst (dp_write p m)) (offsets 0 ?ps TOTAL_BYTES) 0) = 55 * int ppc" for p m
    using dp_warm_scan [of ?ps p m] assms(1,2) u by (simp add: ppc)
  obtain q where q: "CHUNK_BYTES = ?ps * q" using assms(2) by blast
  have "TOTAL_BYTES = ?ps * (10 * q)" using q by (simp add: TOTAL_BYTES_def CHUNK_BYTES_def TOTAL_MIB_def CHUNK_MIB_def)
  then have tot: "TOTAL_BYTES div ?ps = 10 * ppc" unfolding ppc using q assms(1) by (metis nonzero_mult_div_cancel_left zero_less_nat_eq less_numeral_extra(3))
  show ?thesis
    using ps tot warm
    by (simp add: dp_main_def dp_phases_def assms(3) wait_for_enter_def Let_def split_def dp_read_zero dp_read_lines
        dp_write_lines ppc [symmetric] del: upt_conv_Cons upt_rec_numeral)
qed

theorem demand_paging_checksums_witness:
  "last (fst (dp_main \<lparr>sc_pagesize = 4096, dp_pid = 77, dp_mmap = Some 0x7f0000000000, dp_munmap = 0\<rparr> ''x''))
     = Printf ''    Memory released. VmSize and VmRSS should drop back near baseline.'' []
   \<and> Printf ''    Warm scan complete. checksum=%llu'' [Num 140800]
     \<in> set (fst (dp_main \<lparr>sc_pagesize = 4096, dp_pid = 77, dp_mmap = Some 0x7f0000000000, dp_munmap = 0\<rparr> ''x''))"
proof -
  let ?e = "\<lparr>sc_pagesize = 4096, dp_pid = 77, dp_mmap = Some 0x7f0000000000, dp_munmap = 0\<rparr>"
  have "nat (sc_pagesize ?e) dvd CHUNK_BYTES" "2560 = CHUNK_BYTES div nat (sc_pagesize ?e)"
    by (simp_all add: CHUNK_BYTES_def CHUNK_MIB_def MIB_def)
  then show ?thesis
    using demand_paging_checksums [of ?e "0x7f0000000000" 2560 "''x''"] by simp
qed

text \<open>
  The failure paths of the experiment: without a page size the program stops before printing
  anything else, and a failed mapping ends it with status 1 before any phase touches memory.
\<close>

theorem demand_paging_errors:
  "(sc_pagesize e \<le> 0 \<longrightarrow> dp_main e input = ([Perror ''sysconf(_SC_PAGESIZE)''], 1))
   \<and> (0 < sc_pagesize e \<and> dp_mmap e = None \<longrightarrow>
        snd (dp_main e input) = 1 \<and> last (fst (dp_main e input)) = Perror ''mmap''
      \<and> length (fst (dp_main e input)) = 9)"
  by (auto simp: dp_main_def page_size_def wait_for_enter_def dp_header_def Let_def)

theorem demand_paging_errors_witness:
  "dp_main \<lparr>sc_pagesize = -1, dp_pid = 77, dp_mmap = None, dp_munmap = 0\<rparr> ''x'' = ([Perror ''sysconf(_SC_PAGESIZE)''], 1)
   \<and> snd (dp_main \<lparr>sc_pagesize = 4096, dp_pid = 77, dp_mmap = None, dp_munmap = 0\<rparr> ''x'') = 1"
  using demand_paging_errors [of "\<lparr>sc_pagesize = -1, dp_pid = 77, dp_mmap = None, dp_munmap = 0\<rparr>" "''x''"]
    demand_paging_errors [of "\<lparr>sc_pagesize = 4096, dp_pid = 77, dp_mmap = None, dp_munmap = 0\<rparr>" "''x''"]
  by simp

end
