(* ===== verification/ProcFs.thy ===== *)
theory ProcFs
  imports Libc
begin

text \<open>
  The ways the labs read \<^verbatim>\<open>/proc\<close> and \<^verbatim>\<open>/sys\<close>: loops \<^verbatim>\<open>while (fgets(line, n, fp))\<close> that print
  the lines they select, the first one, or a bounded number of them. A file system is a function
  from paths to contents, \<open>None\<close> for a path that cannot be opened; what the kernel puts into the
  files is a parameter throughout. The lemmas relate the loops to the lines of the file.
\<close>

section \<open>Loops over a file\<close>

type_synonym files = "string \<Rightarrow> string option"

text \<open>\<^verbatim>\<open>while (fgets(line, n, fp)) if (sel(line)) printf(fmt, line);\<close>\<close>

definition print_matching :: "nat \<Rightarrow> (string \<Rightarrow> bool) \<Rightarrow> string \<Rightarrow> string \<Rightarrow> out list" where
  "print_matching n sel fmt content = map (\<lambda>l. Printf fmt [Str l]) (filter sel (read_lines n content))"

text \<open>\<^verbatim>\<open>while (fgets(line, n, fp)) if (sel(line)) { printf(fmt, line); break; }\<close>\<close>

definition print_first :: "nat \<Rightarrow> (string \<Rightarrow> bool) \<Rightarrow> string \<Rightarrow> string \<Rightarrow> out list" where
  "print_first n sel fmt content =
     (case find sel (read_lines n content) of None \<Rightarrow> [] | Some l \<Rightarrow> [Printf fmt [Str l]])"

text \<open>\<^verbatim>\<open>while (fgets(line, n, fp) && k < max) { printf(fmt, line); k++; }\<close>\<close>

definition print_upto :: "nat \<Rightarrow> nat \<Rightarrow> string \<Rightarrow> string \<Rightarrow> out list" where
  "print_upto n mx fmt content = map (\<lambda>l. Printf fmt [Str l]) (take mx (read_lines n content))"

text \<open>\<^verbatim>\<open>while (fgets(line, n, fp)) if (sel(line)) { printf(fmt, line); if (++k >= max) break; }\<close>\<close>

definition print_matching_upto :: "nat \<Rightarrow> nat \<Rightarrow> (string \<Rightarrow> bool) \<Rightarrow> string \<Rightarrow> string \<Rightarrow> out list" where
  "print_matching_upto n mx sel fmt content =
     map (\<lambda>l. Printf fmt [Str l]) (take mx (filter sel (read_lines n content)))"

text \<open>A chain of \<^verbatim>\<open>strncmp(line, key, strlen(key)) == 0\<close> tests, and one of \<^verbatim>\<open>strstr(line, key)\<close>.\<close>

definition starts_with_any :: "string list \<Rightarrow> string \<Rightarrow> bool" where
  "starts_with_any keys l = list_ex (\<lambda>k. starts_with k l) keys"

definition contains_any :: "string list \<Rightarrow> string \<Rightarrow> bool" where
  "contains_any keys l = list_ex (strstr l) keys"

text \<open>\<^verbatim>\<open>fp = fopen(path, "r"); if (fp) { ... }\<close>\<close>

definition with_file :: "files \<Rightarrow> string \<Rightarrow> (string \<Rightarrow> out list) \<Rightarrow> out list" where
  "with_file fs path body = (case fs path of None \<Rightarrow> [] | Some c \<Rightarrow> body c)"

text \<open>The path \<^verbatim>\<open>/proc/<pid>/<name>\<close>, written into a buffer of \<open>n\<close> bytes.\<close>

definition proc_path :: "nat \<Rightarrow> int \<Rightarrow> string \<Rightarrow> string" where
  "proc_path n pid name = snprintf n (''/proc/'' @ show_int pid @ ''/'' @ name)"

text \<open>
  \<^verbatim>\<open>read_sysfs\<close>: the first line without its newline, through a buffer of \<open>n\<close> bytes; \<open>None\<close> is the
  return value -1.
\<close>

definition read_sysfs_str :: "files \<Rightarrow> nat \<Rightarrow> string \<Rightarrow> string option" where
  "read_sysfs_str fs n path = Option.bind (fs path) (\<lambda>c. map_option (\<lambda>(l, _). chomp l) (fgets n c))"

text \<open>
  \<^verbatim>\<open>fp = fopen(path, "r"); if (fp) { if (fgets(l, n, fp)) printf(fmt, l); }\<close>, and the same with the
  newline removed before the line is printed.
\<close>

definition print_line :: "files \<Rightarrow> nat \<Rightarrow> string \<Rightarrow> string \<Rightarrow> out list" where
  "print_line fs n path fmt =
     with_file fs path (\<lambda>c. case fgets n c of None \<Rightarrow> [] | Some (l, _) \<Rightarrow> [Printf fmt [Str l]])"

definition print_value :: "files \<Rightarrow> nat \<Rightarrow> string \<Rightarrow> string \<Rightarrow> out list" where
  "print_value fs n path fmt =
     (case read_sysfs_str fs n path of None \<Rightarrow> [] | Some v \<Rightarrow> [Printf fmt [Str v]])"

text \<open>A run is \<open>Inl\<close> what was printed before the program died, or \<open>Inr\<close> what it printed.\<close>

type_synonym run = "out list + out list"

definition run_then :: "run \<Rightarrow> run \<Rightarrow> run" where
  "run_then a b = (case a of Inl x \<Rightarrow> Inl x | Inr x \<Rightarrow> (case b of Inl y \<Rightarrow> Inl (x @ y) | Inr y \<Rightarrow> Inr (x @ y)))"

section \<open>The loops and the lines of a file\<close>

abbreviation short_lines :: "nat \<Rightarrow> string \<Rightarrow> bool" where
  "short_lines n s \<equiv> \<forall>l\<in>set (lines_of s). length l < n"

lemma print_matching_lines:
  "2 \<le> n \<Longrightarrow> short_lines n s \<Longrightarrow>
   print_matching n sel fmt s = map (\<lambda>l. Printf fmt [Str l]) (filter sel (lines_of s))"
  by (simp add: print_matching_def read_lines_short)

lemma print_first_lines:
  "2 \<le> n \<Longrightarrow> short_lines n s \<Longrightarrow>
   print_first n sel fmt s = (case find sel (lines_of s) of None \<Rightarrow> [] | Some l \<Rightarrow> [Printf fmt [Str l]])"
  by (simp add: print_first_def read_lines_short)

lemma fgets_line: "NL \<notin> set a \<Longrightarrow> length a + 1 < n \<Longrightarrow> fgets n (a @ NL # r) = Some (a @ [NL], r)"
proof -
  have "NL \<notin> set a \<Longrightarrow> length a < k \<Longrightarrow> fgets_chunk k (a @ NL # r) = (a @ [NL], r)" for k
    by (induction a arbitrary: k) auto
  from this [of "n - 1"] show "NL \<notin> set a \<Longrightarrow> length a + 1 < n \<Longrightarrow> ?thesis" by (simp add: fgets_def)
qed

lemma read_sysfs_line:
  assumes "fs path = Some (a @ NL # r)" "NL \<notin> set a" "length a + 1 < n"
  shows "read_sysfs_str fs n path = Some a"
  using assms by (simp add: read_sysfs_str_def fgets_line)

text \<open>The one-line files of sysfs, present or not.\<close>

lemma read_sysfs_opt:
  assumes "fs path = map_option (\<lambda>t. t @ [NL]) v"
    and "\<And>t. v = Some t \<Longrightarrow> NL \<notin> set t \<and> length t + 1 < n"
  shows "read_sysfs_str fs n path = v"
proof (cases v)
  case (Some t)
  then show ?thesis using assms(1) assms(2) [of t] by (intro trans [OF read_sysfs_line [of fs path t "[]" n]]) auto
qed (use assms(1) in \<open>simp add: read_sysfs_str_def\<close>)

lemma print_upto_length: "length (print_upto n mx fmt s) \<le> mx"
  by (simp add: print_upto_def)

text \<open>The decimal form of a 32-bit number has at most eleven characters.\<close>

lemma length_show_nat: "n < 10 ^ k \<Longrightarrow> 0 < k \<Longrightarrow> length (show_nat n) \<le> k"
proof (induction n arbitrary: k rule: show_nat.induct)
  case (1 n)
  show ?case
  proof (cases "n < 10")
    case True
    then show ?thesis using 1 by (subst show_nat.simps) simp
  next
    case False
    then obtain j where k: "k = Suc j" "0 < j" using 1(2,3) by (cases k; cases "k - 1") auto
    then have "n div 10 < 10 ^ j" using 1(2) by (simp add: less_mult_imp_div_less mult.commute)
    then show ?thesis using False 1(1) [of j] k by (subst show_nat.simps) simp
  qed
qed

lemma length_show_int:
  assumes "INT_MIN \<le> i" "i \<le> INT_MAX"
  shows "length (show_int i) \<le> 11"
proof -
  have "nat (- i) < 10 ^ 10" "nat i < 10 ^ 10" using assms by (simp_all add: src_consts)
  then have "length (show_nat (nat (- i))) \<le> 10" "length (show_nat (nat i)) \<le> 10"
    by (auto intro: length_show_nat)
  then show ?thesis by (auto simp: show_int_def)
qed

lemma proc_path_fits:
  assumes "INT_MIN \<le> pid" "pid \<le> INT_MAX" "length name + 18 < n"
  shows "proc_path n pid name = ''/proc/'' @ show_int pid @ ''/'' @ name"
  using length_show_int [OF assms(1,2)] assms(3) by (simp add: proc_path_def)

text \<open>
  Loops over numbered entries that stop at the first one that cannot be read, and loops that skip
  such entries.
\<close>

lemma until_missing:
  assumes "\<And>i. f i 0 = []"
    and "\<And>i k. f i (Suc k) = (case r i of None \<Rightarrow> [] | Some b \<Rightarrow> g i b # f (i + 1) k)"
  shows "f i k = map (\<lambda>j. g j (the (r j))) (takeWhile (\<lambda>j. r j \<noteq> None) [i..<i + k])"
proof (induction k arbitrary: i)
  case (Suc k)
  have "[i..<i + Suc k] = i # [i + 1..<i + 1 + k]" by (simp add: upt_rec)
  then show ?case using Suc [of "i + 1"] by (simp add: assms(2) split: option.splits)
qed (simp add: assms(1))

lemma skip_missing:
  "concat (map (\<lambda>n. case r n of None \<Rightarrow> [] | Some b \<Rightarrow> [g n b]) ns) =
   map (\<lambda>n. g n (the (r n))) (filter (\<lambda>n. r n \<noteq> None) ns)"
  by (induction ns) (auto split: option.splits)

end
