(* ===== verification/ProcExercises.thy ===== *)
theory ProcExercises
  imports ProcFs Clock DemandPaging
begin

text \<open>
  \<^verbatim>\<open>labs/process_memory_exercises.c\<close>: the helpers \<^verbatim>\<open>print_proc_file\<close> and \<^verbatim>\<open>print_status_field\<close>
  and the ten exercises, each as the list of lines it prints. The contents of the files, addresses
  returned by \<^verbatim>\<open>mmap\<close>, fault counters, clock readings and process numbers are parameters. A call
  that is repeated gets its answers from a function of the call's number. Standard output is
  buffered by the C library, so the lines of a child that ends with \<^verbatim>\<open>_exit\<close> only appear if the
  stream is line buffered.
\<close>

section \<open>Helpers\<close>

text \<open>
  The loop of \<^verbatim>\<open>print_proc_file\<close>: at most \<open>k\<close> more lines; the flag is \<^verbatim>\<open>feof\<close> after the loop. A
  successful \<^verbatim>\<open>fgets\<close> sets it only if it met the end of the file before a newline and before
  its buffer was full.
\<close>

definition feof_after :: "string \<Rightarrow> string \<Rightarrow> bool" where
  "feof_after l r \<longleftrightarrow> r = [] \<and> last l \<noteq> NL \<and> length l < 511"

fun proc_file_loop :: "nat \<Rightarrow> string \<Rightarrow> out list \<times> bool" where
  "proc_file_loop 0 s = (case fgets 512 s of None \<Rightarrow> ([], True) | Some (l, r) \<Rightarrow> ([], feof_after l r))"
| "proc_file_loop (Suc k) s =
     (case fgets 512 s of None \<Rightarrow> ([], True)
      | Some (l, r) \<Rightarrow> (case proc_file_loop k r of (os, e) \<Rightarrow> (Printf ''  %s'' [Str l] # os, e)))"

definition print_proc_file :: "files \<Rightarrow> (string \<Rightarrow> string) \<Rightarrow> string \<Rightarrow> nat \<Rightarrow> out list" where
  "print_proc_file fs strerr path max_lines =
     (case fs path of
        None \<Rightarrow> [Printf ''  [cannot open %s: %s]'' [Str path, Str (strerr path)]]
      | Some content \<Rightarrow>
          (case proc_file_loop max_lines content of (os, e) \<Rightarrow>
             os @ (if e then [] else [Printf ''  ... (truncated at %d lines)'' [Num (int max_lines)]])))"

definition print_status_field :: "files \<Rightarrow> int \<Rightarrow> string \<Rightarrow> out list" where
  "print_status_field fs pid field =
     with_file fs (proc_path 64 pid ''status'') (print_first 256 (starts_with field) ''  %s'')"

section \<open>Exercises 1 and 2\<close>

definition task_fields :: "string list" where
  "task_fields = [''Name'', ''Pid'', ''PPid'', ''Threads'', ''VmPeak'', ''VmSize'', ''VmRSS'', ''VmData'',
     ''VmStk'', ''VmExe'', ''VmPTE'', ''voluntary_ctxt_switches'', ''nonvoluntary_ctxt_switches'']"

definition ex_task_struct :: "files \<Rightarrow> int \<Rightarrow> out list" where
  "ex_task_struct fs pid =
     (case fs (proc_path 64 pid ''status'') of None \<Rightarrow> [Perror ''fopen status'']
      | Some c \<Rightarrow> print_matching 256 (\<lambda>l. list_ex (\<lambda>f. starts_with f l) task_fields) ''  %s'' c)"

text \<open>The loop over \<^verbatim>\<open>smaps\<close>: from the first line that contains the address, at most 18 lines.\<close>

fun smaps_loop :: "string \<Rightarrow> bool \<Rightarrow> nat \<Rightarrow> string list \<Rightarrow> out list" where
  "smaps_loop target found printed [] = []"
| "smaps_loop target found printed (l # ls) =
     (if printed < 18 then
        (let found' = (found \<or> strstr l target) in
         if found' then
           Printf ''  %s'' [Str l]
             # (if starts_with ''VmFlags'' l then [] else smaps_loop target True (printed + 1) ls)
         else smaps_loop target False printed ls)
      else [])"

definition ex_mm_struct :: "files \<Rightarrow> (string \<Rightarrow> string) \<Rightarrow> nat option \<Rightarrow> out list" where
  "ex_mm_struct fs strerr anon =
     (case anon of None \<Rightarrow> [Perror ''mmap'']
      | Some addr \<Rightarrow>
          print_proc_file fs strerr ''/proc/self/maps'' 25
          @ with_file fs ''/proc/self/smaps''
              (\<lambda>c. smaps_loop (snprintf 32 (show_hex addr)) False 0 (read_lines 256 c)))"

section \<open>Exercise 3\<close>

text \<open>
  \<open>ru k\<close> has the fault counters at the k-th call of \<^verbatim>\<open>get_faults\<close>; the file system at the k-th call
  of \<^verbatim>\<open>print_status_field\<close>.
\<close>

definition LIFE_SZ :: nat where "LIFE_SZ = 32 * 1024 * 1024"

definition ex_page_fault_lifecycle ::
  "(nat \<Rightarrow> files) \<Rightarrow> int \<Rightarrow> (nat \<Rightarrow> rusage) \<Rightarrow> nat option \<Rightarrow> out list" where
  "ex_page_fault_lifecycle fs pid ru mem =
     (case mem of None \<Rightarrow> [Perror ''mmap'']
      | Some _ \<Rightarrow>
         (let minor = (\<lambda>k. fst (get_faults (ru (k + 1))) - fst (get_faults (ru k)));
              major = (\<lambda>k. snd (get_faults (ru (k + 1))) - snd (get_faults (ru k)));
              st = (\<lambda>k. print_status_field (fs k) pid ''VmRSS'');
              checksum = scan_char zero_pages (offsets 0 4096 LIFE_SZ) 0;
              expected = int (LIFE_SZ div 4096)
          in [Printf ''    minor faults: %ld  major faults: %ld'' [Num (minor 0), Num (major 0)]] @ st 0
             @ [Printf ''    minor faults: %ld  (checksum=%ld)'' [Num (minor 2), Num checksum]] @ st 1
             @ [Printf ''    minor faults: %ld  (expected ~%ld)'' [Num (minor 4), Num expected]] @ st 2
             @ [Printf ''    minor faults: %ld'' [Num (minor 6)]] @ st 3 @ st 4))"

section \<open>Exercise 4\<close>

text \<open>
  \<^verbatim>\<open>mmap\<close> results are \<open>None\<close> for \<^verbatim>\<open>MAP_FAILED\<close>, whose address is the largest number; the shared
  page is written without a test, so a failed mapping there ends the program (\<open>Inl\<close>).
\<close>

definition map_addr :: "nat option \<Rightarrow> nat" where
  "map_addr m = (case m of None \<Rightarrow> 2 ^ 64 - 1 | Some a \<Rightarrow> a)"

definition file_note :: "bool \<Rightarrow> out list" where
  "file_note opened = (if opened then
     [Printf ''  MAP_PRIVATE (file-backed - e.g. text segment from ELF)'' [],
      Printf ''    Use: text/rodata segments of executables and .so files'' [],
      Printf ''    Fault: page read from file on first access'' [],
      Printf ''    Write: COW - modified page becomes private anonymous'' []] else [])"

definition ex_mmap_types ::
  "files \<Rightarrow> nat option \<Rightarrow> nat option option \<Rightarrow> nat option \<Rightarrow> out list + out list" where
  "ex_mmap_types fs anon_priv exe anon_shared =
     (let note = file_note (exe \<noteq> None) in
      case anon_shared of None \<Rightarrow> Inl note
      | Some sh \<Rightarrow>
         (let ap = snprintf 32 (show_hex (map_addr anon_priv));
              fp = (case exe of Some (Some a) \<Rightarrow> snprintf 32 (show_hex a) | _ \<Rightarrow> []);
              sp = snprintf 32 (show_hex sh)
          in Inr (note @ with_file fs ''/proc/self/maps''
               (print_matching 256 (\<lambda>l. strstr l ap \<or> (fp \<noteq> [] \<and> strstr l fp) \<or> strstr l sp) ''    %s''))))"

section \<open>Exercises 5 to 7\<close>

text \<open>
  One line from each of three files per process; a buffer that \<^verbatim>\<open>fgets\<close> leaves untouched keeps
  what was on the stack (\<open>junk\<close>).
\<close>

definition first_line :: "nat \<Rightarrow> files \<Rightarrow> string \<Rightarrow> string option option" where
  "first_line n fs path = map_option (\<lambda>c. map_option fst (fgets n c)) (fs path)"

definition oom_entry :: "files \<Rightarrow> (string \<Rightarrow> string) \<Rightarrow> string \<Rightarrow> out list" where
  "oom_entry fs junk p =
     (let path = (\<lambda>name. snprintf 64 (''/proc/'' @ p @ ''/'' @ name));
          comm = (case first_line 128 fs (path ''comm'') of
                    None \<Rightarrow> ''(unknown)'' | Some None \<Rightarrow> chomp ''(unknown)'' | Some (Some l) \<Rightarrow> chomp l);
          show = (\<lambda>name. case first_line 16 fs (path name) of None \<Rightarrow> []
                    | Some None \<Rightarrow> [Printf ''%s'' [Str (junk name)]] | Some (Some l) \<Rightarrow> [Printf ''%s'' [Str l]])
      in [Printf ''  PID %-4s (%s)  oom_score='' [Str p, Str comm]] @ show ''oom_score''
         @ [Printf ''  oom_score_adj='' []] @ show ''oom_score_adj'')"

definition ex_oom_killer :: "files \<Rightarrow> (string \<Rightarrow> string) \<Rightarrow> (string \<Rightarrow> string) \<Rightarrow> int \<Rightarrow> out list" where
  "ex_oom_killer fs strerr junk pid =
     print_proc_file fs strerr (proc_path 64 pid ''oom_score'') 1
     @ print_proc_file fs strerr (proc_path 64 pid ''oom_score_adj'') 1
     @ oom_entry fs junk ''1'' @ oom_entry fs junk ''2''"

definition HUGE_SZ :: nat where "HUGE_SZ = 256 * 1024 * 1024"

text \<open>The k-th reading of the clock is \<open>clk k\<close>; \<^verbatim>\<open>MADV_HUGEPAGE\<close> is defined on Linux.\<close>

definition ex_huge_pages :: "files \<Rightarrow> (string \<Rightarrow> string) \<Rightarrow> nat option \<Rightarrow> (nat \<Rightarrow> timespec) \<Rightarrow> out list" where
  "ex_huge_pages fs strerr mem clk =
     with_file fs ''/proc/meminfo''
       (print_matching 256 (\<lambda>l. strstr l ''Huge'' \<or> strstr l ''huge'' \<or> strstr l ''AnonHuge'') ''  %s'')
     @ print_proc_file fs strerr ''/sys/kernel/mm/transparent_hugepage/enabled'' 1
     @ (case mem of None \<Rightarrow> [Printf ''  [mmap failed, skipping benchmark]'' []]
        | Some _ \<Rightarrow>
           (let m1 = memset 0 1 HUGE_SZ zero_pages; s1 = scan_char m1 (offsets 0 4096 HUGE_SZ) 0;
                m2 = memset 0 2 HUGE_SZ m1; s2 = scan_char m2 (offsets 0 4096 HUGE_SZ) 0;
                t4k = now_sec (clk 1) - now_sec (clk 0); tthp = now_sec (clk 3) - now_sec (clk 2)
            in [Printf ''  Random-stride scan 256 MiB (4K pages): %.3f s  (s=%ld)'' [Dbl t4k, Num s1],
                Printf ''  Random-stride scan 256 MiB (THP/2M):   %.3f s  (s=%ld)'' [Dbl tthp, Num s2]]
               @ (if tthp > 0 \<and> t4k > 0 then [Printf ''  Speedup from THP: %.1fx'' [Dbl (t4k / tthp)]] else [])))"

definition annotations :: "(string \<times> string) list" where
  "annotations =
    [(''MemTotal'', ''Total usable RAM (kernel reserved memory excluded)''),
     (''MemFree'', ''Completely unused RAM (not cache, not buffers)''),
     (''MemAvailable'', ''Estimate of RAM available without swapping (use this, not MemFree)''),
     (''Buffers'', ''Kernel block-layer I/O buffers (small, mostly metadata)''),
     (''Cached'', ''Page cache: file content cached in RAM''),
     (''SwapCached'', ''Pages swapped out but still in swap cache (fast re-access)''),
     (''Active'', ''Pages recently used (unlikely to be reclaimed)''),
     (''Inactive'', ''Pages not recently used (candidates for reclaim)''),
     (''SwapTotal'', ''Total swap space (disk or zram)''),
     (''SwapFree'', ''Unused swap space''),
     (''Dirty'', ''Pages modified in page cache not yet written to disk''),
     (''Writeback'', ''Pages being written back to disk right now''),
     (''AnonPages'', ''Anonymous pages mapped into processes (heap, stack, mmap anon)''),
     (''Mapped'', ''Files mapped into memory (mmap'' @ [CHR 0x27] @ ''d files, shared libs)''),
     (''Shmem'', ''Shared memory (tmpfs, SysV shm, shared anon mmap)''),
     (''KReclaimable'', ''Kernel memory that can be reclaimed under pressure''),
     (''Slab'', ''Total SLUB/SLAB allocator memory''),
     (''SReclaimable'', ''Reclaimable slab (dcache, icache - freed under pressure)''),
     (''SUnreclaim'', ''Unreclaimable slab (kernel data structures always needed)''),
     (''PageTables'', ''Memory used by page table entries''),
     (''VmallocTotal'', ''Total vmalloc virtual address space''),
     (''VmallocUsed'', ''Used vmalloc space (kernel modules, ioremap)''),
     (''HugePages_Total'', ''Pre-allocated 2 MiB huge pages''),
     (''AnonHugePages'', ''Transparent huge pages in use by anonymous regions'')]"

text \<open>\<^verbatim>\<open>sscanf(line, "%63[^:]", key)\<close>: up to 63 characters before a colon, at least one.\<close>

definition scan_key :: "string \<Rightarrow> string option" where
  "scan_key l = (case take 63 (takeWhile (\<lambda>c. c \<noteq> CHR '':'') l) of [] \<Rightarrow> None | k \<Rightarrow> Some k)"

definition meminfo_line :: "string \<Rightarrow> out list" where
  "meminfo_line l =
     (case scan_key l of None \<Rightarrow> []
      | Some key \<Rightarrow>
          (case map_of annotations key of None \<Rightarrow> []
           | Some e \<Rightarrow> [Printf ''  %-20s  - %s'' [Str (drop (length key + 1) l), Str e]]))
     @ [Printf ''  %s'' [Str l]]"

definition ex_meminfo_tour :: "files \<Rightarrow> out list" where
  "ex_meminfo_tour fs =
     (case fs ''/proc/meminfo'' of None \<Rightarrow> [Perror ''fopen /proc/meminfo'']
      | Some c \<Rightarrow> concat (map meminfo_line (read_lines 256 c)))"

section \<open>Exercises 8 to 10\<close>

definition kthread_table :: "(string \<times> string) list" where
  "kthread_table =
    [(''kswapd0'', ''Memory reclaim - scans LRU lists, frees pages''),
     (''kcompactd0'', ''Memory compaction - moves pages to reduce fragmentation''),
     (''kworker/*'', ''Workqueue threads - deferred kernel work items''),
     (''writeback'', ''Page cache writeback - flushes dirty pages to disk''),
     (''ksoftirqd/*'', ''Softirq handler - network RX, timers, tasklets''),
     (''migration/*'', ''CPU migration - moves tasks between CPUs for load balance''),
     (''watchdog/*'', ''Hard lockup detector - fires NMI if CPU stuck''),
     (''kthreadd'', ''PID 2: parent of all kernel threads'')]"

definition ex_kthreads :: "files \<Rightarrow> (string \<Rightarrow> string) \<Rightarrow> out list" where
  "ex_kthreads fs strerr =
     map (\<lambda>(name, role). Printf ''  %-20s  %s'' [Str name, Str role]) kthread_table
     @ print_proc_file fs strerr ''/proc/2/status'' 8"

text \<open>The wait status a child leaves by \<^verbatim>\<open>_exit(code)\<close> and the macros that read it.\<close>

definition exit_status :: "int \<Rightarrow> int" where
  "exit_status code = (code mod 256) * 256"

definition WIFEXITED :: "int \<Rightarrow> bool" where
  "WIFEXITED status \<longleftrightarrow> status mod 128 = 0"

definition WEXITSTATUS :: "int \<Rightarrow> int" where
  "WEXITSTATUS status = (status div 256) mod 256"

record lineage_env =
  li_pid :: int
  li_ppid :: int
  li_child :: int
  child_fs :: files
  zombie_fs :: files
  line_buffered :: bool

definition lineage_child :: "lineage_env \<Rightarrow> out list \<times> int" where
  "lineage_child e =
     ([Printf ''  Child  PID: %d   PPID: %d'' [Num (li_child e), Num (li_pid e)],
       Printf ''  Child reading its own /proc/%d/status:'' [Num (li_child e)]]
      @ with_file (child_fs e) (proc_path 64 (li_child e) ''status'') (print_upto 256 6 ''    %s'')
      @ [Printf ''  Child: about to exit(42)'' []], exit_status 42)"

definition lineage_parent :: "lineage_env \<Rightarrow> int \<Rightarrow> out list" where
  "lineage_parent e status =
     [Printf ''  Parent: child %d has exited. Checking for zombie state...'' [Num (li_child e)]]
     @ (case zombie_fs e (proc_path 64 (li_child e) ''status'') of
          None \<Rightarrow> [Printf ''  /proc/%d already gone (may have been reaped by timing)'' [Num (li_child e)]]
        | Some c \<Rightarrow> print_first 256 (starts_with ''State'') ''  %s'' c)
     @ [Printf ''  Parent reaped PID %d: exit_status=%d''
          [Num (li_child e), Num (if WIFEXITED status then WEXITSTATUS status else - 1)],
        Printf ''  After wait(): /proc/%d/ no longer exists.'' [Num (li_child e)]]"

text \<open>\<^verbatim>\<open>_exit\<close> does not flush: what the child printed appears only on a line buffered stream.\<close>

definition ex_process_lineage :: "lineage_env \<Rightarrow> out list" where
  "ex_process_lineage e =
     (case lineage_child e of (out, status) \<Rightarrow>
        [Printf ''  Parent PID: %d   PPID: %d'' [Num (li_pid e), Num (li_ppid e)]]
        @ (if line_buffered e then out else []) @ lineage_parent e status)"

definition cg_paths :: "string list" where
  "cg_paths = [''/sys/fs/cgroup/memory.max'', ''/sys/fs/cgroup/memory.current'', ''/sys/fs/cgroup/memory.high'',
     ''/sys/fs/cgroup/cpu.max'', ''/sys/fs/cgroup/cpu.stat'', ''/sys/fs/cgroup/memory.stat'']"

definition cg_entry :: "files \<Rightarrow> string \<Rightarrow> out list" where
  "cg_entry fs p =
     Printf ''  %-45s : '' [Str p]
     # (case first_line 256 fs p of
          None \<Rightarrow> [Printf ''(not found - may be running outside a cgroup or on cgroups v1)'' []]
        | Some None \<Rightarrow> []
        | Some (Some l) \<Rightarrow> [Printf ''%s'' [Str l]])"

definition ex_cgroup_memory :: "files \<Rightarrow> out list" where
  "ex_cgroup_memory fs = concat (map (cg_entry fs) cg_paths)"

section \<open>The program\<close>

text \<open>The system during a run: one file system per exercise, and the answers the exercises use.\<close>

record pm_env =
  pm_pid :: int
  pm_strerr :: "string \<Rightarrow> string"
  pm_junk :: "string \<Rightarrow> string"
  pm_fs :: "nat \<Rightarrow> files"
  status_fs :: "nat \<Rightarrow> files"
  pm_faults :: "nat \<Rightarrow> rusage"
  pm_mem :: "nat \<Rightarrow> nat option"
  pm_exe :: "nat option option"
  pm_clk :: "nat \<Rightarrow> timespec"
  pm_lineage :: lineage_env

text \<open>\<open>Inl\<close> is a run that dies in exercise 4.\<close>

definition pm_main :: "pm_env \<Rightarrow> out list + out list" where
  "pm_main e =
     (let head = [Printf ''PID: %d  (use this in /proc/<pid>/ commands while the program runs)'' [Num (pm_pid e)]]
            @ ex_task_struct (pm_fs e 1) (pm_pid e) @ ex_mm_struct (pm_fs e 2) (pm_strerr e) (pm_mem e 2)
            @ ex_page_fault_lifecycle (status_fs e) (pm_pid e) (pm_faults e) (pm_mem e 3)
      in case ex_mmap_types (pm_fs e 4) (pm_mem e 4) (pm_exe e) (pm_mem e 5) of
           Inl out \<Rightarrow> Inl (head @ out)
         | Inr out \<Rightarrow>
             Inr (head @ out @ ex_oom_killer (pm_fs e 5) (pm_strerr e) (pm_junk e) (pm_pid e)
               @ ex_huge_pages (pm_fs e 6) (pm_strerr e) (pm_mem e 6) (pm_clk e) @ ex_meminfo_tour (pm_fs e 7)
               @ ex_kthreads (pm_fs e 8) (pm_strerr e) @ ex_process_lineage (pm_lineage e)
               @ ex_cgroup_memory (pm_fs e 10)))"

section \<open>Lemmas\<close>

lemma fgets_step:
  assumes "fgets 512 s = Some (l, r)"
  shows "read_lines 512 s = l # read_lines 512 r" "s = l @ r" "l \<noteq> []" "s \<noteq> []"
proof -
  have c: "s \<noteq> []" "fgets_chunk 511 s = (l, r)" using assms by (auto simp: fgets_def split: if_splits)
  show "read_lines 512 s = l # read_lines 512 r" using read_lines_step [of 512 s l r] c by simp
  show "s = l @ r" using fgets_chunk_append [OF c(2)] by simp
  show "l \<noteq> []" using fgets_chunk_nonempty [OF c(2) _ c(1)] by simp
  show "s \<noteq> []" by (fact c(1))
qed

lemma fgets_none: "fgets 512 s = None \<longleftrightarrow> s = []"
  by (simp add: fgets_def)

text \<open>The message of \<^verbatim>\<open>print_proc_file\<close> is missing for one unterminated line too many.\<close>

definition just_missed :: "nat \<Rightarrow> string \<Rightarrow> bool" where
  "just_missed k s \<longleftrightarrow> length (read_lines 512 s) = Suc k \<and> last s \<noteq> NL \<and> length (last (read_lines 512 s)) < 511"

lemma read_lines_nonempty: "s \<noteq> [] \<Longrightarrow> read_lines 512 s \<noteq> []"
  using concat_read_lines [of 512 s] by auto

lemma proc_file_loop_eq:
  "proc_file_loop k s = (map (\<lambda>l. Printf ''  %s'' [Str l]) (take k (read_lines 512 s)),
     length (read_lines 512 s) \<le> k \<or> just_missed k s)"
proof (induction k s rule: proc_file_loop.induct)
  case (1 s)
  show ?case
  proof (cases "fgets 512 s")
    case None
    then show ?thesis using fgets_none [of s] by (simp add: fgets_def)
  next
    case (Some p)
    then obtain l r where p: "fgets 512 s = Some (l, r)" by (cases p) auto
    note f = fgets_step [OF p]
    have "feof_after l r \<longleftrightarrow> just_missed 0 s"
      using f read_lines_nonempty [of r] by (cases "r = []") (auto simp: feof_after_def just_missed_def)
    then show ?thesis using p f by simp
  qed
next
  case (2 k s)
  show ?case
  proof (cases "fgets 512 s")
    case None
    then show ?thesis using fgets_none [of s] by (simp add: fgets_def)
  next
    case (Some p)
    then obtain l r where p: "fgets 512 s = Some (l, r)" by (cases p) auto
    note f = fgets_step [OF p]
    have "just_missed k r \<longleftrightarrow> just_missed (Suc k) s"
      using f read_lines_nonempty [of r] by (cases "r = []") (auto simp: just_missed_def)
    then show ?thesis using p f 2 [OF p refl] by simp
  qed
qed

lemma smaps_loop_first:
  assumes "\<forall>x\<in>set pre. \<not> strstr x target" "strstr l target"
  shows "\<exists>os. smaps_loop target False 0 (pre @ l # rest) = Printf ''  %s'' [Str l] # os"
  using assms by (induction pre) (auto simp: Let_def)

lemma show_hex_no_NL: "NL \<notin> set (show_hex n)"
proof (induction n rule: show_hex.induct)
  case (1 n)
  have "NL \<noteq> digit d" if "d < 16" for d
  proof -
    have "of_char (digit d) \<noteq> (of_char NL :: nat)" using that by (simp add: digit_def NL_def)
    then show ?thesis by auto
  qed
  with 1 show ?case by (subst show_hex.simps) auto
qed

lemma length_show_hex: "n < 16 ^ k \<Longrightarrow> 0 < k \<Longrightarrow> length (show_hex n) \<le> k"
proof (induction n arbitrary: k rule: show_hex.induct)
  case (1 n)
  show ?case
  proof (cases "n < 16")
    case True
    then show ?thesis using 1 by (subst show_hex.simps) simp
  next
    case False
    then obtain j where k: "k = Suc j" "0 < j" using 1(2,3) by (cases k; cases "k - 1") auto
    then have "n div 16 < 16 ^ j" using 1(2) by (simp add: less_mult_imp_div_less mult.commute)
    then show ?thesis using False 1(1) [of j] k by (subst show_hex.simps) simp
  qed
qed

lemma lines_of_first: "NL \<notin> set a \<Longrightarrow> lines_of (a @ NL # s) = (a @ [NL]) # lines_of s"
  by (induction a) auto

lemma fgets_chunk_line: "NL \<notin> set a \<Longrightarrow> length a < k \<Longrightarrow> fgets_chunk k (a @ NL # s) = (a @ [NL], s)"
  by (induction a arbitrary: k) auto

lemma meminfo_count:
  "length (meminfo_line l) = (if Option.bind (scan_key l) (map_of annotations) = None then 1 else 2)
   \<and> last (meminfo_line l) = Printf ''  %s'' [Str l]"
  by (auto simp: meminfo_line_def split: option.splits)

section \<open>Properties\<close>

text \<open>
  C38. \<^verbatim>\<open>print_proc_file\<close> prints the first \<open>max_lines\<close> buffers of the file and announces a truncation
  exactly when it dropped something, with one exception: if a single unterminated line follows the
  last one printed, it is dropped without a word.
\<close>

theorem print_proc_file_output:
  assumes "fs path = Some s"
  shows "print_proc_file fs strerr path k =
    map (\<lambda>l. Printf ''  %s'' [Str l]) (take k (read_lines 512 s))
    @ (if k < length (read_lines 512 s) \<and> \<not> just_missed k s
       then [Printf ''  ... (truncated at %d lines)'' [Num (int k)]] else [])"
  using assms by (auto simp: print_proc_file_def proc_file_loop_eq not_le)

theorem print_proc_file_output_witness:
  "print_proc_file (\<lambda>_. Some (''a'' @ [NL] @ ''b'' @ [NL])) (\<lambda>_. '''') ''/proc/1/status'' 1
     = [Printf ''  %s'' [Str (''a'' @ [NL])], Printf ''  ... (truncated at %d lines)'' [Num 1]]
   \<and> print_proc_file (\<lambda>_. Some (''a'' @ [NL] @ ''b'')) (\<lambda>_. '''') ''/proc/1/status'' 1
     = [Printf ''  %s'' [Str (''a'' @ [NL])]]"
proof -
  have nl: "CHR ''a'' \<noteq> NL" "CHR ''b'' \<noteq> NL" by (simp_all add: NL_def)
  have 1: "read_lines 512 (''a'' @ [NL] @ ''b'' @ [NL]) = [''a'' @ [NL], ''b'' @ [NL]]"
    by (subst read_lines_short) (auto simp: nl)
  have 2: "read_lines 512 (''a'' @ [NL] @ ''b'') = [''a'' @ [NL], ''b'']"
    by (subst read_lines_short) (auto simp: nl)
  show ?thesis
    using print_proc_file_output [of "\<lambda>_. Some (''a'' @ [NL] @ ''b'' @ [NL])" "''/proc/1/status''" _ "\<lambda>_. ''''" 1]
      print_proc_file_output [of "\<lambda>_. Some (''a'' @ [NL] @ ''b'')" "''/proc/1/status''" _ "\<lambda>_. ''''" 1]
    by (simp add: 1 [simplified] 2 [simplified] just_missed_def nl)
qed

text \<open>
  Exercise 2 looks for its mapping by searching each line of \<^verbatim>\<open>smaps\<close> for the address, and the
  header line of a mapping that ends at this address contains it too: if such a neighbour comes
  first, its entry is printed instead of the entry of the new mapping.
\<close>

theorem smaps_neighbour:
  assumes "addr < 2 ^ 64" "lo < 2 ^ 64" "NL \<notin> set perms" "length perms < 200"
    and "fs ''/proc/self/smaps'' = Some (show_hex lo @ ''-'' @ show_hex addr @ perms @ NL # rest)"
  shows "\<exists>os. ex_mm_struct fs strerr (Some addr) = print_proc_file fs strerr ''/proc/self/maps'' 25
    @ Printf ''  %s'' [Str (show_hex lo @ ''-'' @ show_hex addr @ perms @ [NL])] # os"
proof -
  let ?a = "show_hex lo @ ''-'' @ show_hex addr @ perms"
  have len: "length (show_hex lo) \<le> 16" "length (show_hex addr) \<le> 16"
    using length_show_hex [of lo 16] length_show_hex [of addr 16] assms(1,2) by simp_all
  have "fgets_chunk 255 (?a @ NL # rest) = (?a @ [NL], rest)"
    using assms(3,4) len show_hex_no_NL by (intro fgets_chunk_line) (auto simp: NL_def)
  then have r: "read_lines 256 (?a @ NL # rest) = (?a @ [NL]) # read_lines 256 rest"
    by (intro read_lines_step) auto
  have "strstr (?a @ [NL]) (show_hex addr)" unfolding strstr_iff
    by (intro exI [of _ "show_hex lo @ ''-''"] exI [of _ "perms @ [NL]"]) simp
  moreover have "snprintf 32 (show_hex addr) = show_hex addr" using len by simp
  ultimately show ?thesis
    using smaps_loop_first [of "[]" "show_hex addr" "?a @ [NL]" "read_lines 256 rest"] r
    by (simp add: ex_mm_struct_def with_file_def assms(5))
qed

theorem smaps_neighbour_witness:
  "\<exists>os. ex_mm_struct (\<lambda>p. if p = ''/proc/self/smaps''
        then Some (show_hex 4096 @ ''-'' @ show_hex 8192 @ '' rw-p'' @ NL # show_hex 8192 @ ''-'' @ show_hex 12288 @ '' rw-p'')
        else None) (\<lambda>_. ''denied'') (Some 8192)
     = Printf ''  [cannot open %s: %s]'' [Str ''/proc/self/maps'', Str ''denied'']
       # Printf ''  %s'' [Str (show_hex 4096 @ ''-'' @ show_hex 8192 @ '' rw-p'' @ [NL])] # os"
  using smaps_neighbour [of 8192 4096 "'' rw-p''"
      "\<lambda>p. if p = ''/proc/self/smaps''
        then Some (show_hex 4096 @ ''-'' @ show_hex 8192 @ '' rw-p'' @ NL # show_hex 8192 @ ''-'' @ show_hex 12288 @ '' rw-p'')
        else None"
      "show_hex 8192 @ ''-'' @ show_hex 12288 @ '' rw-p''" "\<lambda>_. ''denied''"]
  by (simp add: print_proc_file_def NL_def)

text \<open>
  The memory exercises report the sums of what they wrote: a fresh mapping reads as zeros
  (checksum 0, 8192 pages expected), and the two scans of 256 MiB filled with ones and with twos
  give 65536 and 131072.
\<close>

theorem exercise_scans:
  "Printf ''    minor faults: %ld  (checksum=%ld)'' [Num (fst (get_faults (ru 3)) - fst (get_faults (ru 2))), Num 0]
      \<in> set (ex_page_fault_lifecycle fs pid ru (Some a))
   \<and> Printf ''    minor faults: %ld  (expected ~%ld)'' [Num (fst (get_faults (ru 5)) - fst (get_faults (ru 4))), Num 8192]
      \<in> set (ex_page_fault_lifecycle fs pid ru (Some a))
   \<and> Printf ''  Random-stride scan 256 MiB (4K pages): %.3f s  (s=%ld)'' [Dbl (now_sec (clk 1) - now_sec (clk 0)), Num 65536]
      \<in> set (ex_huge_pages fs' strerr (Some b) clk)
   \<and> Printf ''  Random-stride scan 256 MiB (THP/2M):   %.3f s  (s=%ld)'' [Dbl (now_sec (clk 3) - now_sec (clk 2)), Num 131072]
      \<in> set (ex_huge_pages fs' strerr (Some b) clk)"
proof -
  have z: "scan_char zero_pages (offsets 0 4096 LIFE_SZ) 0 = 0"
    using scan_char_const [of _ zero_pages 0 0] by (simp add: zero_pages_def)
  have e: "int (LIFE_SZ div 4096) = 8192" by (simp add: LIFE_SZ_def)
  have scan: "scan_char (memset 0 v HUGE_SZ m) (offsets 0 4096 HUGE_SZ) 0 = 65536 * sint v" for v m
    using scan_char_const [of "offsets 0 4096 HUGE_SZ" "memset 0 v HUGE_SZ m" v 0]
      offsets_less [of _ 0 4096 HUGE_SZ] length_offsets [of 4096 HUGE_SZ]
    by (simp add: memset_def HUGE_SZ_def)
  have "set (ex_page_fault_lifecycle fs pid ru (Some a)) \<supseteq>
      {Printf ''    minor faults: %ld  (checksum=%ld)'' [Num (fst (get_faults (ru 3)) - fst (get_faults (ru 2))), Num 0],
       Printf ''    minor faults: %ld  (expected ~%ld)'' [Num (fst (get_faults (ru 5)) - fst (get_faults (ru 4))), Num 8192]}"
    by (simp add: ex_page_fault_lifecycle_def Let_def z e)
  moreover have "set (ex_huge_pages fs' strerr (Some b) clk) \<supseteq>
      {Printf ''  Random-stride scan 256 MiB (4K pages): %.3f s  (s=%ld)'' [Dbl (now_sec (clk 1) - now_sec (clk 0)), Num 65536],
       Printf ''  Random-stride scan 256 MiB (THP/2M):   %.3f s  (s=%ld)'' [Dbl (now_sec (clk 3) - now_sec (clk 2)), Num 131072]}"
    by (simp add: ex_huge_pages_def Let_def scan)
  ultimately show ?thesis by blast
qed

text \<open>
  Exercise 9 always reports exit status 42 for its child. The child's own lines appear only if
  standard output is line buffered: \<^verbatim>\<open>_exit\<close> drops what is still in the buffer, so when the
  output goes to a file or a pipe they are lost.
\<close>

theorem lineage_output:
  "Printf ''  Parent reaped PID %d: exit_status=%d'' [Num (li_child e), Num 42] \<in> set (ex_process_lineage e)
   \<and> (Printf ''  Child: about to exit(42)'' [] \<in> set (ex_process_lineage e) \<longleftrightarrow> line_buffered e)"
proof -
  have f: "Printf ''  Child: about to exit(42)'' [] \<notin> set (print_first n sel fmt c)" for n sel fmt c
    by (simp add: print_first_def split: option.splits)
  show ?thesis
    using f by (auto simp: ex_process_lineage_def lineage_child_def lineage_parent_def exit_status_def
        WIFEXITED_def WEXITSTATUS_def split: option.splits)
qed

text \<open>
  The tour of \<^verbatim>\<open>/proc/meminfo\<close> prints every line of the file once as it is, and in addition the
  value of each line with a known key next to its explanation, so those values appear twice.
\<close>

theorem meminfo_twice:
  assumes "fs ''/proc/meminfo'' = Some c" "short_lines 256 c"
  shows "filter (\<lambda>x. \<exists>l. x = Printf ''  %s'' [Str l]) (ex_meminfo_tour fs)
      = map (\<lambda>l. Printf ''  %s'' [Str l]) (lines_of c)
    \<and> length (ex_meminfo_tour fs) = length (lines_of c)
      + length (filter (\<lambda>l. Option.bind (scan_key l) (map_of annotations) \<noteq> None) (lines_of c))"
proof -
  have e: "ex_meminfo_tour fs = concat (map meminfo_line (lines_of c))"
    using assms by (simp add: ex_meminfo_tour_def read_lines_short)
  have raw: "filter (\<lambda>x. \<exists>l. x = Printf ''  %s'' [Str l]) (meminfo_line l) = [Printf ''  %s'' [Str l]]" for l
    by (auto simp: meminfo_line_def split: option.splits)
  have "filter (\<lambda>x. \<exists>l. x = Printf ''  %s'' [Str l]) (concat (map meminfo_line ls))
      = map (\<lambda>l. Printf ''  %s'' [Str l]) ls" for ls
    by (induction ls) (simp_all add: raw)
  moreover have "length (concat (map meminfo_line ls))
      = length ls + length (filter (\<lambda>l. Option.bind (scan_key l) (map_of annotations) \<noteq> None) ls)" for ls
    by (induction ls) (simp_all add: meminfo_count)
  ultimately show ?thesis unfolding e by blast
qed

theorem meminfo_twice_witness:
  "length (ex_meminfo_tour (\<lambda>_. Some (''MemFree: 7 kB'' @ [NL]))) = 2"
proof -
  have l: "lines_of (''MemFree: 7 kB'' @ [NL]) = [''MemFree: 7 kB'' @ [NL]]" by (simp add: NL_def)
  have k: "scan_key (''MemFree: 7 kB'' @ [NL]) = Some ''MemFree''" by (simp add: scan_key_def)
  show ?thesis
    using meminfo_twice [of "\<lambda>_. Some (''MemFree: 7 kB'' @ [NL])" "''MemFree: 7 kB'' @ [NL]"]
    unfolding l by (simp add: k [simplified] annotations_def)
qed

end
