(* ===== verification/ContextSwitch.thy ===== *)
theory ContextSwitch
  imports ProcFs
begin

text \<open>
  \<^verbatim>\<open>labs/lab_15_context_switching.c\<close>: the ping-pong over two pipes between a process and its child
  (or a thread), as a step relation on the contents of the pipes, and the statistics the lab
  prints. Both ends of both pipes stay open on both sides, so a read from an empty pipe blocks.
  The time a round takes is the system's.
\<close>

section \<open>Ping-pong\<close>

datatype pp_pc = PpWrite | PpRead

record pp_state =
  pipe1 :: "u8 list"
  pipe2 :: "u8 list"
  ping_i :: nat
  ping_pc :: pp_pc
  ping_c :: u8
  pong_i :: nat
  pong_pc :: pp_pc
  pong_c :: u8

definition pp_start :: pp_state where
  "pp_start = \<lparr>pipe1 = [], pipe2 = [], ping_i = 0, ping_pc = PpWrite, ping_c = 0,
     pong_i = 0, pong_pc = PpRead, pong_c = 0\<rparr>"

text \<open>The capacity of a pipe on Linux.\<close>

definition PIPE_CAP :: nat where [src_consts]: "PIPE_CAP = 65536"

text \<open>The measuring side: \<open>n\<close> times write one byte to \<open>p1\<close>, read one from \<open>p2\<close>.\<close>

inductive ping :: "nat \<Rightarrow> pp_state \<Rightarrow> pp_state \<Rightarrow> bool" for n where
  ping_write: "ping_i s < n \<Longrightarrow> ping_pc s = PpWrite \<Longrightarrow> length (pipe1 s) < PIPE_CAP \<Longrightarrow>
     ping n s (s\<lparr>pipe1 := pipe1 s @ [ping_c s], ping_pc := PpRead\<rparr>)"
| ping_read: "ping_pc s = PpRead \<Longrightarrow> pipe2 s = b # r \<Longrightarrow>
     ping n s (s\<lparr>pipe2 := r, ping_c := b, ping_i := Suc (ping_i s), ping_pc := PpWrite\<rparr>)"

text \<open>The other side, the child of phase 1 and \<^verbatim>\<open>thread_ping\<close> of phase 2: read, then write.\<close>

inductive thread_ping :: "nat \<Rightarrow> pp_state \<Rightarrow> pp_state \<Rightarrow> bool" for n where
  pong_read: "pong_i s < n \<Longrightarrow> pong_pc s = PpRead \<Longrightarrow> pipe1 s = b # r \<Longrightarrow>
     thread_ping n s (s\<lparr>pipe1 := r, pong_c := b, pong_pc := PpWrite\<rparr>)"
| pong_write: "pong_pc s = PpWrite \<Longrightarrow> length (pipe2 s) < PIPE_CAP \<Longrightarrow>
     thread_ping n s (s\<lparr>pipe2 := pipe2 s @ [pong_c s], pong_i := Suc (pong_i s), pong_pc := PpRead\<rparr>)"

definition pp_step :: "nat \<Rightarrow> pp_state \<Rightarrow> pp_state \<Rightarrow> bool" where
  "pp_step n s t \<longleftrightarrow> ping n s t \<or> thread_ping n s t"

definition pp_done :: "nat \<Rightarrow> pp_state \<Rightarrow> bool" where
  "pp_done n s \<longleftrightarrow> ping_i s = n \<and> pong_i s = n \<and> ping_pc s = PpWrite \<and> pong_pc s = PpRead"

definition PP_N :: nat where [src_consts]: "PP_N = 100000"

definition demo_ctx_switch_cost :: "double \<Rightarrow> out list" where
  "demo_ctx_switch_cost elapsed =
     [Printf ''  %d round-trips via pipe: %.0f ns total'' [Num (int PP_N), Dbl elapsed],
      Printf ''  Per context switch: ~%.0f ns (%.1f us)''
        [Dbl (elapsed / (2 * real PP_N)), Dbl (elapsed / (2000 * real PP_N))]]"

definition demo_thread_switch :: "double \<Rightarrow> out list" where
  "demo_thread_switch elapsed = [Printf ''  Thread switch: ~%.0f ns per switch'' [Dbl (elapsed / (2 * real PP_N))]]"

section \<open>Statistics\<close>

definition demo_voluntary_stats :: "files \<Rightarrow> int \<Rightarrow> out list" where
  "demo_voluntary_stats fs pid =
     with_file fs (proc_path 128 pid ''status'')
       (print_matching 256 (\<lambda>l. strstr l ''ctxt_switches'' \<or> strstr l ''voluntary'') ''  %s'')"

definition demo_getpid_latency :: "double \<Rightarrow> out list" where
  "demo_getpid_latency elapsed =
     [Printf ''  getpid() x%d: %.0f ns total, ~%.2f ns/call''
        [Num 1000000, Dbl elapsed, Dbl (elapsed / 1000000)]]"

definition lab15_main :: "files \<Rightarrow> int \<Rightarrow> double \<Rightarrow> double \<Rightarrow> double \<Rightarrow> out list" where
  "lab15_main fs pid t1 t2 t3 =
     demo_ctx_switch_cost t1 @ demo_thread_switch t2 @ demo_voluntary_stats fs pid @ demo_getpid_latency t3"

section \<open>Invariant\<close>

text \<open>At any time exactly one of the two sides has something to do: the token is in one place.\<close>

definition pp_inv :: "nat \<Rightarrow> pp_state \<Rightarrow> bool" where
  "pp_inv n s \<longleftrightarrow> ping_c s = 0 \<and> ping_i s \<le> n \<and> (ping_pc s = PpRead \<longrightarrow> ping_i s < n)
     \<and> (case (ping_pc s, pong_pc s) of
          (PpWrite, PpRead) \<Rightarrow> pipe1 s = [] \<and> pipe2 s = [] \<and> pong_i s = ping_i s
        | (PpRead, PpWrite) \<Rightarrow> pipe1 s = [] \<and> pipe2 s = [] \<and> pong_i s = ping_i s \<and> pong_c s = 0
        | (PpRead, PpRead) \<Rightarrow> (pipe1 s = [0] \<and> pipe2 s = [] \<and> pong_i s = ping_i s)
                            \<or> (pipe1 s = [] \<and> pipe2 s = [0] \<and> pong_i s = Suc (ping_i s))
        | (PpWrite, PpWrite) \<Rightarrow> False)"

definition pp_variant :: "nat \<Rightarrow> pp_state \<Rightarrow> nat" where
  "pp_variant n s = 4 * (n - ping_i s)
     - (if ping_pc s = PpWrite then 0 else if pong_pc s = PpWrite then 2 else if pipe2 s = [] then 1 else 3)"

lemma pp_inv_step: "pp_inv n s \<Longrightarrow> pp_step n s t \<Longrightarrow> pp_inv n t"
  unfolding pp_step_def
  by (elim disjE ping.cases thread_ping.cases) (auto simp: pp_inv_def split: pp_pc.splits)

lemma pp_exact: "pp_inv n s \<Longrightarrow> pp_step n s t \<Longrightarrow> pp_variant n s = Suc (pp_variant n t)"
  unfolding pp_step_def
  by (elim disjE ping.cases thread_ping.cases) (auto simp: pp_inv_def pp_variant_def split: pp_pc.splits)

lemma pp_progress:
  assumes "pp_inv n s" "\<not> pp_done n s"
  shows "\<exists>t. pp_step n s t"
proof (cases "ping_pc s"; cases "pong_pc s")
  assume pc: "ping_pc s = PpWrite" "pong_pc s = PpRead"
  then have "ping_i s < n" "pipe1 s = []" using assms by (auto simp: pp_inv_def pp_done_def)
  then show ?thesis using pc ping.ping_write [of s n] by (auto simp: pp_step_def PIPE_CAP_def)
next
  assume pc: "ping_pc s = PpRead" "pong_pc s = PpWrite"
  then have "pipe2 s = []" using assms by (auto simp: pp_inv_def)
  then show ?thesis using pc thread_ping.pong_write [of s n] by (auto simp: pp_step_def PIPE_CAP_def)
next
  assume pc: "ping_pc s = PpRead" "pong_pc s = PpRead"
  then consider "pipe1 s = [0]" "pong_i s < n" | "pipe2 s = [0]" using assms by (auto simp: pp_inv_def)
  then show ?thesis
    using pc thread_ping.pong_read [of s n 0 "[]"] ping.ping_read [of s 0 "[]" n] by cases (auto simp: pp_step_def)
qed (use assms in \<open>auto simp: pp_inv_def\<close>)

interpretation pp: ending_system pp_start "pp_step n" "pp_inv n" "pp_done n" "pp_variant n" for n
proof
  show "pp_inv n pp_start" by (simp add: pp_inv_def pp_start_def)
  show "pp_variant n t < pp_variant n s" if "pp_inv n s" "pp_step n s t" for s t
    using pp_exact [OF that] by simp
qed (fact pp_inv_step pp_progress)+

lemma pp_run_exact: "(pp_step n ^^ k) pp_start s \<Longrightarrow> pp_inv n s \<and> k + pp_variant n s = 4 * n"
proof (induction k arbitrary: s)
  case 0
  then have "s = pp_start" by auto
  then show ?case using pp.inv_start by (simp add: pp_variant_def pp_start_def)
next
  case (Suc k)
  then obtain u where u: "(pp_step n ^^ k) pp_start u" "pp_step n u s" by auto
  then have "pp_inv n u" "k + pp_variant n u = 4 * n" using Suc.IH by auto
  then show ?case using pp_exact [OF _ u(2)] pp_inv_step [OF _ u(2)] by auto
qed

section \<open>Property\<close>

text \<open>
  C28. The measurement loop of lab 15: however the two sides are scheduled, there is never more than
  one byte under way, neither side waits forever, and the run ends after exactly four operations
  per round trip, when both have counted all round trips, so dividing by twice their number gives
  the time per switch.
\<close>

theorem ping_pong:
  assumes "(pp_step PP_N ^^ k) pp_start s"
  shows "length (pipe1 s) + length (pipe2 s) \<le> 1
    \<and> (\<exists>e. (pp_step PP_N)\<^sup>*\<^sup>* s e \<and> pp_done PP_N e)
    \<and> ((\<nexists>t. pp_step PP_N s t) \<longleftrightarrow> k = 400000)
    \<and> (pp_done PP_N s \<longleftrightarrow> k = 400000)"
proof -
  have inv: "pp_inv PP_N s" and v: "k + pp_variant PP_N s = 400000"
    using pp_run_exact [OF assms] by (simp_all add: PP_N_def)
  have d: "pp_done PP_N s \<longleftrightarrow> pp_variant PP_N s = 0"
    using inv by (auto simp: pp_inv_def pp_done_def pp_variant_def split: pp_pc.splits)
  have "(\<nexists>t. pp_step PP_N s t) \<longleftrightarrow> pp_done PP_N s"
    using pp_progress [OF inv] pp_exact [OF inv] d by (metis nat.distinct(1))
  moreover have "length (pipe1 s) + length (pipe2 s) \<le> 1"
    using inv by (auto simp: pp_inv_def split: pp_pc.splits)
  moreover note pp.ends_from [OF inv]
  moreover have "pp_done PP_N s \<longleftrightarrow> k = 400000" using d v by auto
  ultimately show ?thesis by blast
qed

theorem ping_pong_witness:
  "\<exists>s. (pp_step PP_N ^^ 400000) pp_start s \<and> pp_done PP_N s"
proof -
  obtain e where "(pp_step PP_N)\<^sup>*\<^sup>* pp_start e" "pp_done PP_N e" using pp.reaches_end by blast
  moreover then obtain k where "(pp_step PP_N ^^ k) pp_start e" by (blast dest: rtranclp_imp_relpowp)
  ultimately show ?thesis using ping_pong by blast
qed

end
