(* ===== verification/MemoryLabs.thy ===== *)
theory MemoryLabs
  imports ProcFs Clock DemandPaging "HOL-Library.Multiset"
begin

text \<open>
  The labs that measure memory and storage: \<^verbatim>\<open>lab_09_paging_deep.c\<close>, \<^verbatim>\<open>lab_11_tlb_hugepages.c\<close>,
  \<^verbatim>\<open>lab_26_signals_demand.c\<close>, \<^verbatim>\<open>lab_28_page_replace.c\<close>, \<^verbatim>\<open>lab_29_storage_fs.c\<close> and
  \<^verbatim>\<open>lab_40_gpu_os.c\<close>. Each demonstration is the list of lines it prints; fault counters, clock
  readings, \<^verbatim>\<open>mmap\<close> results and file contents are parameters (\<open>clk k\<close> is the k-th clock reading of
  the demonstration, \<open>ru k\<close> the k-th reading of the fault counters). A mapping that is used
  without a test for failure makes the run die.
\<close>

section \<open>Lab 09\<close>

definition demo_fault_counting :: "(nat \<Rightarrow> rusage) \<Rightarrow> nat option \<Rightarrow> int \<Rightarrow> run" where
  "demo_fault_counting ru p pagesize =
     (let minor = (\<lambda>k. Num (fst (get_faults (ru (k + 1))) - fst (get_faults (ru k))));
          o1 = [Printf ''  After mmap(16MiB): minor_faults=%ld (mapping metadata only)'' [minor 0]]
      in case p of None \<Rightarrow> Inl o1
         | Some _ \<Rightarrow>
            Inr (o1 @ [Printf ''  After memset(16MiB): minor_faults=%ld (~%ld pages touched)''
                         [minor 2, Num (16 * 1024 * 1024 div pagesize)],
                       Printf ''  After 2nd memset:    minor_faults=%ld (pages already present)'' [minor 4]]))"

fun smaps_entry :: "string \<Rightarrow> bool \<Rightarrow> string list \<Rightarrow> out list" where
  "smaps_entry target found [] = []"
| "smaps_entry target found (l # ls) =
     (if found \<or> strstr l target
      then Printf ''  %s'' [Str l] # (if starts_with ''VmFlags'' l then [] else smaps_entry target True ls)
      else smaps_entry target False ls)"

definition demo_smaps :: "files \<Rightarrow> nat option \<Rightarrow> run" where
  "demo_smaps fs p =
     (case p of None \<Rightarrow> Inl []
      | Some a \<Rightarrow> Inr (with_file fs ''/proc/self/smaps''
          (\<lambda>c. smaps_entry (snprintf 32 (show_hex a)) False (read_lines 512 c))))"

text \<open>\<^verbatim>\<open>VmRSS\<close> from \<^verbatim>\<open>/proc/self/status\<close>; the variable keeps 0 if the line or its number is missing.\<close>

definition read_rss :: "files \<Rightarrow> int" where
  "read_rss fs =
     (case fs ''/proc/self/status'' of None \<Rightarrow> 0
      | Some c \<Rightarrow>
          (case find (starts_with ''VmRSS:'') (read_lines 256 c) of None \<Rightarrow> 0
           | Some l \<Rightarrow> (case scan_int (drop 6 l) of None \<Rightarrow> 0 | Some (v, _) \<Rightarrow> v)))"

definition demo_madvise_dontneed ::
  "files \<Rightarrow> files \<Rightarrow> bool \<Rightarrow> nat option \<Rightarrow> (nat \<Rightarrow> rusage) \<Rightarrow> out list" where
  "demo_madvise_dontneed before after madvise_ok p ru =
     (case p of None \<Rightarrow> [Perror ''mmap'']
      | Some _ \<Rightarrow>
          (let rss_before = read_rss before; rss_after = read_rss after in
           [Printf ''  RSS before MADV_DONTNEED: %ld kB'' [Num rss_before]]
           @ (if madvise_ok then [] else [Perror ''madvise''])
           @ [Printf ''  RSS after  MADV_DONTNEED: %ld kB  (dropped ~%ld kB)''
                [Num rss_after, Num (rss_before - rss_after)],
              Printf ''  Re-touch after DONTNEED: minor_faults=%ld  major_faults=%ld''
                [Num (ru_minflt (ru 1) - ru_minflt (ru 0)), Num (ru_majflt (ru 1) - ru_majflt (ru 0))]]))"

record paging_deep_env =
  pd_faults :: "nat \<Rightarrow> rusage"
  pd_map16 :: "nat option"
  pd_pagesize :: int
  pd_files :: files
  pd_map4 :: "nat option"
  pd_before :: files
  pd_after :: files
  pd_madvise :: bool
  pd_map8 :: "nat option"
  pd_retouch :: "nat \<Rightarrow> rusage"

definition lab09_main :: "paging_deep_env \<Rightarrow> run" where
  "lab09_main e =
     run_then (demo_fault_counting (pd_faults e) (pd_map16 e) (pd_pagesize e))
       (run_then (demo_smaps (pd_files e) (pd_map4 e))
          (Inr (demo_madvise_dontneed (pd_before e) (pd_after e) (pd_madvise e) (pd_map8 e) (pd_retouch e))))"

section \<open>Lab 11\<close>

definition TLB_SZ :: nat where "TLB_SZ = 256 * 1024 * 1024"

definition demo_tlb_pressure :: "nat option \<Rightarrow> int \<Rightarrow> (nat \<Rightarrow> timespec) \<Rightarrow> out list" where
  "demo_tlb_pressure mem ps clk =
     (case mem of None \<Rightarrow> [Perror ''mmap'']
      | Some _ \<Rightarrow>
          (let t_page = now_sec (clk 1) - now_sec (clk 0); t_seq = now_sec (clk 3) - now_sec (clk 2) in
           [Printf ''  Page-stride (%ld B): %.4fs'' [Num ps, Dbl t_page],
            Printf ''  Cache-line stride (64B): %.4fs'' [Dbl t_seq],
            Printf ''  Ratio: %.1fx'' [Dbl (t_page / t_seq)]]))"

text \<open>The sums the two loops of \<^verbatim>\<open>demo_tlb_pressure\<close> compute.\<close>

definition tlb_sum :: "nat \<Rightarrow> int" where
  "tlb_sum stride = scan_char (memset 0 1 TLB_SZ zero_pages) (offsets 0 stride TLB_SZ) 0"

definition demo_hugepages :: "files \<Rightarrow> nat option \<Rightarrow> out list" where
  "demo_hugepages fs hp =
     (case fs ''/proc/meminfo'' of None \<Rightarrow> []
      | Some c \<Rightarrow>
          print_matching 256 (\<lambda>l. strstr l ''HugePages'' \<or> strstr l ''Hugepagesize'') ''  %s'' c
          @ (case hp of
               Some a \<Rightarrow> [Printf ''  Successfully allocated 2MiB huge page at %p'' [Ptr (of_nat a)],
                         Printf ''  One TLB entry covers 2MiB instead of 4KiB = 512x better coverage.'' []]
             | None \<Rightarrow> [Printf ''  Huge page allocation failed (need: echo 10 > /proc/sys/vm/nr_hugepages)'' [],
                        Printf ''  In GPU DCs, huge pages are critical for DMA buffers and RDMA registrations.'' []]))"

definition demo_boot_overview :: "string option \<Rightarrow> out list" where
  "demo_boot_overview dmesg =
     (case dmesg of None \<Rightarrow> [Printf ''  (need root for dmesg)'' []]
      | Some c \<Rightarrow> print_matching 256 (\<lambda>_. True) ''  %s'' c)"

definition demo_strided_benchmark :: "nat option \<Rightarrow> (nat \<Rightarrow> timespec) \<Rightarrow> out list" where
  "demo_strided_benchmark mem clk =
     (case mem of None \<Rightarrow> [Perror ''mmap'']
      | Some _ \<Rightarrow>
          [Printf ''  Stride 1B   (sequential):   %.4f s  (best cache + TLB behavior)'' [Dbl (now_sec (clk 1) - now_sec (clk 0))],
           Printf ''  Stride 64B  (cache-line):   %.4f s'' [Dbl (now_sec (clk 3) - now_sec (clk 2))],
           Printf ''  Stride 4KB  (page-stride):  %.4f s  (TLB thrash with 4K pages)'' [Dbl (now_sec (clk 5) - now_sec (clk 4))],
           Printf ''  Stride 2MB  (huge-stride):  %.4f s  (TLB thrash regardless of page size)'' [Dbl (now_sec (clk 7) - now_sec (clk 6))]])"

definition lab11_main ::
  "files \<Rightarrow> int \<Rightarrow> nat option \<Rightarrow> (nat \<Rightarrow> timespec) \<Rightarrow> nat option \<Rightarrow> string option \<Rightarrow> nat option
   \<Rightarrow> (nat \<Rightarrow> timespec) \<Rightarrow> out list" where
  "lab11_main fs ps mem clk hp dmesg mem2 clk2 =
     demo_tlb_pressure mem ps clk @ demo_hugepages fs hp @ demo_boot_overview dmesg
     @ demo_strided_benchmark mem2 clk2"

section \<open>Lab 26\<close>

definition SIGUSR1 :: int where "SIGUSR1 = 10"

text \<open>The handler stores the signal number; \<^verbatim>\<open>kill\<close> of the own process delivers before it returns.\<close>

definition handler :: "int \<Rightarrow> int \<Rightarrow> int" where
  "handler sig got_signal = sig"

definition lab26_main :: "int \<Rightarrow> (nat \<Rightarrow> int) \<Rightarrow> nat option \<Rightarrow> run" where
  "lab26_main pid minflt p =
     (let got_signal = handler SIGUSR1 0;
          o1 = [Printf ''  Sending SIGUSR1 to self (PID %d)...'' [Num pid],
                Printf ''  Handler received signal: %d (%s)''
                  [Num got_signal, Str (if got_signal = SIGUSR1 then ''SIGUSR1'' else ''?'')],
                Printf ''  mmap 100 pages: faults=%ld (just metadata)'' [Num (minflt 1 - minflt 0)]]
      in case p of None \<Rightarrow> Inl o1
         | Some _ \<Rightarrow>
             Inr (o1 @ [Printf ''  touch 100 pages: faults=%ld (demand paging!)'' [Num (minflt 2 - minflt 1)],
                        Printf ''  sigaction flags: SA_SIGINFO=0x%x SA_RESTART=0x%x SA_NODEFER=0x%x''
                          [Num 4, Num 0x10000000, Num 0x40000000]]))"

section \<open>Lab 28\<close>

definition WS_SZ :: nat where "WS_SZ = 64 * 1024 * 1024"

text \<open>
  The pages the two loops touch: three sequential sweeps, then as many accesses at
  \<^verbatim>\<open>(rand() % (sz/4096)) * 4096\<close>, where the \<^verbatim>\<open>int\<close> from \<^verbatim>\<open>rand\<close> is converted to \<^verbatim>\<open>size_t\<close>.
\<close>

definition seq_accesses :: "nat list" where
  "seq_accesses = concat (replicate 3 (offsets 0 4096 WS_SZ))"

definition rnd_index :: "int \<Rightarrow> nat" where
  "rnd_index r = unat (of_int r :: u64) mod (WS_SZ div 4096) * 4096"

definition rnd_accesses :: "(nat \<Rightarrow> int) \<Rightarrow> nat list" where
  "rnd_accesses rand = map (\<lambda>i. rnd_index (rand i)) [0..<WS_SZ div 4096 * 3]"

text \<open>The variable \<^verbatim>\<open>s\<close> after both loops.\<close>

definition lab28_s :: "(nat \<Rightarrow> int) \<Rightarrow> int" where
  "lab28_s rand =
     (let mem = memset 0 1 WS_SZ zero_pages
      in scan_char mem (rnd_accesses rand) (scan_char mem seq_accesses 0))"

definition mglru_status :: "files \<Rightarrow> out list" where
  "mglru_status fs =
     (case fs ''/sys/kernel/mm/lru_gen/enabled'' of
        None \<Rightarrow> [Printf ''  /sys/kernel/mm/lru_gen/enabled not found (kernel < 6.1 or not compiled in).'' []]
      | Some c \<Rightarrow> (case fgets 16 c of None \<Rightarrow> []
          | Some (val, _) \<Rightarrow> [Printf ''  MGLRU enabled (/sys/kernel/mm/lru_gen/enabled): %s'' [Str (chomp val)]]))"

definition lab28_main :: "files \<Rightarrow> nat option \<Rightarrow> (nat \<Rightarrow> timespec) \<Rightarrow> run" where
  "lab28_main fs mem clk =
     (case mem of None \<Rightarrow> Inl []
      | Some _ \<Rightarrow> Inr (
          [Printf ''  Sequential scan (64MiB, 3x): %.3fs'' [Dbl (now_sec (clk 1) - now_sec (clk 0))],
           Printf ''  Random access (same count):   %.3fs'' [Dbl (now_sec (clk 3) - now_sec (clk 2))]]
          @ with_file fs ''/proc/meminfo'' (print_matching 256
              (\<lambda>l. strstr l ''Active'' \<or> strstr l ''Inactive'' \<or> strstr l ''Unevictable'') ''  %s'')
          @ mglru_status fs
          @ with_file fs ''/proc/meminfo'' (\<lambda>c. Printf ''  Swap usage from /proc/meminfo:'' []
              # print_matching 256 (starts_with_any [''SwapTotal'', ''SwapFree'', ''SwapCached'']) ''    %s'' c)
          @ with_file fs ''/proc/vmstat'' (\<lambda>c. Printf ''  Page fault counters from /proc/vmstat:'' []
              # print_matching 256 (starts_with_any [''pgfault'', ''pgmajfault'', ''pgpgout'', ''pswpout'']) ''    %s'' c)))"

section \<open>Lab 29\<close>

text \<open>\<^verbatim>\<open>struct statvfs\<close> and \<^verbatim>\<open>struct stat\<close>, the fields the lab prints; products wrap at 64 bits.\<close>

record statvfs_t =
  f_bsize :: u64
  f_blocks :: u64
  f_bfree :: u64
  f_files :: u64
  f_ffree :: u64

record stat_t =
  st_ino :: u64
  st_size :: int
  st_blocks :: int
  st_nlink :: u64

definition gib :: "u64 \<Rightarrow> double" where
  "gib bytes = real_of_int (uint bytes) / 1073741824"

definition statvfs_lines :: "statvfs_t option \<Rightarrow> out list" where
  "statvfs_lines r =
     (case r of None \<Rightarrow> []
      | Some sv \<Rightarrow>
          [Printf ''  Filesystem /:'' [],
           Printf ''    Block size:  %lu'' [Num (uint (f_bsize sv))],
           Printf ''    Total blocks:%lu (%.1f GiB)'' [Num (uint (f_blocks sv)), Dbl (gib (f_blocks sv * f_bsize sv))],
           Printf ''    Free blocks: %lu (%.1f GiB)'' [Num (uint (f_bfree sv)), Dbl (gib (f_bfree sv * f_bsize sv))],
           Printf ''    Total inodes:%lu'' [Num (uint (f_files sv))],
           Printf ''    Free inodes: %lu'' [Num (uint (f_ffree sv))]])"

definition stat_lines :: "stat_t option \<Rightarrow> out list" where
  "stat_lines r =
     (case r of None \<Rightarrow> []
      | Some st \<Rightarrow>
          [Printf ''  /etc/hostname:'' [],
           Printf ''    inode:  %lu'' [Num (uint (st_ino st))],
           Printf ''    size:   %ld bytes'' [Num (st_size st)],
           Printf ''    blocks: %ld (512B blocks)'' [Num (st_blocks st)],
           Printf ''    links:  %lu'' [Num (uint (st_nlink st))]])"

definition io_scheduler :: "files \<Rightarrow> out list" where
  "io_scheduler fs =
     (case (case fs ''/sys/block/sda/queue/scheduler'' of
              None \<Rightarrow> fs ''/sys/block/vda/queue/scheduler'' | Some c \<Rightarrow> Some c) of
        None \<Rightarrow> [Printf ''  (check /sys/block/*/queue/scheduler)'' []]
      | Some c \<Rightarrow> (case fgets 256 c of None \<Rightarrow> []
          | Some (l, _) \<Rightarrow> [Printf ''  I/O scheduler: %s'' [Str l]]))"

text \<open>
  Phase 5. The test file as the loop of \<^verbatim>\<open>write\<close> calls leaves it, \<^verbatim>\<open>pread\<close>, and the offsets the two
  loops read at.
\<close>

definition FILE_SIZE :: nat where "FILE_SIZE = 4 * 1024 * 1024"

definition test_file :: "nat \<Rightarrow> u8 list" where
  "test_file ps = concat (replicate (FILE_SIZE div ps) (replicate ps 0xAB))"

definition pread :: "u8 list \<Rightarrow> nat \<Rightarrow> nat \<Rightarrow> u8 list" where
  "pread f n off = take n (drop off f)"

definition seq_offsets :: "nat \<Rightarrow> nat list" where
  "seq_offsets ps = map (\<lambda>i. i * ps) [0..<FILE_SIZE div ps]"

definition strided_offsets :: "nat \<Rightarrow> nat list" where
  "strided_offsets ps =
     (let npages = FILE_SIZE div ps
      in map (\<lambda>i. (i * (npages div 2 + 1)) mod npages * ps) [0..<npages])"

definition pread_phase :: "bool \<Rightarrow> bool \<Rightarrow> bool \<Rightarrow> nat \<Rightarrow> (nat \<Rightarrow> timespec) \<Rightarrow> out list" where
  "pread_phase mkstemp_ok wbuf_ok rbuf_ok ps clk =
     (if \<not> mkstemp_ok then [Perror ''mkstemp'']
      else if \<not> wbuf_ok then []
      else if \<not> rbuf_ok then []
      else
        (let npages = FILE_SIZE div ps;
             seq_ms = elapsed_ms (clk 0) (clk 1);
             rnd_ms = elapsed_ms (clk 2) (clk 3) in
         [Printf ''  File: 4 MiB, %zu pages of %zu B'' [Num (int npages), Num (int ps)],
          Printf ''  Sequential pread (all pages): %.2f ms  (%.0f us/page avg)''
            [Dbl seq_ms, Dbl (seq_ms * 1000 / real npages)],
          Printf ''  Strided pread   (all pages): %.2f ms  (%.0f us/page avg)''
            [Dbl rnd_ms, Dbl (rnd_ms * 1000 / real npages)],
          Printf ''  (On tmpfs/ramfs: both ~equal; on NVMe: random is 10-100x slower)'' [],
          Printf ''  OBSERVE: Strided defeats prefetcher; cold NVMe: ~70 us/random IO.'' []]))"

record storage_env =
  se_files :: files
  se_statvfs :: "statvfs_t option"
  se_stat :: "stat_t option"
  se_mkstemp :: bool
  se_wbuf :: bool
  se_rbuf :: bool
  se_pagesize :: nat
  se_clk :: "nat \<Rightarrow> timespec"

definition lab29_main :: "storage_env \<Rightarrow> out list" where
  "lab29_main e =
     with_file (se_files e) ''/proc/partitions'' (print_matching 256 (\<lambda>_. True) ''  %s'')
     @ statvfs_lines (se_statvfs e)
     @ stat_lines (se_stat e)
     @ io_scheduler (se_files e)
     @ pread_phase (se_mkstemp e) (se_wbuf e) (se_rbuf e) (se_pagesize e) (se_clk e)"

section \<open>The access patterns of labs 28 and 29\<close>

lemma WS_pages: "WS_SZ div 4096 = 16384" "4096 dvd WS_SZ" "WS_SZ = 16384 * 4096"
  by (simp_all add: WS_SZ_def)

lemma rnd_index_in: "rnd_index r < WS_SZ" "4096 dvd rnd_index r"
proof -
  have "unat (of_int r :: u64) mod 16384 < 16384" by simp
  then show "rnd_index r < WS_SZ" unfolding rnd_index_def WS_pages by (simp add: WS_pages(3))
qed (simp add: rnd_index_def)

lemma seq_accesses_in: "i \<in> set seq_accesses \<Longrightarrow> i < WS_SZ"
  by (auto simp: seq_accesses_def dest: offsets_less split: if_splits)

lemma length_accesses: "length seq_accesses = 49152" "length (rnd_accesses rand) = 49152"
  by (simp_all add: seq_accesses_def rnd_accesses_def length_concat sum_list_replicate length_offsets WS_pages)

lemma sint_one_u8: "sint (1 :: u8) = 1"
  by simp

lemma scan_ones: "(\<And>i. i \<in> set os \<Longrightarrow> i < n) \<Longrightarrow> scan_char (memset 0 1 n m) os c = c + int (length os)"
  by (subst scan_char_const [where v = 1]) (auto simp: memset_def sint_one_u8)

text \<open>
  Both loops of lab 28 make the same number of accesses, 49152, all inside the mapping and at
  page starts, whatever \<^verbatim>\<open>rand\<close> returns, so the sum \<^verbatim>\<open>s\<close> is 98304 in every run.
\<close>

theorem same_access_count:
  "length seq_accesses = 49152 \<and> length (rnd_accesses rand) = 49152 \<and>
   list_all (\<lambda>i. i < WS_SZ \<and> 4096 dvd i) (rnd_accesses rand) \<and> lab28_s rand = 98304"
proof -
  have r: "i < WS_SZ \<and> 4096 dvd i" if "i \<in> set (rnd_accesses rand)" for i
    using that by (auto simp: rnd_accesses_def rnd_index_in)
  have "lab28_s rand = 98304"
    unfolding lab28_s_def Let_def
    by (subst scan_ones, use r in blast, subst scan_ones, erule seq_accesses_in) (simp add: length_accesses)
  with r show ?thesis by (simp add: length_accesses list_all_iff)
qed

lemma strided_index:
  assumes n: "n = 4 * (q :: nat)"
  shows "(i * (n div 2 + 1)) mod n = (if even i then i mod n else (i + n div 2) mod n)"
proof (cases "even i")
  case True
  then obtain j where "i = 2 * j" by blast
  then have "i * (n div 2 + 1) = i + n * j" using n by (simp add: algebra_simps)
  with True show ?thesis by simp
next
  case False
  then obtain j where "i = 2 * j + 1" by (rule oddE)
  then have "i * (n div 2 + 1) = (i + n div 2) + n * j" using n by (simp add: algebra_simps)
  with False show ?thesis by (simp only: mod_mult_self2 if_False)
qed

lemma strided_inj:
  assumes n: "n = 4 * (q :: nat)"
  shows "inj_on (\<lambda>i. (i * (n div 2 + 1)) mod n) {..<n}"
proof (rule inj_onI)
  fix i j
  assume ij: "i \<in> {..<n}" "j \<in> {..<n}" and e: "(i * (n div 2 + 1)) mod n = (j * (n div 2 + 1)) mod n"
  have par: "even ((k * (n div 2 + 1)) mod n) \<longleftrightarrow> even k" for k
    using n by (auto simp: strided_index [OF n] dvd_mod_iff)
  have same: "even i \<longleftrightarrow> even j" using e par by metis
  have "(i + n div 2) mod n = (j + n div 2) mod n \<Longrightarrow> i = j"
    using ij by (auto simp: mod_if split: if_splits)
  then show "i = j" using e [unfolded strided_index [OF n]] same ij by (cases "even i") auto
qed

lemma strided_surj:
  assumes n: "n = 4 * (q :: nat)"
  shows "(\<lambda>i. (i * (n div 2 + 1)) mod n) ` {..<n} = {..<n}"
proof (rule endo_inj_surj [OF _ _ strided_inj [OF n]])
  show "(\<lambda>i. (i * (n div 2 + 1)) mod n) ` {..<n} \<subseteq> {..<n}" by (cases "n = 0") auto
qed simp

lemma mset_strided:
  assumes n: "n = 4 * (q :: nat)"
  shows "mset (map (\<lambda>i. (i * (n div 2 + 1)) mod n) [0..<n]) = mset [0..<n]"
proof -
  have "distinct (map (\<lambda>i. (i * (n div 2 + 1)) mod n) [0..<n])"
    using strided_inj [OF n] by (simp add: distinct_map atLeast0LessThan)
  moreover have "set (map (\<lambda>i. (i * (n div 2 + 1)) mod n) [0..<n]) = set [0..<n]"
    using strided_surj [OF n] by (simp add: atLeast0LessThan)
  ultimately show ?thesis by (metis distinct_upt set_eq_iff_mset_eq_distinct)
qed

lemma test_file_replicate: "test_file ps = replicate (FILE_SIZE div ps * ps) 0xAB"
proof -
  have "concat (replicate k (replicate ps x)) = replicate (k * ps) x" for k and x :: u8
    by (induction k) (simp_all add: replicate_add)
  then show ?thesis by (simp add: test_file_def)
qed

lemma pread_page:
  assumes "i < FILE_SIZE div ps"
  shows "pread (test_file ps) ps (i * ps) = replicate ps 0xAB"
proof -
  have "Suc i * ps \<le> FILE_SIZE div ps * ps" using assms by (intro mult_le_mono1) simp
  then have "ps \<le> FILE_SIZE div ps * ps - i * ps" by simp
  then show ?thesis by (simp add: pread_def test_file_replicate min_def)
qed

text \<open>
  C35. The strided loop of lab 29 reads every page of the test file exactly once, like the sequential
  one, and every read returns a full page of what was written (for every page size of which four
  divide 4 MiB). Its order is not scattered: the even steps read the page of the same number, the
  odd ones the page half a file further, so the loop follows two interleaved ascending streams.
\<close>

theorem strided_reads:
  assumes ps: "ps * 4 dvd FILE_SIZE"
  shows "mset (strided_offsets ps) = mset (seq_offsets ps) \<and>
         (\<forall>off\<in>set (strided_offsets ps). pread (test_file ps) ps off = replicate ps 0xAB) \<and>
         strided_offsets ps =
           map (\<lambda>i. (if even i then i else (i + FILE_SIZE div ps div 2) mod (FILE_SIZE div ps)) * ps)
             [0..<FILE_SIZE div ps]"
proof -
  define n where "n = FILE_SIZE div ps"
  obtain q where q: "FILE_SIZE = ps * 4 * q" using ps by blast
  moreover have "0 < ps" using q by (cases ps) (simp_all add: FILE_SIZE_def)
  ultimately have n: "n = 4 * q"
    using nonzero_mult_div_cancel_left [of ps "4 * q"] by (simp only: n_def mult.assoc)
  have so: "strided_offsets ps = map (\<lambda>k. k * ps) (map (\<lambda>i. (i * (n div 2 + 1)) mod n) [0..<n])"
    by (simp add: strided_offsets_def n_def Let_def)
  have "mset (strided_offsets ps) = mset (seq_offsets ps)"
    unfolding so using mset_strided [OF n] by (simp only: mset_map seq_offsets_def n_def)
  moreover have "pread (test_file ps) ps off = replicate ps 0xAB" if "off \<in> set (strided_offsets ps)" for off
    using that by (auto simp: so n_def intro!: pread_page)
  moreover have "strided_offsets ps = map (\<lambda>i. (if even i then i else (i + n div 2) mod n) * ps) [0..<n]"
  proof -
    have ix: "(i * (n div 2 + 1)) mod n = (if even i then i else (i + n div 2) mod n)" if "i < n" for i
      using strided_index [OF n, of i] that by (simp only: mod_less)
    then show ?thesis
      unfolding so map_map o_def by (intro map_cong refl arg_cong [where f = "\<lambda>k. k * ps"]) (rule ix, simp)
  qed
  ultimately show ?thesis by (simp add: n_def)
qed

theorem strided_reads_witness:
  "mset (strided_offsets 4096) = mset (seq_offsets 4096) \<and> length (strided_offsets 4096) = 1024 \<and>
   strided_offsets 4096 ! 0 = 0 \<and> strided_offsets 4096 ! 1 = 513 * 4096 \<and> strided_offsets 4096 ! 2 = 2 * 4096"
proof -
  have f: "FILE_SIZE = 4194304" by (simp add: FILE_SIZE_def)
  have "4096 * 4 dvd FILE_SIZE" by (simp add: f)
  note r = strided_reads [OF this, unfolded f]
  have "strided_offsets 4096 ! i = (if even i then i else (i + 512) mod 1024) * 4096" if "i < 1024" for i
    using r that by (simp del: mset_map)
  then show ?thesis using r by (simp add: strided_offsets_def f)
qed

section \<open>Lab 09 reads the resident set back\<close>

lemma find_first:
  "(\<And>l. l \<in> set xs \<Longrightarrow> \<not> P l) \<Longrightarrow> P y \<Longrightarrow> find P (xs @ y # ys) = Some y"
  by (induction xs) auto

text \<open>A status file whose first \<^verbatim>\<open>VmRSS:\<close> line shows the number \<open>v\<close>, all lines fitting the buffer.\<close>

definition shows_rss :: "string \<Rightarrow> int \<Rightarrow> bool" where
  "shows_rss c v \<longleftrightarrow> short_lines 256 c \<and>
     (\<exists>pre w r post. lines_of c = pre @ (''VmRSS:'' @ w @ show_int v @ r) # post \<and>
        list_all is_space w \<and> (r = [] \<or> \<not> is_digit (hd r)) \<and> list_all (\<lambda>l. \<not> starts_with ''VmRSS:'' l) pre)"

lemma read_rss_shown:
  assumes "shows_rss c v" "fs ''/proc/self/status'' = Some c"
  shows "read_rss fs = v"
proof -
  obtain pre w r post where l: "lines_of c = pre @ (''VmRSS:'' @ w @ show_int v @ r) # post"
    and w: "list_all is_space w" and r: "r = [] \<or> \<not> is_digit (hd r)"
    and pre: "list_all (\<lambda>l. \<not> starts_with ''VmRSS:'' l) pre" and short: "short_lines 256 c"
    using assms(1) unfolding shows_rss_def by blast
  have "starts_with ''VmRSS:'' (''VmRSS:'' @ w @ show_int v @ r)" by (simp only: starts_with_iff) blast
  then have "find (starts_with ''VmRSS:'') (read_lines 256 c) = Some (''VmRSS:'' @ w @ show_int v @ r)"
    using pre by (subst read_lines_short [OF _ short]) (auto simp: l list_all_iff intro!: find_first)
  moreover have "drop 6 (''VmRSS:'' @ w @ show_int v @ r) = w @ show_int v @ r" by simp
  ultimately show ?thesis
    by (simp only: read_rss_def assms(2) option.simps scan_int_show [OF w r] prod.simps)
qed

text \<open>
  Lab 09 reports the resident set sizes the kernel shows: if \<^verbatim>\<open>/proc/self/status\<close> shows \<open>v0\<close>
  before and \<open>v1\<close> after the advice, these numbers and their difference are printed, and a failing
  \<^verbatim>\<open>madvise\<close> adds its error message between the two lines without ending the demonstration.
\<close>

theorem dontneed_report:
  assumes "shows_rss c0 v0" "shows_rss c1 v1"
    and "before ''/proc/self/status'' = Some c0" "after ''/proc/self/status'' = Some c1"
  shows "demo_madvise_dontneed before after ok (Some a) ru =
           Printf ''  RSS before MADV_DONTNEED: %ld kB'' [Num v0]
           # (if ok then [] else [Perror ''madvise''])
           @ [Printf ''  RSS after  MADV_DONTNEED: %ld kB  (dropped ~%ld kB)'' [Num v1, Num (v0 - v1)],
              Printf ''  Re-touch after DONTNEED: minor_faults=%ld  major_faults=%ld''
                [Num (ru_minflt (ru 1) - ru_minflt (ru 0)), Num (ru_majflt (ru 1) - ru_majflt (ru 0))]]"
  using read_rss_shown [of c0 v0 before] read_rss_shown [of c1 v1 after] assms
  by (simp add: demo_madvise_dontneed_def)

lemma show_int_42: "show_int 42 = ''42''"
  by code_simp

lemma shows_rss_example: "shows_rss (''Name: a'' @ [NL] @ ''VmRSS: 42 kB'' @ [NL]) 42"
proof -
  have l: "lines_of (''Name: a'' @ [NL] @ ''VmRSS: 42 kB'' @ [NL])
           = [''Name: a'' @ [NL]] @ (''VmRSS:'' @ '' '' @ show_int 42 @ '' kB'' @ [NL]) # []"
    by (simp add: show_int_42 NL_def)
  have "\<exists>pre w r post. [''Name: a'' @ [NL]] @ (''VmRSS:'' @ '' '' @ show_int 42 @ '' kB'' @ [NL]) # []
           = pre @ (''VmRSS:'' @ w @ show_int 42 @ r) # post \<and>
        list_all is_space w \<and> (r = [] \<or> \<not> is_digit (hd r)) \<and> list_all (\<lambda>l. \<not> starts_with ''VmRSS:'' l) pre"
    by (intro exI [of _ "[''Name: a'' @ [NL]]"] exI [of _ "'' ''"] exI [of _ "'' kB'' @ [NL]"] exI [of _ "[]"])
      (simp add: is_space_def is_digit_def starts_with_def)
  then show ?thesis unfolding shows_rss_def l by (simp add: show_int_42)
qed

theorem dontneed_report_witness:
  "Printf ''  RSS after  MADV_DONTNEED: %ld kB  (dropped ~%ld kB)'' [Num 42, Num 0]
     \<in> set (demo_madvise_dontneed (\<lambda>_. Some (''Name: a'' @ [NL] @ ''VmRSS: 42 kB'' @ [NL]))
              (\<lambda>_. Some (''Name: a'' @ [NL] @ ''VmRSS: 42 kB'' @ [NL])) True (Some 0) (\<lambda>_. \<lparr>ru_minflt = 0, ru_majflt = 0\<rparr>))"
  by (subst dontneed_report [OF shows_rss_example shows_rss_example]) simp_all

end
