(* ===== verification/PcArch.thy ===== *)
theory PcArch
  imports ProcFs Clock DemandPaging
begin

text \<open>
  \<^verbatim>\<open>labs/lab_02_pc_arch.c\<close> and \<^verbatim>\<open>labs/lab_40_gpu_os.c\<close>: what the hardware reports. The \<^verbatim>\<open>cpuid\<close>
  instruction is a parameter, a function from the leaf to the four registers; the files of
  \<^verbatim>\<open>/sys\<close> and \<^verbatim>\<open>/proc\<close>, the processor counts and the directory of GPU devices are parameters too.
  The lemmas show that the identification strings come out as the processor packed them, which
  lines of \<^verbatim>\<open>/proc/cpuinfo\<close> are printed and what the cache and NUMA listings show when an entry is
  missing.
\<close>

section \<open>Lab 02: helpers\<close>

definition read_sysfs_long :: "files \<Rightarrow> string \<Rightarrow> int" where
  "read_sysfs_long fs path = (case read_sysfs_str fs 64 path of None \<Rightarrow> -1 | Some buf \<Rightarrow> strtol buf)"

text \<open>A register copied with \<^verbatim>\<open>memcpy\<close> on a little-endian machine, and what \<^verbatim>\<open>%s\<close> shows of a buffer.\<close>

definition reg_bytes :: "u32 \<Rightarrow> string" where
  "reg_bytes w = map (\<lambda>i. char_of (unat w div 256 ^ i)) [0..<4]"

definition c_string :: "string \<Rightarrow> string" where
  "c_string buf = takeWhile (\<lambda>c. c \<noteq> CHR 0x00) buf"

section \<open>Lab 02: the processor\<close>

record regs =
  eax :: u32
  ebx :: u32
  ecx :: u32
  edx :: u32

type_synonym cpuid_fn = "u32 \<Rightarrow> regs"

definition vendor :: "regs \<Rightarrow> string" where
  "vendor r = c_string (reg_bytes (ebx r) @ reg_bytes (edx r) @ reg_bytes (ecx r))"

definition brand :: "cpuid_fn \<Rightarrow> string" where
  "brand cpuid = c_string (concat (map (\<lambda>i. let r = cpuid (0x80000002 + of_nat i) in
     reg_bytes (eax r) @ reg_bytes (ebx r) @ reg_bytes (ecx r) @ reg_bytes (edx r)) [0..<3]))"

definition yes_no :: "bool \<Rightarrow> string" where
  "yes_no b = (if b then ''YES'' else ''NO'')"

definition demo_cpuid :: "cpuid_fn \<Rightarrow> out list" where
  "demo_cpuid cpuid =
     [Printf ''  CPU Vendor: %s'' [Str (vendor (cpuid 0))],
      Printf ''  Max CPUID leaf: %u'' [Num (uint (eax (cpuid 0)))]]
     @ (if eax (cpuid 0x80000000) \<ge> 0x80000004 then [Printf ''  CPU Brand: %s'' [Str (brand cpuid)]] else [])
     @ [Printf ''  Hyper-Threading: %s'' [Str (yes_no (bit (edx (cpuid 1)) 28))],
        Printf ''  SSE2: %s'' [Str (yes_no (bit (edx (cpuid 1)) 26))],
        Printf ''  AVX: %s'' [Str (yes_no (bit (ecx (cpuid 1)) 28))],
        Printf ''  AVX2: %s'' [Str (yes_no (bit (ebx (cpuid 7)) 5))],
        Printf ''  AVX-512F: %s'' [Str (yes_no (bit (ebx (cpuid 7)) 16))],
        Printf ''  Running in VM: %s''
          [Str (if bit (ecx (cpuid 1)) 31 then ''YES (hypervisor bit set)'' else ''NO (bare metal likely)'')]]"

section \<open>Lab 02: caches, topology, memory\<close>

definition cache_path :: "nat \<Rightarrow> string \<Rightarrow> string" where
  "cache_path i name =
     snprintf 256 (''/sys/devices/system/cpu/cpu0/cache/index'' @ show_nat i @ ''/'' @ name)"

text \<open>
  The loop over the cache indices. The buffer \<^verbatim>\<open>buf\<close> holds the type when the size is read into it;
  a size that cannot be read leaves the type there.
\<close>

definition cache_line :: "files \<Rightarrow> nat \<Rightarrow> string \<Rightarrow> out" where
  "cache_line fs i buf =
     (let type = snprintf 32 buf;
          level = read_sysfs_long fs (cache_path i ''level'');
          buf' = (case read_sysfs_str fs 128 (cache_path i ''size'') of None \<Rightarrow> buf | Some s \<Rightarrow> s);
          ways = read_sysfs_long fs (cache_path i ''ways_of_associativity'');
          line_size = read_sysfs_long fs (cache_path i ''coherency_line_size'')
      in Printf ''  L%ld %-12s size=%-8s ways=%-3ld line_size=%ld bytes''
           [Num level, Str type, Str buf', Num ways, Num line_size])"

fun cache_loop :: "files \<Rightarrow> nat \<Rightarrow> nat \<Rightarrow> out list" where
  "cache_loop fs i 0 = []"
| "cache_loop fs i (Suc k) =
     (case read_sysfs_str fs 128 (cache_path i ''type'') of
        None \<Rightarrow> []
      | Some buf \<Rightarrow> cache_line fs i buf # cache_loop fs (i + 1) k)"

definition demo_cache_hierarchy :: "files \<Rightarrow> out list" where
  "demo_cache_hierarchy fs = cache_loop fs 0 8"

definition node_path :: "nat \<Rightarrow> string" where
  "node_path n = snprintf 256 (''/sys/devices/system/node/node'' @ show_nat n @ ''/cpulist'')"

definition numa_line :: "nat \<Rightarrow> string \<Rightarrow> out" where
  "numa_line n buf = Printf ''  NUMA node %d: CPUs %s'' [Num (int n), Str buf]"

definition numa_scan :: "files \<Rightarrow> out list" where
  "numa_scan fs = concat (map (\<lambda>n.
     case read_sysfs_str fs 128 (node_path n) of None \<Rightarrow> [] | Some buf \<Rightarrow> [numa_line n buf]) [0..<16])"

definition sysfs_line :: "files \<Rightarrow> nat \<Rightarrow> string \<Rightarrow> string \<Rightarrow> out list" where
  "sysfs_line fs n path fmt =
     (case read_sysfs_str fs n path of None \<Rightarrow> [] | Some buf \<Rightarrow> [Printf fmt [Str buf]])"

definition demo_topology :: "files \<Rightarrow> int \<Rightarrow> int \<Rightarrow> out list" where
  "demo_topology fs configured online =
     [Printf ''  CPUs configured: %ld'' [Num configured],
      Printf ''  CPUs online:     %ld'' [Num online]]
     @ numa_scan fs
     @ (if numa_scan fs = [] then [Printf ''  NUMA: not detected (single-node or info unavailable)'' []] else [])
     @ sysfs_line fs 128 ''/sys/devices/system/cpu/cpu0/topology/thread_siblings_list'' ''  CPU0 HT siblings: %s''
     @ sysfs_line fs 128 ''/sys/devices/system/cpu/cpu0/topology/core_siblings_list'' ''  CPU0 socket siblings: %s''"

definition mem_keys :: "string list" where
  "mem_keys = [''MemTotal'', ''MemFree'', ''MemAvailable'', ''Cached'', ''SwapTotal'', ''HugePages_Total'', ''Hugepagesize'']"

definition demo_memory_info :: "files \<Rightarrow> out list" where
  "demo_memory_info fs =
     (case fs ''/proc/meminfo'' of None \<Rightarrow> [Perror ''fopen'']
      | Some c \<Rightarrow> print_matching 256 (\<lambda>l. list_ex (\<lambda>k. starts_with k l) mem_keys) ''  %s'' c)"

definition demo_iomem :: "files \<Rightarrow> out list" where
  "demo_iomem fs =
     (case fs ''/proc/iomem'' of None \<Rightarrow> [Perror ''fopen /proc/iomem'']
      | Some c \<Rightarrow> print_upto 256 30 ''  %s'' c
          @ (if length (print_upto 256 30 ''  %s'' c) \<ge> 30
             then [Printf ''  ... (truncated; see /proc/iomem for full listing)'' []] else []))"

definition cpuinfo_keys :: "string list" where
  "cpuinfo_keys = [''processor'', ''model name'', ''cpu MHz'', ''cache size'', ''physical id'', ''flags'', ''bugs'']"

fun cpuinfo_loop :: "nat \<Rightarrow> string list \<Rightarrow> out list" where
  "cpuinfo_loop cnt [] = []"
| "cpuinfo_loop cnt (l # ls) =
     (let blank = starts_with [NL] l; cnt' = (if blank then cnt + 1 else cnt)
      in if blank \<and> cnt' \<ge> 2 then []
         else (if list_ex (\<lambda>k. starts_with k l) cpuinfo_keys then [Printf ''  %s'' [Str l]] else [])
              @ cpuinfo_loop cnt' ls)"

definition demo_cpuinfo_iomem :: "files \<Rightarrow> out list" where
  "demo_cpuinfo_iomem fs =
     (case fs ''/proc/cpuinfo'' of None \<Rightarrow> [Perror ''fopen /proc/cpuinfo'']
      | Some c \<Rightarrow> cpuinfo_loop 0 (read_lines 512 c))"

definition lab02_main :: "cpuid_fn \<Rightarrow> files \<Rightarrow> int \<Rightarrow> int \<Rightarrow> out list" where
  "lab02_main cpuid fs configured online =
     demo_cpuid cpuid @ demo_cache_hierarchy fs @ demo_topology fs configured online
     @ demo_memory_info fs @ demo_iomem fs @ demo_cpuinfo_iomem fs"

section \<open>Lab 40\<close>

text \<open>The NUMA loop of lab 40 stops at the first node that cannot be read.\<close>

fun numa_loop :: "files \<Rightarrow> nat \<Rightarrow> nat \<Rightarrow> out list" where
  "numa_loop fs n 0 = []"
| "numa_loop fs n (Suc k) =
     (case read_sysfs_str fs 256 (node_path n) of
        None \<Rightarrow> []
      | Some buf \<Rightarrow> numa_line n buf # numa_loop fs (n + 1) k)"

text \<open>The GPU directory: entries that begin with a dot are skipped, unreadable ones are not counted.\<close>

fun gpu_loop :: "files \<Rightarrow> int \<Rightarrow> string list \<Rightarrow> out list" where
  "gpu_loop fs g [] = []"
| "gpu_loop fs g (d_name # es) =
     (if starts_with ''.'' d_name then gpu_loop fs g es
      else case fs (snprintf 512 (''/proc/driver/nvidia/gpus/'' @ d_name @ ''/information'')) of
             None \<Rightarrow> gpu_loop fs g es
           | Some c \<Rightarrow> Printf ''  GPU %d:'' [Num g] # print_matching 256 (\<lambda>_. True) ''    %s'' c
                       @ gpu_loop fs (g + 1) es)"

definition gpu_topology :: "files \<Rightarrow> string list option \<Rightarrow> out list" where
  "gpu_topology fs dir =
     (case dir of Some es \<Rightarrow> gpu_loop fs 0 es
      | None \<Rightarrow>
          [Printf ''  No NVIDIA GPUs detected (nvidia driver not loaded).'' [],
           Printf ''  On a GPU server, you would see:'' [],
           Printf ''    nvidia-smi topo -m  (GPU interconnect topology: NVLink, PCIe)'' [],
           Printf ''    nvidia-smi -L       (list GPUs)'' [],
           Printf ''    lstopo              (full hardware topology)'' []])"

definition GPU_SZ :: nat where "GPU_SZ = 64 * 1024 * 1024"

text \<open>The loop that touches the buffer: \<^verbatim>\<open>buf2[i] = (char)(i & 0xff)\<close> at every page start.\<close>

definition touch_pages :: "memory \<Rightarrow> memory" where
  "touch_pages m = fold (\<lambda>i m. m(i := of_nat i)) (offsets 0 4096 GPU_SZ) m"

text \<open>
  Phase 6: \<open>buf2\<close> and \<open>dst\<close> tell whether the two allocations succeed, \<open>clk\<close> gives the readings
  of the clock.
\<close>

definition shared_memory_phase :: "bool \<Rightarrow> bool \<Rightarrow> (nat \<Rightarrow> timespec) \<Rightarrow> out list" where
  "shared_memory_phase buf2 dst clk =
     (if \<not> buf2 then []
      else
        Printf ''  Allocated %zu MiB buffer, touched %zu pages in %.1f ms''
          [Num (int (GPU_SZ div 2 ^ 20)), Num (int (GPU_SZ div 2 ^ 12)), Dbl ((now_ns (clk 1) - now_ns (clk 0)) / 1000000)]
        # (if \<not> dst then []
           else
             (let ms = (now_ns (clk 3) - now_ns (clk 2)) / 1000000;
                  bw = (real GPU_SZ / (1024 * 1024 * 1024)) / (ms / 1000)
              in [Printf ''  memcpy %zu MiB (proxy for DMA): %.1f ms, %.1f GB/s''
                    [Num (int (GPU_SZ div 2 ^ 20)), Dbl ms, Dbl bw],
                  Printf ''  PCIe Gen5 x16 actual limit: ~64 GB/s (H2D + D2H combined)'' [],
                  Printf ''  NVLink 4.0 GPU-to-GPU:      ~900 GB/s all-to-all via NVSwitch'' []])))"

definition locked_memory_limit :: "files \<Rightarrow> out list" where
  "locked_memory_limit fs =
     with_file fs ''/proc/self/limits'' (print_matching 256 (\<lambda>l. strstr l ''Max locked memory'') ''  %s'')"

record gpu_env =
  ge_files :: files
  ge_dir :: "string list option"
  ge_ncpus :: int
  ge_affinity :: bool
  ge_buf2 :: bool
  ge_dst :: bool
  ge_clk :: "nat \<Rightarrow> timespec"

definition lab40_main :: "gpu_env \<Rightarrow> out list" where
  "lab40_main e =
     [Printf ''  Online CPUs: %ld'' [Num (ge_ncpus e)]]
     @ numa_loop (ge_files e) 0 8
     @ gpu_topology (ge_files e) (ge_dir e)
     @ (if ge_affinity e
        then [Printf ''  Pinned to CPU 0. NCCL threads should be pinned to NUMA-local CPUs.'' []] else [])
     @ sysfs_line (ge_files e) 256 ''/sys/kernel/mm/transparent_hugepage/enabled'' ''  THP: %s''
     @ sysfs_line (ge_files e) 256 ''/sys/devices/system/cpu/cpu0/cpufreq/scaling_governor'' ''  CPU governor: %s''
     @ shared_memory_phase (ge_buf2 e) (ge_dst e) (ge_clk e)
     @ locked_memory_limit (ge_files e)"

section \<open>The identification strings\<close>

text \<open>The register that holds four characters, the first in the low byte.\<close>

definition pack4 :: "string \<Rightarrow> u32" where
  "pack4 s = of_nat (horner_sum of_char 256 s)"

lemma char_of_low: "char_of (of_char c + 256 * k :: nat) = c"
proof -
  have "char_of (of_char c + 256 * k :: nat) = char_of ((of_char c + 256 * k :: nat) mod 256)"
    by (simp only: char_of_mod_256)
  also have "\<dots> = char_of (of_char c mod 256 :: nat)" by (simp only: mod_mult_self2)
  finally show ?thesis by (simp only: char_of_mod_256 char_of_char)
qed

lemma div_low: "(of_char c + 256 * k :: nat) div 256 = k"
  by simp

lemma byte_less: "a < 256 \<Longrightarrow> k < n \<Longrightarrow> a + 256 * k < 256 * (n :: nat)"
  by linarith

lemma four_bytes_less:
  "a < 256 \<Longrightarrow> b < 256 \<Longrightarrow> c < 256 \<Longrightarrow> d < 256 \<Longrightarrow> a + 256 * (b + 256 * (c + 256 * d)) < (4294967296 :: nat)"
  using byte_less [of a "b + 256 * (c + 256 * d)" 16777216] byte_less [of b "c + 256 * d" 65536]
    byte_less [of c d 256]
  by simp

lemma reg_bytes_pack4:
  assumes "length s = 4"
  shows "reg_bytes (pack4 s) = s"
proof -
  obtain a b c d where s: "s = [a, b, c, d]"
    using assms by (auto simp: numeral_eq_Suc length_Suc_conv)
  define v :: nat where "v = of_char a + 256 * (of_char b + 256 * (of_char c + 256 * of_char d))"
  have "v < 4294967296" unfolding v_def by (rule four_bytes_less) simp_all
  moreover have "pack4 s = of_nat v" by (simp add: pack4_def s v_def)
  ultimately have "unat (pack4 s) = v" by (simp add: unat_of_nat)
  moreover have "v div 256 = of_char b + 256 * (of_char c + 256 * of_char d)"
    "v div 256 div 256 = of_char c + 256 * of_char d" "v div 256 div 256 div 256 = of_char d + 256 * 0"
    by (simp_all only: v_def div_low add_0_right mult_0_right)
  moreover have "v div 256 ^ 2 = v div 256 div 256" "v div 256 ^ 3 = v div 256 div 256 div 256"
    by (simp_all add: div_mult2_eq [symmetric])
  moreover have "[0..<4] = [0, 1, 2, 3 :: nat]" by (simp add: upt_rec)
  ultimately show ?thesis
    unfolding reg_bytes_def s by (simp only: list.map power_0 power_one_right div_by_1 char_of_low v_def)
qed

lemma c_string_id: "CHR 0x00 \<notin> set s \<Longrightarrow> c_string s = s"
  unfolding c_string_def by (simp add: takeWhile_eq_all_conv) blast

lemma c_string_pad: "CHR 0x00 \<notin> set s \<Longrightarrow> c_string (s @ replicate k (CHR 0x00)) = s"
  by (induction s) (cases k, auto simp: c_string_def)

text \<open>A processor that identifies itself with two strings, padded to their fixed lengths.\<close>

definition identifies :: "cpuid_fn \<Rightarrow> string \<Rightarrow> string \<Rightarrow> bool" where
  "identifies cpuid v b \<longleftrightarrow>
     length v = 12 \<and> CHR 0x00 \<notin> set v \<and> length b \<le> 48 \<and> CHR 0x00 \<notin> set b \<and>
     ebx (cpuid 0) = pack4 (take 4 v) \<and> edx (cpuid 0) = pack4 (take 4 (drop 4 v)) \<and> ecx (cpuid 0) = pack4 (drop 8 v) \<and>
     (let p = b @ replicate (48 - length b) (CHR 0x00); part = (\<lambda>k. pack4 (take 4 (drop (4 * k) p))) in
      list_all (\<lambda>i. cpuid (0x80000002 + of_nat i)
         = \<lparr>eax = part (4 * i), ebx = part (4 * i + 1), ecx = part (4 * i + 2), edx = part (4 * i + 3)\<rparr>) [0..<3])"

lemma reg_bytes_part:
  "k + 4 \<le> length p \<Longrightarrow> reg_bytes (pack4 (take 4 (drop k p))) = take 4 (drop k p)"
  by (rule reg_bytes_pack4) simp

lemma twelve_bytes:
  assumes "length v = 12"
  shows "reg_bytes (pack4 (take 4 v)) @ reg_bytes (pack4 (take 4 (drop 4 v))) @ reg_bytes (pack4 (drop 8 v)) = v"
  using assms take_add [of 4 4 v] by (simp add: reg_bytes_pack4) (metis append_assoc append_take_drop_id)

lemma sixteen_bytes:
  "take 16 (drop (16 * i) p) =
     take 4 (drop (4 * (4 * i)) p) @ take 4 (drop (4 * (4 * i + 1)) p) @
     take 4 (drop (4 * (4 * i + 2)) p) @ take 4 (drop (4 * (4 * i + 3)) p)"
proof -
  have "take (4 + (4 + (4 + 4))) q = take 4 q @ take 4 (drop 4 q) @ take 4 (drop 8 q) @ take 4 (drop 12 q)"
    for q :: "'a list"
    by (simp only: take_add drop_drop append_assoc) simp
  from this [of "drop (16 * i) p"] show ?thesis by (simp add: algebra_simps)
qed

text \<open>
  C40. On a processor that identifies itself with a twelve-character vendor string and a brand string
  of at most 48 characters, packed into the registers in the documented order, lab 02 prints both
  strings unchanged; the brand line appears exactly if the extended leaves go up to \<^verbatim>\<open>0x80000004\<close>.
\<close>

theorem cpuid_identity:
  assumes "identifies cpuid v b"
  shows "take (if eax (cpuid 0x80000000) \<ge> 0x80000004 then 3 else 2) (demo_cpuid cpuid) =
           [Printf ''  CPU Vendor: %s'' [Str v], Printf ''  Max CPUID leaf: %u'' [Num (uint (eax (cpuid 0)))]]
           @ (if eax (cpuid 0x80000000) \<ge> 0x80000004 then [Printf ''  CPU Brand: %s'' [Str b]] else [])"
proof -
  define p where "p = b @ replicate (48 - length b) (CHR 0x00)"
  note a = assms [unfolded identifies_def Let_def, folded p_def]
  have "reg_bytes (ebx (cpuid 0)) @ reg_bytes (edx (cpuid 0)) @ reg_bytes (ecx (cpuid 0)) = v"
    using a twelve_bytes [of v] by simp
  then have v: "vendor (cpuid 0) = v" using a by (simp add: vendor_def c_string_id)
  have lp: "length p = 48" using a by (simp add: p_def)
  have "brand cpuid = c_string (concat (map (\<lambda>i. take 16 (drop (16 * i) p)) [0..<3]))"
    unfolding brand_def Let_def
    by (intro arg_cong [where f = c_string] arg_cong [where f = concat] map_cong refl)
      (use a lp in \<open>auto simp: list_all_iff sixteen_bytes reg_bytes_part\<close>)
  also have "concat (map (\<lambda>i. take 16 (drop (16 * i) p)) [0..<3]) = p"
    using lp take_add [of 16 16 p] by (simp add: upt_rec) (metis append_assoc append_take_drop_id)
  finally have "brand cpuid = b" using a by (simp add: p_def c_string_pad)
  then show ?thesis by (simp add: demo_cpuid_def v)
qed

lemma pack4_zero: "pack4 (replicate 4 (CHR 0x00)) = 0"
  by (simp add: pack4_def numeral_eq_Suc)

definition sample_cpuid :: cpuid_fn where
  "sample_cpuid leaf =
     (if leaf = 0 then \<lparr>eax = 13, ebx = pack4 ''Genu'', ecx = pack4 ''ntel'', edx = pack4 ''ineI''\<rparr>
      else if leaf = 0x80000000 then \<lparr>eax = 0x80000008, ebx = 0, ecx = 0, edx = 0\<rparr>
      else if leaf = 0x80000002 then \<lparr>eax = pack4 ''Xeon'', ebx = 0, ecx = 0, edx = 0\<rparr>
      else \<lparr>eax = 0, ebx = 0, ecx = 0, edx = 0\<rparr>)"

theorem cpuid_identity_witness:
  "take 3 (demo_cpuid sample_cpuid) =
     [Printf ''  CPU Vendor: %s'' [Str ''GenuineIntel''], Printf ''  Max CPUID leaf: %u'' [Num 13],
      Printf ''  CPU Brand: %s'' [Str ''Xeon'']]"
proof -
  have "identifies sample_cpuid ''GenuineIntel'' ''Xeon''"
    by (simp add: identifies_def sample_cpuid_def upt_rec pack4_zero)
  from cpuid_identity [OF this] show ?thesis by (simp add: sample_cpuid_def)
qed

section \<open>The lines of \<^verbatim>\<open>/proc/cpuinfo\<close>\<close>

definition cpuinfo_lines :: "string list \<Rightarrow> out list" where
  "cpuinfo_lines ls = map (\<lambda>l. Printf ''  %s'' [Str l]) (filter (\<lambda>l. list_ex (\<lambda>k. starts_with k l) cpuinfo_keys) ls)"

lemma cpuinfo_block:
  "list_all (\<lambda>l. \<not> starts_with [NL] l) b \<Longrightarrow> cpuinfo_loop n (b @ ls) = cpuinfo_lines b @ cpuinfo_loop n ls"
  by (induction b) (auto simp: cpuinfo_lines_def)

lemma blank_not_key: "\<not> list_ex (\<lambda>k. starts_with k [NL]) cpuinfo_keys"
  by (simp add: cpuinfo_keys_def starts_with_def NL_def)

lemma blank_starts: "starts_with [NL] [NL]"
  by (simp add: starts_with_def)

text \<open>
  Lab 02 prints the selected lines of the first two processor blocks of \<^verbatim>\<open>/proc/cpuinfo\<close> (blocks
  end with a blank line), and nothing after them; with a single block it prints that one. The comment
  at the loop announces the first block only.
\<close>

theorem cpuinfo_two_blocks:
  assumes "fs ''/proc/cpuinfo'' = Some c" "short_lines 512 c"
    and "lines_of c = b1 @ [NL] # b2 @ rest" "rest = [] \<or> hd rest = [NL]"
    and "list_all (\<lambda>l. \<not> starts_with [NL] l) b1" "list_all (\<lambda>l. \<not> starts_with [NL] l) b2"
  shows "demo_cpuinfo_iomem fs = cpuinfo_lines b1 @ cpuinfo_lines b2"
proof -
  have "cpuinfo_loop (Suc 0) rest = []"
    using assms(4) by (cases rest) (auto simp: blank_starts)
  then have "cpuinfo_loop 0 (b1 @ [NL] # b2 @ rest) = cpuinfo_lines b1 @ cpuinfo_lines b2"
    using assms(5,6) by (simp add: cpuinfo_block blank_starts blank_not_key)
  then show ?thesis using assms(1,2,3) by (simp add: demo_cpuinfo_iomem_def read_lines_short)
qed

theorem cpuinfo_two_blocks_witness:
  "demo_cpuinfo_iomem (\<lambda>_. Some (''processor : 0'' @ [NL] @ [NL] @ ''processor : 1'' @ [NL] @ [NL])) =
     [Printf ''  %s'' [Str (''processor : 0'' @ [NL])], Printf ''  %s'' [Str (''processor : 1'' @ [NL])]]"
proof -
  have l: "lines_of (''processor : 0'' @ [NL] @ [NL] @ ''processor : 1'' @ [NL] @ [NL])
       = [''processor : 0'' @ [NL]] @ [NL] # [''processor : 1'' @ [NL]] @ [[NL]]"
    by (simp add: NL_def)
  have n: "\<not> starts_with [NL] (''processor : 0'' @ [NL])" "\<not> starts_with [NL] (''processor : 1'' @ [NL])"
    by (simp_all add: starts_with_def NL_def)
  have k: "cpuinfo_lines [''processor : 0'' @ [NL]] = [Printf ''  %s'' [Str (''processor : 0'' @ [NL])]]"
    "cpuinfo_lines [''processor : 1'' @ [NL]] = [Printf ''  %s'' [Str (''processor : 1'' @ [NL])]]"
    by (simp_all add: cpuinfo_lines_def cpuinfo_keys_def starts_with_def)
  have "demo_cpuinfo_iomem (\<lambda>_. Some (''processor : 0'' @ [NL] @ [NL] @ ''processor : 1'' @ [NL] @ [NL]))
     = cpuinfo_lines [''processor : 0'' @ [NL]] @ cpuinfo_lines [''processor : 1'' @ [NL]]"
    by (rule cpuinfo_two_blocks [OF refl _ l]) (use n l in \<open>auto\<close>)
  then show ?thesis using k by simp
qed

section \<open>Listings with missing entries\<close>

lemma cache_loop_prefix:
  "cache_loop fs i k =
     map (\<lambda>j. cache_line fs j (the (read_sysfs_str fs 128 (cache_path j ''type''))))
       (takeWhile (\<lambda>j. read_sysfs_str fs 128 (cache_path j ''type'') \<noteq> None) [i..<i + k])"
  by (rule until_missing) simp_all

text \<open>
  The cache listing of lab 02 has one line per index up to the first whose type cannot be read,
  at most eight. A line shows the type, and the level, associativity and line size as read, but where
  the size cannot be read it shows the type a second time, which the buffer still holds.
\<close>

theorem cache_listing:
  assumes "\<forall>j<8. fs (cache_path j ''type'') = map_option (\<lambda>t. t @ [NL]) (ctype j)"
    and "\<forall>j<8. \<forall>t. ctype j = Some t \<longrightarrow> NL \<notin> set t \<and> length t < 32"
  shows "demo_cache_hierarchy fs =
           map (\<lambda>j. Printf ''  L%ld %-12s size=%-8s ways=%-3ld line_size=%ld bytes''
                  [Num (read_sysfs_long fs (cache_path j ''level'')), Str (the (ctype j)),
                   Str (case read_sysfs_str fs 128 (cache_path j ''size'') of None \<Rightarrow> the (ctype j) | Some z \<Rightarrow> z),
                   Num (read_sysfs_long fs (cache_path j ''ways_of_associativity'')),
                   Num (read_sysfs_long fs (cache_path j ''coherency_line_size''))])
             (takeWhile (\<lambda>j. ctype j \<noteq> None) [0..<8])"
proof -
  have r: "read_sysfs_str fs 128 (cache_path j ''type'') = ctype j" if "j < 8" for j
    using that assms(1) assms(2) [rule_format, of j] by (intro read_sysfs_opt) auto
  then have tw: "takeWhile (\<lambda>j. read_sysfs_str fs 128 (cache_path j ''type'') \<noteq> None) [0..<8]
                 = takeWhile (\<lambda>j. ctype j \<noteq> None) [0..<8]"
    by (intro takeWhile_cong) simp_all
  have short: "snprintf 32 t = t" if "j < 8" "ctype j = Some t" for j t
    using that assms(2) by (intro snprintf_fits) auto
  show ?thesis
    unfolding demo_cache_hierarchy_def cache_loop_prefix add_0 tw
  proof (intro map_cong refl)
    fix j
    assume "j \<in> set (takeWhile (\<lambda>j. ctype j \<noteq> None) [0..<8])"
    then obtain t where t: "j < 8" "ctype j = Some t" by (auto dest!: set_takeWhileD)
    show "cache_line fs j (the (read_sysfs_str fs 128 (cache_path j ''type''))) =
      Printf ''  L%ld %-12s size=%-8s ways=%-3ld line_size=%ld bytes''
        [Num (read_sysfs_long fs (cache_path j ''level'')), Str (the (ctype j)),
         Str (case read_sysfs_str fs 128 (cache_path j ''size'') of None \<Rightarrow> the (ctype j) | Some z \<Rightarrow> z),
         Num (read_sysfs_long fs (cache_path j ''ways_of_associativity'')),
         Num (read_sysfs_long fs (cache_path j ''coherency_line_size''))]"
      using t r [OF t(1)] short [OF t] by (simp add: cache_line_def split: option.split)
  qed
qed

definition sample_sysfs :: files where
  "sample_sysfs p = (if take 4 (rev p) = rev ''type'' then Some (''Data'' @ [NL]) else None)"

lemma sample_paths:
  assumes "j < 8"
  shows "cache_path j nm = snprintf 256 (''/sys/devices/system/cpu/cpu0/cache/index'' @ [digit j] @ ''/'' @ nm)"
  using assms by (simp add: cache_path_def show_nat.simps)

theorem cache_listing_witness:
  "demo_cache_hierarchy sample_sysfs ! 0 =
     Printf ''  L%ld %-12s size=%-8s ways=%-3ld line_size=%ld bytes''
       [Num (-1), Str ''Data'', Str ''Data'', Num (-1), Num (-1)]"
proof -
  have t: "\<forall>j<8. sample_sysfs (cache_path j ''type'') = map_option (\<lambda>t. t @ [NL]) (Some ''Data'')"
    by (simp add: sample_paths sample_sysfs_def snprintf_def)
  have n: "sample_sysfs (cache_path 0 nm) = None" if "nm \<in> {''size'', ''level'', ''ways_of_associativity'', ''coherency_line_size''}" for nm
    using that by (auto simp: sample_paths sample_sysfs_def snprintf_def)
  have "\<forall>j<8. \<forall>t. Some ''Data'' = Some t \<longrightarrow> NL \<notin> set t \<and> length t < 32" by (auto simp: NL_def)
  from cache_listing [where ctype = "\<lambda>_. Some ''Data''", OF t this] show ?thesis
    by (simp add: read_sysfs_long_def read_sysfs_str_def n upt_rec)
qed

section \<open>NUMA listings\<close>

lemma numa_loop_prefix:
  "numa_loop fs i k =
     map (\<lambda>j. numa_line j (the (read_sysfs_str fs 256 (node_path j))))
       (takeWhile (\<lambda>j. read_sysfs_str fs 256 (node_path j) \<noteq> None) [i..<i + k])"
  by (rule until_missing) simp_all

lemma numa_scan_filter:
  "numa_scan fs =
     map (\<lambda>j. numa_line j (the (read_sysfs_str fs 128 (node_path j))))
       (filter (\<lambda>j. read_sysfs_str fs 128 (node_path j) \<noteq> None) [0..<16])"
  unfolding numa_scan_def by (rule skip_missing)

text \<open>
  Where the CPU lists of the NUMA nodes fit both buffers, lab 02 lists every node below 16 that is
  present, while lab 40 lists those below 8 up to the first that is missing: a gap in the numbering
  hides all later nodes from lab 40. Every line of lab 40 is a line of lab 02.
\<close>

theorem numa_listings:
  assumes "\<forall>j<16. fs (node_path j) = map_option (\<lambda>t. t @ [NL]) (cpus j)"
    and "\<forall>j<16. \<forall>t. cpus j = Some t \<longrightarrow> NL \<notin> set t \<and> length t < 127"
  shows "numa_scan fs = map (\<lambda>j. numa_line j (the (cpus j))) (filter (\<lambda>j. cpus j \<noteq> None) [0..<16]) \<and>
         numa_loop fs 0 8 = map (\<lambda>j. numa_line j (the (cpus j))) (takeWhile (\<lambda>j. cpus j \<noteq> None) [0..<8]) \<and>
         set (numa_loop fs 0 8) \<subseteq> set (numa_scan fs)"
proof -
  have r: "read_sysfs_str fs n (node_path j) = cpus j" if "j < 16" "128 \<le> n" for j n
    using that assms(1) assms(2) [rule_format, of j] by (intro read_sysfs_opt) auto
  have 1: "numa_scan fs = map (\<lambda>j. numa_line j (the (cpus j))) (filter (\<lambda>j. cpus j \<noteq> None) [0..<16])"
    unfolding numa_scan_filter by (intro map_cong filter_cong) (auto simp: r)
  have tw: "takeWhile (\<lambda>j. read_sysfs_str fs 256 (node_path j) \<noteq> None) [0..<8] = takeWhile (\<lambda>j. cpus j \<noteq> None) [0..<8]"
    by (intro takeWhile_cong) (auto simp: r)
  have 2: "numa_loop fs 0 8 = map (\<lambda>j. numa_line j (the (cpus j))) (takeWhile (\<lambda>j. cpus j \<noteq> None) [0..<8])"
    unfolding numa_loop_prefix add_0 tw by (intro map_cong) (auto simp: r dest!: set_takeWhileD)
  show ?thesis using 1 2 by (fastforce dest: set_takeWhileD)
qed

theorem numa_listings_witness:
  "numa_loop (\<lambda>_. Some (''0-3'' @ [NL])) 0 8 = map (\<lambda>j. numa_line j ''0-3'') [0..<8]"
proof -
  have "\<forall>j<16. \<forall>t. Some ''0-3'' = Some t \<longrightarrow> NL \<notin> set t \<and> length t < 127" by (auto simp: NL_def)
  from numa_listings [where cpus = "\<lambda>_. Some ''0-3''", OF _ this, of "\<lambda>_. Some (''0-3'' @ [NL])"]
  show ?thesis by (simp add: takeWhile_eq_all_conv [THEN iffD2])
qed

end
