(* ===== verification/Traps.thy ===== *)
theory Traps
  imports ProcFs
begin

text \<open>
  Labs 05 and 06 (\<^verbatim>\<open>lab_05_segmentation_traps.c\<close>, \<^verbatim>\<open>lab_06_trap_handlers.c\<close>): programs that provoke
  faults and recover from them with \<^verbatim>\<open>sigsetjmp\<close> and \<^verbatim>\<open>siglongjmp\<close>. The state holds what decides the
  outcome: the mappings of the address space with their permissions, the length of the mapped file,
  the installed handlers, the blocked signals and the signal mask in the jump buffer. A memory access
  faults as x86-64 and Linux document it: SIGSEGV for a page that is not mapped or forbids the
  access, SIGBUS for a page of a file beyond its end, SIGSEGV without an address for an address that
  is not canonical. A fault whose signal is blocked or has no handler ends the process; a fault in
  code that no jump buffer guards has no defined continuation and ends the run, too. Addresses that
  \<^verbatim>\<open>mmap\<close> returns, the results of the other calls, the register contents at a fault and the code the
  kernel reports for SIGBUS are parameters.
\<close>

section \<open>Signals, mappings and faults\<close>

definition SIGILL :: int where "SIGILL = 4"
definition SIGTRAP :: int where "SIGTRAP = 5"
definition SIGBUS :: int where "SIGBUS = 7"
definition SIGFPE :: int where "SIGFPE = 8"
definition SIGSEGV :: int where "SIGSEGV = 11"

definition SEGV_MAPERR :: int where "SEGV_MAPERR = 1"
definition SEGV_ACCERR :: int where "SEGV_ACCERR = 2"
definition FPE_INTDIV :: int where "FPE_INTDIV = 1"
definition SI_KERNEL :: int where "SI_KERNEL = 128"

lemmas signal_defs = SIGILL_def SIGTRAP_def SIGBUS_def SIGFPE_def SIGSEGV_def SEGV_MAPERR_def
  SEGV_ACCERR_def FPE_INTDIV_def SI_KERNEL_def

text \<open>A mapped page: its permissions, and its offset in the file for a shared file mapping.\<close>

record mapping =
  mp_read :: bool
  mp_write :: bool
  mp_file :: "nat option"

text \<open>What the handler finds in \<^verbatim>\<open>siginfo_t\<close> and \<^verbatim>\<open>ucontext_t\<close>.\<close>

record fault =
  si_signo :: int
  si_code :: int
  si_addr :: u64
  reg_rip :: u64
  reg_rsp :: u64

record trap_state =
  maps :: "nat \<Rightarrow> mapping option"
  file_len :: nat
  handled :: "int set"
  blocked :: "int set"
  jump_mask :: "int set"
  fault_count :: int
  t_out :: "out list"

text \<open>\<open>Inl\<close> is a process that was killed, with the state it had.\<close>

type_synonym trap_run = "trap_state + trap_state"

definition and_then :: "trap_run \<Rightarrow> (trap_state \<Rightarrow> trap_run) \<Rightarrow> trap_run" where
  "and_then r f = (case r of Inl d \<Rightarrow> Inl d | Inr s \<Rightarrow> f s)"

definition emit :: "out list \<Rightarrow> trap_state \<Rightarrow> trap_state" where
  "emit os s = s\<lparr>t_out := t_out s @ os\<rparr>"

record trap_env =
  te_ps :: nat
  te_va_bits :: nat
  te_maps :: "nat \<Rightarrow> mapping option"
  te_guard :: "nat option"
  te_mprotect1 :: bool
  te_wp :: "nat option"
  te_mprotect2 :: bool
  te_mkstemp :: bool
  te_bus :: "nat option"
  te_written :: nat
  te_bus_code :: int
  te_int3 :: "int \<times> u64"
  te_rip :: "nat \<Rightarrow> u64"
  te_rsp :: "nat \<Rightarrow> u64"

text \<open>Canonical addresses: the bits above the implemented ones repeat the highest of them.\<close>

definition canonical :: "trap_env \<Rightarrow> nat \<Rightarrow> bool" where
  "canonical e a = (a < 2 ^ (te_va_bits e - 1) \<or> 2 ^ 64 - 2 ^ (te_va_bits e - 1) \<le> a)"

text \<open>A read or write of one byte; \<open>None\<close> means that it succeeds. The number \<open>k\<close> names the access.\<close>

definition mem_access :: "trap_env \<Rightarrow> nat \<Rightarrow> nat \<Rightarrow> bool \<Rightarrow> trap_state \<Rightarrow> fault option" where
  "mem_access e k a wr s =
     (let flt = (\<lambda>sig code addr. Some \<lparr>si_signo = sig, si_code = code, si_addr = of_nat addr,
                                        reg_rip = te_rip e k, reg_rsp = te_rsp e k\<rparr>)
      in if \<not> canonical e a then flt SIGSEGV SI_KERNEL 0
         else case maps s (a div te_ps e) of
                None \<Rightarrow> flt SIGSEGV SEGV_MAPERR a
              | Some m \<Rightarrow>
                  if (if wr then \<not> mp_write m else \<not> mp_read m) then flt SIGSEGV SEGV_ACCERR a
                  else (case mp_file m of
                          None \<Rightarrow> None
                        | Some off \<Rightarrow> if file_len s \<le> off then flt SIGBUS (te_bus_code e) a else None))"

section \<open>Handlers and jumps\<close>

definition sigaction :: "int \<Rightarrow> trap_state \<Rightarrow> trap_state" where
  "sigaction sig s = s\<lparr>handled := insert sig (handled s)\<rparr>"

text \<open>\<^verbatim>\<open>sigsetjmp(jump_buf, 1)\<close> saves the mask, \<^verbatim>\<open>siglongjmp\<close> restores it.\<close>

definition sigsetjmp :: "trap_state \<Rightarrow> trap_state" where
  "sigsetjmp s = s\<lparr>jump_mask := blocked s\<rparr>"

definition siglongjmp :: "trap_state \<Rightarrow> trap_state" where
  "siglongjmp s = s\<lparr>blocked := jump_mask s\<rparr>"

text \<open>Delivery of a fault: the signal is blocked while its handler runs.\<close>

definition deliver :: "(fault \<Rightarrow> trap_state \<Rightarrow> trap_state) \<Rightarrow> fault \<Rightarrow> trap_state \<Rightarrow> trap_run" where
  "deliver h f s =
     (if si_signo f \<in> handled s \<and> si_signo f \<notin> blocked s
      then Inr (h f (s\<lparr>blocked := insert (si_signo f) (blocked s)\<rparr>)) else Inl s)"

text \<open>\<^verbatim>\<open>if (sigsetjmp(...) == 0) { body } else { recovered }\<close>, with \<open>body\<close> ending in a fault or not.\<close>

definition guarded ::
  "(fault \<Rightarrow> trap_state \<Rightarrow> trap_state) \<Rightarrow> (trap_state \<Rightarrow> trap_state) \<Rightarrow> (trap_state \<Rightarrow> fault option)
   \<Rightarrow> out list \<Rightarrow> out list \<Rightarrow> trap_state \<Rightarrow> trap_run" where
  "guarded h pre acc normal recovered s =
     (let s1 = pre (sigsetjmp s) in
      case acc s1 of
        None \<Rightarrow> Inr (emit normal s1)
      | Some f \<Rightarrow> and_then (deliver h f s1) (\<lambda>s2. Inr (emit recovered s2)))"

section \<open>Lab 05\<close>

definition segv_name :: "int \<Rightarrow> string" where
  "segv_name sig = (if sig = SIGSEGV then ''SIGSEGV'' else if sig = SIGBUS then ''SIGBUS'' else ''OTHER'')"

definition code_name :: "int \<Rightarrow> string" where
  "code_name c = (if c = SEGV_MAPERR then ''MAPERR (unmapped)''
                  else if c = SEGV_ACCERR then ''ACCERR (permission)'' else ''other'')"

definition segv_report :: "fault \<Rightarrow> out list" where
  "segv_report f =
     [Printf ''  [TRAP] Signal %d (%s) at address %p'' [Num (si_signo f), Str (segv_name (si_signo f)), Ptr (si_addr f)],
      Printf ''  [TRAP] Code: %d (%s)'' [Num (si_code f), Str (code_name (si_code f))],
      Printf ''  [TRAP] RIP (faulting instruction): %p'' [Ptr (reg_rip f)]]"

definition segv_handler :: "fault \<Rightarrow> trap_state \<Rightarrow> trap_state" where
  "segv_handler f s = siglongjmp (emit (segv_report f) (s\<lparr>fault_count := fault_count s + 1\<rparr>))"

definition setup_handler :: "trap_state \<Rightarrow> trap_state" where
  "setup_handler s = sigaction SIGBUS (sigaction SIGSEGV s)"

definition demo_null_deref :: "trap_env \<Rightarrow> trap_state \<Rightarrow> trap_run" where
  "demo_null_deref e s =
     guarded segv_handler (emit [Printf ''  About to dereference NULL...'' []]) (mem_access e 0 0 False)
       [Printf ''  This should never print.'' []]
       [Printf ''  Recovered from SIGSEGV via signal handler + longjmp.'' []] s"

definition map_page :: "trap_env \<Rightarrow> nat \<Rightarrow> mapping option \<Rightarrow> trap_state \<Rightarrow> trap_state" where
  "map_page e a m s = s\<lparr>maps := (maps s)(a div te_ps e := m)\<rparr>"

definition anon :: "bool \<Rightarrow> bool \<Rightarrow> mapping" where
  "anon r w = \<lparr>mp_read = r, mp_write = w, mp_file = None\<rparr>"

definition demo_guard_page :: "trap_env \<Rightarrow> trap_state \<Rightarrow> trap_run" where
  "demo_guard_page e s =
     (case te_guard e of None \<Rightarrow> Inr (emit [Perror ''mmap''] s)
      | Some page \<Rightarrow>
          (let s1 = emit [Printf ''  Wrote to page at %p - OK'' [Ptr (of_nat page)]]
                      (map_page e page (Some (anon True True)) s)
           in if \<not> te_mprotect1 e then Inr (emit [Perror ''mprotect''] s1)
              else and_then
                (guarded segv_handler (emit [Printf ''  Attempting to read guard page...'' []])
                   (mem_access e 1 page False) []
                   [Printf ''  Caught SIGSEGV on guard page access - this is how stack overflow is detected!'' []]
                   (emit [Printf ''  mprotect(PROT_NONE) - page is now a guard page'' []]
                      (map_page e page (Some (anon False False)) s1)))
                (\<lambda>s2. Inr (map_page e page None s2))))"

text \<open>Without a mapping, \<^verbatim>\<open>memset\<close> faults while the jump buffer belongs to a function that has returned.\<close>

definition demo_write_protect :: "trap_env \<Rightarrow> trap_state \<Rightarrow> trap_run" where
  "demo_write_protect e s =
     (case te_wp e of None \<Rightarrow> Inl s
      | Some page \<Rightarrow>
          and_then
            (guarded segv_handler (emit [Printf ''  Attempting write...'' []]) (mem_access e 2 page True) []
               [Printf ''  Caught SIGSEGV - write to read-only page.'' [],
                Printf ''  The kernel uses this exact mechanism for COW after fork().'' []]
               (emit [Printf ''  Page at %p is now read-only.'' [Ptr (of_nat page)]]
                  (map_page e page (Some (anon True (\<not> te_mprotect2 e))) s)))
            (\<lambda>s2. Inr (map_page e page None s2)))"

definition shared :: "nat \<Rightarrow> mapping" where
  "shared off = \<lparr>mp_read = True, mp_write = True, mp_file = Some off\<rparr>"

text \<open>
  The results of the two \<^verbatim>\<open>write\<close> calls are not looked at; \<open>te_written\<close> is the length they leave the
  file with. If it is 0, already the first access faults, where no block guards it.
\<close>

definition demo_bus_error_sim :: "trap_env \<Rightarrow> trap_state \<Rightarrow> trap_run" where
  "demo_bus_error_sim e s =
     (if \<not> te_mkstemp e then Inr (emit [Perror ''mkstemp''] s)
      else case te_bus e of None \<Rightarrow> Inr (emit [Perror ''mmap''] s)
      | Some p \<Rightarrow>
          (let s1 = map_page e (p + te_ps e) (Some (shared (te_ps e))) (map_page e p (Some (shared 0)) s);
               s2 = emit [Printf ''  Access page 0 (within file): value=0x%02x  OK'' [Num 0xAA]]
                      (s1\<lparr>file_len := te_written e\<rparr>);
               s3 = emit [Printf ''  Truncated file to 0 bytes.'' [],
                          Printf ''  Accessing page 1 (beyond EOF) should deliver SIGBUS...'' []]
                      (s2\<lparr>file_len := 0\<rparr>)
           in if te_written e = 0 then Inl s1 else and_then
                (guarded segv_handler (emit []) (mem_access e 3 (p + te_ps e) False)
                   [Printf ''  (No SIGBUS -- kernel may have padded with zeros)'' []]
                   [Printf ''  Caught SIGBUS: file-backed page beyond EOF.'' [],
                    Printf ''  SIGBUS code BUS_OBJERR: object-specific hardware error.'' []] s3)
                (\<lambda>s4. Inr (map_page e (p + te_ps e) None (map_page e p None s4)))))"

definition trap_start :: "trap_env \<Rightarrow> trap_state" where
  "trap_start e = \<lparr>maps = te_maps e, file_len = 0, handled = {}, blocked = {}, jump_mask = {},
                   fault_count = 0, t_out = []\<rparr>"

definition lab05_main :: "trap_env \<Rightarrow> trap_run" where
  "lab05_main e =
     and_then (demo_null_deref e (setup_handler (trap_start e))) (\<lambda>s1.
     and_then (demo_guard_page e s1) (\<lambda>s2.
     and_then (demo_write_protect e s2) (\<lambda>s3.
     and_then (demo_bus_error_sim e s3) (\<lambda>s4.
     Inr (emit [Printf ''  Total faults caught: %d'' [Num (fault_count s4)]] s4)))))"

section \<open>Lab 06\<close>

definition trap_name :: "int \<Rightarrow> string" where
  "trap_name sig =
     (if sig = SIGFPE then ''SIGFPE'' else if sig = SIGILL then ''SIGILL''
      else if sig = SIGSEGV then ''SIGSEGV'' else if sig = SIGBUS then ''SIGBUS''
      else if sig = SIGTRAP then ''SIGTRAP'' else ''UNKNOWN'')"

definition trap_report :: "fault \<Rightarrow> out list" where
  "trap_report f =
     [Printf ''  [TRAP] %s (signal %d)'' [Str (trap_name (si_signo f)), Num (si_signo f)],
      Printf ''  [TRAP] si_code=%d  si_addr=%p'' [Num (si_code f), Ptr (si_addr f)],
      Printf ''  [TRAP] RIP=%p  RSP=%p'' [Ptr (reg_rip f), Ptr (reg_rsp f)]]"

definition trap_handler :: "fault \<Rightarrow> trap_state \<Rightarrow> trap_state" where
  "trap_handler f s = siglongjmp (emit (trap_report f) s)"

definition install_handlers :: "trap_state \<Rightarrow> trap_state" where
  "install_handlers s = fold sigaction [SIGFPE, SIGILL, SIGSEGV, SIGBUS, SIGTRAP] s"

text \<open>The jump returns the signal number, which the recovery branch prints.\<close>

definition demo_div_zero :: "trap_env \<Rightarrow> trap_state \<Rightarrow> trap_run" where
  "demo_div_zero e s =
     guarded trap_handler (emit [Printf ''  Computing %d / %d...'' [Num 42, Num 0]])
       (\<lambda>_. Some \<lparr>si_signo = SIGFPE, si_code = FPE_INTDIV, si_addr = te_rip e 0,
                   reg_rip = te_rip e 0, reg_rsp = te_rsp e 0\<rparr>)
       [] [Printf ''  Recovered from SIGFPE (signal %d)'' [Num SIGFPE]] s"

definition demo_breakpoint :: "trap_env \<Rightarrow> trap_state \<Rightarrow> trap_run" where
  "demo_breakpoint e s =
     guarded trap_handler (emit [Printf ''  Executing int3 (software breakpoint)...'' []])
       (\<lambda>_. Some \<lparr>si_signo = SIGTRAP, si_code = fst (te_int3 e), si_addr = snd (te_int3 e),
                   reg_rip = te_rip e 1, reg_rsp = te_rsp e 1\<rparr>)
       [] [Printf ''  Caught SIGTRAP - this is how debuggers (gdb) set breakpoints.'' []] s"

definition BAD_ADDR :: nat where "BAD_ADDR = 0xDEADBEEF0000"

definition demo_fault_address_handler :: "trap_env \<Rightarrow> trap_state \<Rightarrow> trap_run" where
  "demo_fault_address_handler e s =
     guarded trap_handler (emit [Printf ''  Accessing unmapped address %p...'' [Ptr (of_nat BAD_ADDR)]])
       (mem_access e 2 BAD_ADDR False) []
       [Printf ''  Handler printed si_addr (fault address) and RIP above.'' [],
        Printf ''  OBSERVE: si_addr matches the bad pointer we accessed.'' [],
        Printf ''  WHY: #PF error code bit 0 = 0 (not-present), bit 1 = 0 (read).'' []] s"

definition lab06_main :: "trap_env \<Rightarrow> trap_run" where
  "lab06_main e =
     and_then (demo_div_zero e (install_handlers (trap_start e))) (\<lambda>s1.
     and_then (demo_breakpoint e s1) (demo_fault_address_handler e))"

section \<open>Recovery\<close>

text \<open>
  What a guarded block needs of a handler: it reports the fault, counts it or not, and jumps, which
  restores the mask of the jump buffer. Then a fault whose signal is handled and not blocked is
  recovered from with the mask as it was before, and any other fault kills the process.
\<close>

locale fault_handler =
  fixes h :: "fault \<Rightarrow> trap_state \<Rightarrow> trap_state"
    and report :: "fault \<Rightarrow> out list"
    and counts :: int
  assumes handler: "h f s = s\<lparr>blocked := jump_mask s, fault_count := fault_count s + counts, t_out := t_out s @ report f\<rparr>"
begin

lemma guarded_recovers:
  assumes "acc (emit pre (sigsetjmp s)) = Some f" "si_signo f \<in> handled s" "si_signo f \<notin> blocked s"
  shows "guarded h (emit pre) acc normal recovered s =
           Inr (s\<lparr>jump_mask := blocked s, fault_count := fault_count s + counts,
                  t_out := t_out s @ pre @ report f @ recovered\<rparr>)"
  using assms by (simp add: guarded_def deliver_def and_then_def handler emit_def sigsetjmp_def)

lemma guarded_normal:
  assumes "acc (emit pre (sigsetjmp s)) = None"
  shows "guarded h (emit pre) acc normal recovered s =
           Inr (s\<lparr>jump_mask := blocked s, t_out := t_out s @ pre @ normal\<rparr>)"
  using assms by (simp add: guarded_def emit_def sigsetjmp_def)

lemma guarded_killed:
  assumes "acc (emit pre (sigsetjmp s)) = Some f" "si_signo f \<notin> handled s \<or> si_signo f \<in> blocked s"
  shows "guarded h (emit pre) acc normal recovered s = Inl (emit pre (sigsetjmp s))"
  using assms by (auto simp: guarded_def deliver_def and_then_def emit_def sigsetjmp_def)

lemma guarded_mask:
  assumes "guarded h (emit pre) acc normal recovered s = Inr t"
  shows "blocked t = blocked s \<and> handled t = handled s"
proof (cases "acc (emit pre (sigsetjmp s))")
  case None
  then show ?thesis using assms guarded_normal [of acc pre s normal recovered] by auto
next
  case (Some f)
  show ?thesis
  proof (cases "si_signo f \<in> handled s \<and> si_signo f \<notin> blocked s")
    case True
    then show ?thesis using assms guarded_recovers [of acc pre s f normal recovered] Some by auto
  next
    case False
    then show ?thesis using assms guarded_killed [of acc pre s f normal recovered] Some by auto
  qed
qed

end

interpretation segv: fault_handler segv_handler segv_report 1
  by unfold_locales (simp add: segv_handler_def siglongjmp_def emit_def)

interpretation trap: fault_handler trap_handler trap_report 0
  by unfold_locales (simp add: trap_handler_def siglongjmp_def emit_def)

section \<open>Lab 05 survives its faults\<close>

definition ready :: "trap_state \<Rightarrow> bool" where
  "ready s \<longleftrightarrow> {SIGSEGV, SIGBUS} \<subseteq> handled s \<and> blocked s = {}"

text \<open>The outcome of a demonstration: it returns ready for the next, one fault more, with its lines.\<close>

definition traps_once :: "trap_run \<Rightarrow> trap_state \<Rightarrow> out list \<Rightarrow> bool" where
  "traps_once r s os \<longleftrightarrow>
     (\<exists>t. r = Inr t \<and> ready t \<and> fault_count t = fault_count s + 1 \<and> t_out t = t_out s @ os)"

definition fault_at :: "trap_env \<Rightarrow> nat \<Rightarrow> int \<Rightarrow> int \<Rightarrow> nat \<Rightarrow> fault" where
  "fault_at e k sig code a = \<lparr>si_signo = sig, si_code = code, si_addr = of_nat a,
                              reg_rip = te_rip e k, reg_rsp = te_rsp e k\<rparr>"

lemma guarded_once:
  assumes "ready s" "acc (emit pre (sigsetjmp s)) = Some (fault_at e k sig code a)" "sig \<in> {SIGSEGV, SIGBUS}"
  shows "traps_once (guarded segv_handler (emit pre) acc normal recovered s) s
           (pre @ segv_report (fault_at e k sig code a) @ recovered)"
  using assms by (subst segv.guarded_recovers) (auto simp: traps_once_def ready_def fault_at_def)

lemma once_then_map:
  assumes "traps_once r s os"
  shows "traps_once (and_then r (\<lambda>s2. Inr (map_page e a m s2))) s os"
  using assms by (auto simp: traps_once_def and_then_def map_page_def ready_def)

lemma once_from:
  assumes "traps_once r s1 os" "fault_count s1 = fault_count s" "t_out s1 = t_out s @ pre"
  shows "traps_once r s (pre @ os)"
  using assms by (auto simp: traps_once_def)

lemma null_deref_once:
  assumes "ready s" "maps s 0 = None"
  shows "traps_once (demo_null_deref e s) s
     (Printf ''  About to dereference NULL...'' [] # segv_report (fault_at e 0 SIGSEGV SEGV_MAPERR 0)
      @ [Printf ''  Recovered from SIGSEGV via signal handler + longjmp.'' []])"
proof -
  have "traps_once (guarded segv_handler (emit os) (mem_access e 0 0 False) n rc s) s
          (os @ segv_report (fault_at e 0 SIGSEGV SEGV_MAPERR 0) @ rc)" for os n rc
    using assms by (intro guarded_once) (simp_all add: mem_access_def canonical_def emit_def sigsetjmp_def fault_at_def)
  from this [of "[_]"] show ?thesis by (simp add: demo_null_deref_def)
qed

lemma guard_page_once:
  assumes "ready s" "te_guard e = Some page" "canonical e page" "te_mprotect1 e"
  shows "traps_once (demo_guard_page e s) s
     ([Printf ''  Wrote to page at %p - OK'' [Ptr (of_nat page)],
       Printf ''  mprotect(PROT_NONE) - page is now a guard page'' [],
       Printf ''  Attempting to read guard page...'' []] @ segv_report (fault_at e 1 SIGSEGV SEGV_ACCERR page)
      @ [Printf ''  Caught SIGSEGV on guard page access - this is how stack overflow is detected!'' []])"
proof -
  define s1 where "s1 = emit [Printf ''  mprotect(PROT_NONE) - page is now a guard page'' []]
    (map_page e page (Some (anon False False)) (emit [Printf ''  Wrote to page at %p - OK'' [Ptr (of_nat page)]]
       (map_page e page (Some (anon True True)) s)))"
  have "ready s1" using assms(1) by (simp add: s1_def ready_def emit_def map_page_def)
  then have "traps_once (guarded segv_handler (emit os) (mem_access e 1 page False) n rc s1) s1
          (os @ segv_report (fault_at e 1 SIGSEGV SEGV_ACCERR page) @ rc)" for os n rc
    using assms(3)
    by (intro guarded_once) (simp_all add: mem_access_def s1_def emit_def map_page_def sigsetjmp_def anon_def fault_at_def)
  from once_then_map [OF this [of "[_]"]] have "traps_once (demo_guard_page e s) s1 (Printf ''  Attempting to read guard page...'' []
      # segv_report (fault_at e 1 SIGSEGV SEGV_ACCERR page) @ [Printf ''  Caught SIGSEGV on guard page access - this is how stack overflow is detected!'' []])"
    using assms(2,4) by (simp add: demo_guard_page_def Let_def s1_def [symmetric])
  from once_from [OF this, of s] show ?thesis by (simp add: s1_def emit_def map_page_def)
qed

lemma write_protect_once:
  assumes "ready s" "te_wp e = Some page" "canonical e page" "te_mprotect2 e"
  shows "traps_once (demo_write_protect e s) s
     ([Printf ''  Page at %p is now read-only.'' [Ptr (of_nat page)], Printf ''  Attempting write...'' []]
      @ segv_report (fault_at e 2 SIGSEGV SEGV_ACCERR page)
      @ [Printf ''  Caught SIGSEGV - write to read-only page.'' [],
         Printf ''  The kernel uses this exact mechanism for COW after fork().'' []])"
proof -
  define s1 where "s1 = emit [Printf ''  Page at %p is now read-only.'' [Ptr (of_nat page)]]
    (map_page e page (Some (anon True (\<not> te_mprotect2 e))) s)"
  have "ready s1" using assms(1) by (simp add: s1_def ready_def emit_def map_page_def)
  then have "traps_once (guarded segv_handler (emit os) (mem_access e 2 page True) n rc s1) s1
          (os @ segv_report (fault_at e 2 SIGSEGV SEGV_ACCERR page) @ rc)" for os n rc
    using assms(3,4)
    by (intro guarded_once) (simp_all add: mem_access_def s1_def emit_def map_page_def sigsetjmp_def anon_def fault_at_def)
  from once_then_map [OF this [of "[_]"]] have "traps_once (demo_write_protect e s) s1 (Printf ''  Attempting write...'' []
      # segv_report (fault_at e 2 SIGSEGV SEGV_ACCERR page) @ [Printf ''  Caught SIGSEGV - write to read-only page.'' [],
         Printf ''  The kernel uses this exact mechanism for COW after fork().'' []])"
    using assms(2) by (simp add: demo_write_protect_def Let_def s1_def [symmetric])
  from once_from [OF this, of s] show ?thesis by (simp add: s1_def emit_def map_page_def)
qed

lemma and_then_and_then: "and_then (and_then r f) g = and_then r (\<lambda>s. and_then (f s) g)"
  by (simp add: and_then_def split: sum.splits)

lemma and_then_Inr [simp]: "and_then (Inr s) f = f s"
  by (simp add: and_then_def)

lemma bus_error_once:
  assumes "ready s" "te_mkstemp e" "te_bus e = Some p" "te_written e \<noteq> 0" "canonical e (p + te_ps e)" "0 < te_ps e"
  shows "traps_once (demo_bus_error_sim e s) s
     ([Printf ''  Access page 0 (within file): value=0x%02x  OK'' [Num 0xAA],
       Printf ''  Truncated file to 0 bytes.'' [],
       Printf ''  Accessing page 1 (beyond EOF) should deliver SIGBUS...'' []]
      @ segv_report (fault_at e 3 SIGBUS (te_bus_code e) (p + te_ps e))
      @ [Printf ''  Caught SIGBUS: file-backed page beyond EOF.'' [],
         Printf ''  SIGBUS code BUS_OBJERR: object-specific hardware error.'' []])"
proof -
  define s3 where "s3 =
    emit [Printf ''  Truncated file to 0 bytes.'' [], Printf ''  Accessing page 1 (beyond EOF) should deliver SIGBUS...'' []]
      ((emit [Printf ''  Access page 0 (within file): value=0x%02x  OK'' [Num 0xAA]]
         ((map_page e (p + te_ps e) (Some (shared (te_ps e))) (map_page e p (Some (shared 0)) s))
            \<lparr>file_len := te_written e\<rparr>))\<lparr>file_len := 0\<rparr>)"
  have "ready s3" using assms(1) by (simp add: s3_def ready_def emit_def map_page_def)
  then have "traps_once (guarded segv_handler (emit os) (mem_access e 3 (p + te_ps e) False) n rc s3) s3
          (os @ segv_report (fault_at e 3 SIGBUS (te_bus_code e) (p + te_ps e)) @ rc)" for os n rc
    using assms(5,6)
    by (intro guarded_once) (simp_all add: mem_access_def s3_def emit_def map_page_def sigsetjmp_def shared_def fault_at_def)
  from once_then_map [OF once_then_map [OF this [of "[]"]]]
  have "traps_once (demo_bus_error_sim e s) s3 (segv_report (fault_at e 3 SIGBUS (te_bus_code e) (p + te_ps e))
      @ [Printf ''  Caught SIGBUS: file-backed page beyond EOF.'' [],
         Printf ''  SIGBUS code BUS_OBJERR: object-specific hardware error.'' []])"
    using assms(2,3,4) by (simp add: demo_bus_error_sim_def Let_def s3_def [symmetric] and_then_and_then)
  from once_from [OF this, of s] show ?thesis by (simp add: s3_def emit_def map_page_def)
qed

text \<open>What the calls of lab 05 return when nothing fails, and the page at address 0 not mapped.\<close>

definition trap_env_ok :: "trap_env \<Rightarrow> nat \<Rightarrow> nat \<Rightarrow> nat \<Rightarrow> bool" where
  "trap_env_ok e g w b \<longleftrightarrow>
     0 < te_ps e \<and> te_maps e 0 = None \<and> te_guard e = Some g \<and> te_mprotect1 e \<and> te_wp e = Some w \<and>
     te_mprotect2 e \<and> te_mkstemp e \<and> te_bus e = Some b \<and> te_written e \<noteq> 0 \<and>
     canonical e g \<and> canonical e w \<and> canonical e (b + te_ps e)"

lemma ready_start: "ready (setup_handler (trap_start e))"
  by (simp add: ready_def setup_handler_def sigaction_def trap_start_def)

text \<open>
  C26. If its system calls succeed, lab 05 survives all its faults: each of the four accesses raises the
  signal its demonstration is about (an unmapped page, a page without permissions, a read-only page,
  a file page beyond the end), the handler reports it and the program resumes after the guarded
  block, because the jump restores the signal mask; it ends with a count of 4 and no signal blocked.
  The SIGBUS fault is reported with the name of the SIGSEGV code of the same number.
\<close>

theorem traps_recovered:
  assumes "trap_env_ok e g w b"
  shows "\<exists>s. lab05_main e = Inr s \<and> fault_count s = 4 \<and> blocked s = {} \<and>
    t_out s =
      Printf ''  About to dereference NULL...'' [] # segv_report (fault_at e 0 SIGSEGV SEGV_MAPERR 0)
      @ Printf ''  Recovered from SIGSEGV via signal handler + longjmp.'' []
      # [Printf ''  Wrote to page at %p - OK'' [Ptr (of_nat g)],
         Printf ''  mprotect(PROT_NONE) - page is now a guard page'' [],
         Printf ''  Attempting to read guard page...'' []] @ segv_report (fault_at e 1 SIGSEGV SEGV_ACCERR g)
      @ Printf ''  Caught SIGSEGV on guard page access - this is how stack overflow is detected!'' []
      # [Printf ''  Page at %p is now read-only.'' [Ptr (of_nat w)], Printf ''  Attempting write...'' []]
      @ segv_report (fault_at e 2 SIGSEGV SEGV_ACCERR w)
      @ [Printf ''  Caught SIGSEGV - write to read-only page.'' [],
         Printf ''  The kernel uses this exact mechanism for COW after fork().'' [],
         Printf ''  Access page 0 (within file): value=0x%02x  OK'' [Num 0xAA],
         Printf ''  Truncated file to 0 bytes.'' [],
         Printf ''  Accessing page 1 (beyond EOF) should deliver SIGBUS...'' []]
      @ segv_report (fault_at e 3 SIGBUS (te_bus_code e) (b + te_ps e))
      @ [Printf ''  Caught SIGBUS: file-backed page beyond EOF.'' [],
         Printf ''  SIGBUS code BUS_OBJERR: object-specific hardware error.'' [],
         Printf ''  Total faults caught: %d'' [Num 4]]"
proof -
  have m: "maps (setup_handler (trap_start e)) 0 = None"
    and z: "fault_count (setup_handler (trap_start e)) = 0" "t_out (setup_handler (trap_start e)) = []"
    using assms by (simp_all add: trap_env_ok_def setup_handler_def sigaction_def trap_start_def)
  obtain s1 where s1: "demo_null_deref e (setup_handler (trap_start e)) = Inr s1" "ready s1" "fault_count s1 = 1"
    "t_out s1 = Printf ''  About to dereference NULL...'' [] # segv_report (fault_at e 0 SIGSEGV SEGV_MAPERR 0)
      @ [Printf ''  Recovered from SIGSEGV via signal handler + longjmp.'' []]"
    using null_deref_once [OF ready_start m] z by (auto simp: traps_once_def)
  obtain s2 where s2: "demo_guard_page e s1 = Inr s2" "ready s2" "fault_count s2 = 2"
    "t_out s2 = t_out s1 @ [Printf ''  Wrote to page at %p - OK'' [Ptr (of_nat g)],
         Printf ''  mprotect(PROT_NONE) - page is now a guard page'' [],
         Printf ''  Attempting to read guard page...'' []] @ segv_report (fault_at e 1 SIGSEGV SEGV_ACCERR g)
      @ [Printf ''  Caught SIGSEGV on guard page access - this is how stack overflow is detected!'' []]"
    using guard_page_once [OF s1(2), of e g] s1(3) assms by (auto simp: traps_once_def trap_env_ok_def)
  obtain s3 where s3: "demo_write_protect e s2 = Inr s3" "ready s3" "fault_count s3 = 3"
    "t_out s3 = t_out s2 @ [Printf ''  Page at %p is now read-only.'' [Ptr (of_nat w)], Printf ''  Attempting write...'' []]
      @ segv_report (fault_at e 2 SIGSEGV SEGV_ACCERR w)
      @ [Printf ''  Caught SIGSEGV - write to read-only page.'' [],
         Printf ''  The kernel uses this exact mechanism for COW after fork().'' []]"
    using write_protect_once [OF s2(2), of e w] s2(3) assms by (auto simp: traps_once_def trap_env_ok_def)
  obtain s4 where s4: "demo_bus_error_sim e s3 = Inr s4" "ready s4" "fault_count s4 = 4"
    "t_out s4 = t_out s3 @ [Printf ''  Access page 0 (within file): value=0x%02x  OK'' [Num 0xAA],
         Printf ''  Truncated file to 0 bytes.'' [],
         Printf ''  Accessing page 1 (beyond EOF) should deliver SIGBUS...'' []]
      @ segv_report (fault_at e 3 SIGBUS (te_bus_code e) (b + te_ps e))
      @ [Printf ''  Caught SIGBUS: file-backed page beyond EOF.'' [],
         Printf ''  SIGBUS code BUS_OBJERR: object-specific hardware error.'' []]"
    using bus_error_once [OF s3(2), of e b] s3(3) assms by (auto simp: traps_once_def trap_env_ok_def)
  have "lab05_main e = Inr (emit [Printf ''  Total faults caught: %d'' [Num 4]] s4)"
    using s1(1) s2(1) s3(1) s4(1,3) by (simp add: lab05_main_def and_then_def)
  then show ?thesis using s1(4) s2(4) s3(4) s4(2,3,4) by (simp add: emit_def ready_def)
qed

definition sample_traps :: trap_env where
  "sample_traps = \<lparr>te_ps = 4096, te_va_bits = 48, te_maps = (\<lambda>_. None), te_guard = Some 0x7f0000000000,
     te_mprotect1 = True, te_wp = Some 0x7f0000001000, te_mprotect2 = True, te_mkstemp = True,
     te_bus = Some 0x7f0000002000, te_written = 8192, te_bus_code = 2, te_int3 = (SI_KERNEL, 0), te_rip = (\<lambda>_. 0x401000), te_rsp = (\<lambda>_. 0)\<rparr>"

theorem traps_recovered_witness:
  "\<exists>s. lab05_main sample_traps = Inr s \<and> fault_count s = 4 \<and>
     Printf ''  [TRAP] Code: %d (%s)'' [Num 2, Str ''ACCERR (permission)''] \<in> set (segv_report (fault_at sample_traps 3 SIGBUS 2 0))"
proof -
  have "trap_env_ok sample_traps 0x7f0000000000 0x7f0000001000 0x7f0000002000"
    by (simp add: trap_env_ok_def sample_traps_def canonical_def)
  from traps_recovered [OF this]
  show ?thesis by (auto simp: segv_report_def fault_at_def code_name_def signal_defs)
qed

section \<open>Lab 06\<close>

definition ready6 :: "trap_state \<Rightarrow> bool" where
  "ready6 s \<longleftrightarrow> {SIGFPE, SIGSEGV, SIGBUS, SIGTRAP} \<subseteq> handled s \<and> blocked s = {}"

lemma div_zero_returns: "ready6 s \<Longrightarrow> \<exists>t. demo_div_zero e s = Inr t \<and> ready6 t \<and> maps t = maps s"
  unfolding demo_div_zero_def by (subst trap.guarded_recovers, rule refl) (auto simp: ready6_def)

lemma breakpoint_returns: "ready6 s \<Longrightarrow> \<exists>t. demo_breakpoint e s = Inr t \<and> ready6 t \<and> maps t = maps s"
  unfolding demo_breakpoint_def by (subst trap.guarded_recovers, rule refl) (auto simp: ready6_def)

lemma mem_access_signal: "mem_access e k a wr s = Some f \<Longrightarrow> si_signo f = SIGSEGV \<or> si_signo f = SIGBUS"
  by (auto simp: mem_access_def Let_def split: if_splits option.splits)

lemma access_returns:
  assumes "ready6 s"
  shows "\<exists>t. demo_fault_address_handler e s = Inr t \<and> blocked t = {}"
proof (cases "mem_access e 2 BAD_ADDR False (emit [Printf ''  Accessing unmapped address %p...'' [Ptr (of_nat BAD_ADDR)]] (sigsetjmp s))")
  case None
  then show ?thesis
    using assms unfolding demo_fault_address_handler_def by (subst trap.guarded_normal) (auto simp: ready6_def)
next
  case (Some f)
  with mem_access_signal [OF Some] show ?thesis
    using assms unfolding demo_fault_address_handler_def by (subst trap.guarded_recovers) (auto simp: ready6_def)
qed

lemma access_reported:
  assumes "ready6 s" "maps s = te_maps e"
    and "te_va_bits e = 48 \<and> f = fault_at e 2 SIGSEGV SI_KERNEL 0 \<or>
         te_va_bits e = 57 \<and> te_maps e (BAD_ADDR div te_ps e) = None \<and> f = fault_at e 2 SIGSEGV SEGV_MAPERR BAD_ADDR"
    and "demo_fault_address_handler e s = Inr t"
  shows "set (trap_report f) \<subseteq> set (t_out t)"
proof -
  have acc: "mem_access e 2 BAD_ADDR False (emit os (sigsetjmp s)) = Some f" for os
    using assms(2,3) by (auto simp: mem_access_def canonical_def fault_at_def emit_def sigsetjmp_def BAD_ADDR_def)
  have "si_signo f \<in> {SIGFPE, SIGSEGV, SIGBUS, SIGTRAP}" using assms(3) by (auto simp: fault_at_def)
  then have "guarded trap_handler (emit os) (mem_access e 2 BAD_ADDR False) n rc s =
      Inr (s\<lparr>jump_mask := blocked s, fault_count := fault_count s + 0, t_out := t_out s @ os @ trap_report f @ rc\<rparr>)" for os n rc
    using assms(1) by (intro trap.guarded_recovers acc) (auto simp: ready6_def)
  then show ?thesis using assms(4) by (auto simp: demo_fault_address_handler_def)
qed

text \<open>
  C39. Lab 06 recovers from its three traps. With 48-bit addresses, \<^verbatim>\<open>0xDEADBEEF0000\<close> is not canonical:
  the access raises a general protection fault, whose SIGSEGV carries the code 128 and the address 0,
  so that the handler does not show the pointer that was accessed, which the text printed after it
  claims. With 57-bit addresses and no page mapped there, it does.
\<close>

theorem fault_address_reported:
  "\<exists>s. lab06_main e = Inr s \<and> blocked s = {} \<and>
     (te_va_bits e = 48 \<longrightarrow>
        Printf ''  [TRAP] si_code=%d  si_addr=%p'' [Num 128, Ptr 0] \<in> set (t_out s)) \<and>
     (te_va_bits e = 57 \<and> te_maps e (BAD_ADDR div te_ps e) = None \<longrightarrow>
        Printf ''  [TRAP] si_code=%d  si_addr=%p'' [Num 1, Ptr 0xDEADBEEF0000] \<in> set (t_out s))"
proof -
  define s0 where "s0 = install_handlers (trap_start e)"
  have r0: "ready6 s0" "maps s0 = te_maps e"
    by (simp_all add: s0_def ready6_def install_handlers_def sigaction_def trap_start_def)
  obtain s1 where s1: "demo_div_zero e s0 = Inr s1" "ready6 s1" "maps s1 = te_maps e"
    using div_zero_returns [OF r0(1), of e] r0(2) by auto
  obtain s2 where s2: "demo_breakpoint e s1 = Inr s2" "ready6 s2" "maps s2 = te_maps e"
    using breakpoint_returns [OF s1(2), of e] s1(3) by auto
  have main: "lab06_main e = demo_fault_address_handler e s2"
    using s1(1) s2(1) by (simp add: lab06_main_def s0_def)
  obtain t where t: "demo_fault_address_handler e s2 = Inr t" "blocked t = {}"
    using access_returns [OF s2(2)] by blast
  note rep = access_reported [OF s2(2,3) _ t(1)]
  have "te_va_bits e = 48 \<Longrightarrow> Printf ''  [TRAP] si_code=%d  si_addr=%p'' [Num 128, Ptr 0] \<in> set (t_out t)"
    using rep [of "fault_at e 2 SIGSEGV SI_KERNEL 0"] by (simp add: trap_report_def fault_at_def SI_KERNEL_def)
  moreover have "te_va_bits e = 57 \<Longrightarrow> te_maps e (BAD_ADDR div te_ps e) = None \<Longrightarrow>
      Printf ''  [TRAP] si_code=%d  si_addr=%p'' [Num 1, Ptr 0xDEADBEEF0000] \<in> set (t_out t)"
    using rep [of "fault_at e 2 SIGSEGV SEGV_MAPERR BAD_ADDR"]
    by (simp add: trap_report_def fault_at_def SEGV_MAPERR_def BAD_ADDR_def)
  ultimately show ?thesis by (intro exI [of _ t]) (simp add: main t)
qed

theorem fault_address_reported_witness:
  "\<exists>s. lab06_main sample_traps = Inr s \<and>
     Printf ''  [TRAP] si_code=%d  si_addr=%p'' [Num 128, Ptr 0] \<in> set (t_out s)"
proof -
  have "te_va_bits sample_traps = 48" by (simp add: sample_traps_def)
  then show ?thesis using fault_address_reported [of sample_traps] by fastforce
qed

end
