(* ===== verification/CrashRecovery.thy ===== *)
theory CrashRecovery
  imports Libc
begin

text \<open>
  Lab 32 (\<^verbatim>\<open>lab_32_crash_recovery.c\<close>): the safe update of a file by writing a new file, \<^verbatim>\<open>fsync\<close>,
  \<^verbatim>\<open>rename\<close> and \<^verbatim>\<open>fsync\<close> of the directory. The file system is modelled by what POSIX promises about
  the calls the lab makes: the contents of a file are certain to survive a crash once the file has
  been synchronised after the last write, a directory operation once the directory has been, and
  directory operations reach the disk in order, each of them entirely or not at all. Everything else
  may be lost or torn: \<open>crash_view\<close> allows any content for a file that is not synchronised and any
  directory state since the last synchronisation. The directory is \<^verbatim>\<open>/tmp\<close>.
\<close>

section \<open>Calls and their effects\<close>

datatype fsop =
    OpenTrunc string bool
  | Mkstemp string bool
  | WriteFd string
  | FsyncFd
  | CloseFd
  | Rename string string
  | OpenDir bool
  | Unlink string

datatype fd = File nat | Directory

record cfs =
  dir :: "string \<Rightarrow> nat option"
  disk_dirs :: "(string \<Rightarrow> nat option) list"
  data :: "nat \<Rightarrow> string"
  synced :: "nat \<Rightarrow> bool"
  next_ino :: nat
  cur_fd :: "fd option"

definition set_dir :: "(string \<Rightarrow> nat option) \<Rightarrow> cfs \<Rightarrow> cfs" where
  "set_dir d s = s\<lparr>dir := d, disk_dirs := disk_dirs s @ [d]\<rparr>"

definition set_data :: "nat \<Rightarrow> string \<Rightarrow> cfs \<Rightarrow> cfs" where
  "set_data i c s = s\<lparr>data := (data s)(i := c), synced := (synced s)(i := False)\<rparr>"

definition create :: "string \<Rightarrow> cfs \<Rightarrow> cfs" where
  "create n s =
     (let i = next_ino s
      in (set_data i [] (set_dir ((dir s)(n := Some i)) s))\<lparr>next_ino := i + 1, cur_fd := Some (File i)\<rparr>)"

fun run_op :: "fsop \<Rightarrow> cfs \<Rightarrow> cfs" where
  "run_op (OpenTrunc n ok) s =
     (if \<not> ok then s\<lparr>cur_fd := None\<rparr>
      else case dir s n of None \<Rightarrow> create n s | Some i \<Rightarrow> (set_data i [] s)\<lparr>cur_fd := Some (File i)\<rparr>)"
| "run_op (Mkstemp n ok) s = (if ok \<and> dir s n = None then create n s else s\<lparr>cur_fd := None\<rparr>)"
| "run_op (WriteFd c) s =
     (case cur_fd s of Some (File i) \<Rightarrow> set_data i (data s i @ c) s | _ \<Rightarrow> s)"
| "run_op FsyncFd s =
     (case cur_fd s of
        Some (File i) \<Rightarrow> s\<lparr>synced := (synced s)(i := True)\<rparr>
      | Some Directory \<Rightarrow> s\<lparr>disk_dirs := [dir s]\<rparr>
      | None \<Rightarrow> s)"
| "run_op CloseFd s = s\<lparr>cur_fd := None\<rparr>"
| "run_op (Rename a b) s =
     (case dir s a of None \<Rightarrow> s
      | Some i \<Rightarrow> if dir s b = Some i then s else set_dir ((dir s)(b := Some i, a := None)) s)"
| "run_op (OpenDir ok) s = s\<lparr>cur_fd := (if ok then Some Directory else None)\<rparr>"
| "run_op (Unlink n) s = set_dir ((dir s)(n := None)) s"

definition run_ops :: "fsop list \<Rightarrow> cfs \<Rightarrow> cfs" where
  "run_ops ops s = fold run_op ops s"

section \<open>The program\<close>

text \<open>Phase 2: no result is checked; \<open>ok\<close> tells which of the two \<^verbatim>\<open>open\<close> calls succeed.\<close>

definition lab32_phase2 :: "bool \<Rightarrow> bool \<Rightarrow> fsop list" where
  "lab32_phase2 ok1 ok2 =
     [OpenTrunc ''/tmp/lab32_new.dat'' ok1, WriteFd ''important data'', FsyncFd, CloseFd,
      Rename ''/tmp/lab32_new.dat'' ''/tmp/lab32_final.dat'', OpenDir ok2, FsyncFd, CloseFd,
      Unlink ''/tmp/lab32_final.dat'']"

text \<open>Phase 4: nothing happens unless \<^verbatim>\<open>mkstemp\<close> succeeds; the directory is synchronised if it opens.\<close>

definition lab32_phase4 :: "string \<Rightarrow> bool \<Rightarrow> bool \<Rightarrow> fsop list" where
  "lab32_phase4 tmpdata ok1 ok2 =
     (if \<not> ok1 then [Mkstemp tmpdata False]
      else [Mkstemp tmpdata True, WriteFd (''new important data v2'' @ [NL]), FsyncFd, CloseFd,
            Rename tmpdata ''/tmp/lab32_final_v2.dat'', OpenDir ok2, FsyncFd, CloseFd,
            Unlink ''/tmp/lab32_final_v2.dat''])"

definition lab32_out :: "string \<Rightarrow> bool \<Rightarrow> out list" where
  "lab32_out tmpdata ok1 =
     (if ok1 then
        [Printf ''  Step 1: wrote to temp file %s'' [Str tmpdata],
         Printf ''  Step 2: fsync'd temp file (data durable on disk)'' [],
         Printf ''  Step 3: rename() -- atomic POSIX operation'' [],
         Printf ''          After crash: either old file OR new file, never half-written'' [],
         Printf ''  Step 4: fsync'd /tmp directory (rename durable across crash)'' [],
         Printf ''  WHY: Without dir fsync, the rename might not survive a reboot.'' []]
      else [])"

section \<open>Crashes\<close>

text \<open>The contents a reader finds under a name, now and after a crash.\<close>

definition view :: "cfs \<Rightarrow> string \<Rightarrow> string option" where
  "view s n = map_option (data s) (dir s n)"

definition crash_view :: "cfs \<Rightarrow> (string \<Rightarrow> string option) \<Rightarrow> bool" where
  "crash_view s v \<longleftrightarrow>
     (\<exists>d\<in>set (disk_dirs s). \<exists>f. (\<forall>i. synced s i \<longrightarrow> f i = data s i) \<and> v = (\<lambda>n. map_option f (d n)))"

text \<open>A start with everything on disk, the temporary name unused or at least not a second link.\<close>

definition clean :: "cfs \<Rightarrow> string \<Rightarrow> bool" where
  "clean s tmp \<longleftrightarrow> disk_dirs s = [dir s] \<and> cur_fd s = None
     \<and> (\<forall>n i. dir s n = Some i \<longrightarrow> i < next_ino s \<and> synced s i)
     \<and> (\<forall>n i. n \<noteq> tmp \<longrightarrow> dir s n = Some i \<longrightarrow> dir s tmp \<noteq> Some i)"

text \<open>The state of an update under way: what every directory that may be on disk shows.\<close>

definition updating :: "cfs \<Rightarrow> string \<Rightarrow> string \<Rightarrow> string \<Rightarrow> cfs \<Rightarrow> bool" where
  "updating s tmp fin c t \<longleftrightarrow>
     (\<forall>d\<in>set (disk_dirs t). (d fin = dir s fin \<or> (\<exists>i. d fin = Some i \<and> data t i = c \<and> synced t i))
        \<and> (\<forall>n. n \<noteq> fin \<longrightarrow> n \<noteq> tmp \<longrightarrow> d n = dir s n))
     \<and> (\<forall>n i. n \<noteq> tmp \<longrightarrow> dir s n = Some i \<longrightarrow> data t i = data s i \<and> synced t i)"

lemma updating_view:
  assumes "updating s tmp fin c t" "crash_view t v" "fin \<noteq> tmp"
  shows "(v fin = view s fin \<or> v fin = Some c) \<and> (\<forall>n. n \<noteq> fin \<longrightarrow> n \<noteq> tmp \<longrightarrow> v n = view s n)"
proof -
  obtain d f where d: "d \<in> set (disk_dirs t)" and f: "\<And>i. synced t i \<Longrightarrow> f i = data t i" and v: "v = (\<lambda>n. map_option f (d n))"
    using assms(2) by (auto simp: crash_view_def)
  have old: "map_option f (dir s n) = view s n" if "n \<noteq> tmp" for n
    using assms(1) that f by (cases "dir s n") (auto simp: view_def updating_def)
  have "v fin = view s fin \<or> v fin = Some c"
    using assms(1,3) d f old [of fin] by (auto simp: v updating_def)
  moreover have "v n = view s n" if "n \<noteq> fin" "n \<noteq> tmp" for n
    using assms(1) d old [of n] that by (auto simp: v updating_def)
  ultimately show ?thesis by blast
qed

text \<open>The common sequence, from the call that opens the temporary file on.\<close>

definition update_ops :: "fsop \<Rightarrow> string \<Rightarrow> string \<Rightarrow> string \<Rightarrow> fsop list" where
  "update_ops op tmp fin c = [op, WriteFd c, FsyncFd, CloseFd, Rename tmp fin, OpenDir True, FsyncFd, CloseFd]"

text \<open>What the opening call establishes, for either call.\<close>

definition opened :: "cfs \<Rightarrow> string \<Rightarrow> nat \<Rightarrow> cfs \<Rightarrow> bool" where
  "opened s tmp i t \<longleftrightarrow> dir t tmp = Some i \<and> cur_fd t = Some (File i) \<and> data t i = [] \<and>
     (\<forall>n. n \<noteq> tmp \<longrightarrow> dir t n = dir s n \<and> dir s n \<noteq> Some i)
     \<and> (\<forall>d\<in>set (disk_dirs t). \<forall>n. n \<noteq> tmp \<longrightarrow> d n = dir s n)
     \<and> (\<forall>j. j \<noteq> i \<longrightarrow> data t j = data s j \<and> synced t j = synced s j)"

lemma opened_trunc:
  assumes "clean s tmp"
  shows "\<exists>i. opened s tmp i (run_op (OpenTrunc tmp True) s)"
proof (cases "dir s tmp")
  case None
  then show ?thesis
    using assms by (auto simp: opened_def clean_def create_def set_dir_def set_data_def Let_def)
next
  case (Some i)
  then show ?thesis using assms by (auto simp: opened_def clean_def set_data_def intro!: exI [of _ i])
qed

lemma opened_mkstemp:
  assumes "clean s tmp" "dir s tmp = None"
  shows "\<exists>i. opened s tmp i (run_op (Mkstemp tmp True) s)"
  using assms by (auto simp: opened_def clean_def create_def set_dir_def set_data_def Let_def)

lemma clean_synced: "clean s tmp \<Longrightarrow> dir s n = Some i \<Longrightarrow> synced s i"
  by (auto simp: clean_def)

text \<open>The states of the sequence after the opening call, one per call.\<close>

lemma written:
  assumes "opened s tmp i t"
  shows "run_op (WriteFd c) t = t\<lparr>data := (data t)(i := c), synced := (synced t)(i := False)\<rparr>"
  using assms by (simp add: opened_def set_data_def)

lemma fsynced:
  assumes "opened s tmp i t"
  shows "run_ops [WriteFd c, FsyncFd, CloseFd] t
         = t\<lparr>data := (data t)(i := c), synced := (synced t)(i := True), cur_fd := None\<rparr>"
  using assms by (simp add: run_ops_def written del: run_op.simps(3)) (simp add: opened_def fun_upd_def)

lemma renamed:
  assumes "opened s tmp i t" "fin \<noteq> tmp"
  shows "run_ops [WriteFd c, FsyncFd, CloseFd, Rename tmp fin] t
         = t\<lparr>data := (data t)(i := c), synced := (synced t)(i := True), cur_fd := None,
             dir := (dir t)(fin := Some i, tmp := None),
             disk_dirs := disk_dirs t @ [(dir t)(fin := Some i, tmp := None)]\<rparr>"
proof -
  have "run_ops [WriteFd c, FsyncFd, CloseFd, Rename tmp fin] t
        = run_op (Rename tmp fin) (run_ops [WriteFd c, FsyncFd, CloseFd] t)"
    by (simp add: run_ops_def)
  also have "\<dots> = run_op (Rename tmp fin)
      (t\<lparr>data := (data t)(i := c), synced := (synced t)(i := True), cur_fd := None\<rparr>)"
    by (simp only: fsynced [OF assms(1)])
  finally show ?thesis using assms by (auto simp: opened_def set_dir_def)
qed

lemma completed:
  assumes "opened s tmp i t" "fin \<noteq> tmp"
  shows "run_ops [WriteFd c, FsyncFd, CloseFd, Rename tmp fin, OpenDir True, FsyncFd] t
         = t\<lparr>data := (data t)(i := c), synced := (synced t)(i := True), cur_fd := Some Directory,
             dir := (dir t)(fin := Some i, tmp := None), disk_dirs := [(dir t)(fin := Some i, tmp := None)]\<rparr>"
proof -
  have "run_ops [WriteFd c, FsyncFd, CloseFd, Rename tmp fin, OpenDir True, FsyncFd] t
        = run_op FsyncFd (run_op (OpenDir True) (run_ops [WriteFd c, FsyncFd, CloseFd, Rename tmp fin] t))"
    by (simp add: run_ops_def)
  also have "\<dots> = run_op FsyncFd (run_op (OpenDir True) (t\<lparr>data := (data t)(i := c), synced := (synced t)(i := True),
             cur_fd := None, dir := (dir t)(fin := Some i, tmp := None),
             disk_dirs := disk_dirs t @ [(dir t)(fin := Some i, tmp := None)]\<rparr>))"
    by (simp only: renamed [OF assms])
  finally show ?thesis by simp
qed

lemma updating_cur [simp]: "updating s tmp fin c (t\<lparr>cur_fd := x\<rparr>) = updating s tmp fin c t"
  by (simp add: updating_def)

lemma updating_before:
  assumes "clean s tmp" "opened s tmp i t" "fin \<noteq> tmp"
  shows "updating s tmp fin c (t\<lparr>data := (data t)(i := x), synced := (synced t)(i := b)\<rparr>)"
  using assms by (auto simp: updating_def opened_def clean_synced)

lemma updating_after:
  assumes "clean s tmp" "opened s tmp i t" "fin \<noteq> tmp" "set ds \<subseteq> insert ((dir t)(fin := Some i, tmp := None)) (set (disk_dirs t))"
  shows "updating s tmp fin c (t\<lparr>data := (data t)(i := c), synced := (synced t)(i := True), dir := d, disk_dirs := ds\<rparr>)"
    (is "updating s tmp fin c ?t")
proof -
  have e: "(e fin = dir s fin \<or> e fin = Some i) \<and> (\<forall>n. n \<noteq> fin \<longrightarrow> n \<noteq> tmp \<longrightarrow> e n = dir s n)" if "e \<in> set (disk_dirs ?t)" for e
    using that assms(2,3,4) by (auto simp: opened_def)
  have i: "data ?t i = c" "synced ?t i" by simp_all
  have "(e fin = dir s fin \<or> (\<exists>j. e fin = Some j \<and> data ?t j = c \<and> synced ?t j))" if "e \<in> set (disk_dirs ?t)" for e
    using e [OF that] i by blast
  moreover have "dir s n = Some j \<Longrightarrow> n \<noteq> tmp \<Longrightarrow> data ?t j = data s j \<and> synced ?t j" for n j
    using assms(1,2) by (auto simp: opened_def clean_synced)
  ultimately show ?thesis unfolding updating_def using e by blast
qed

lemma update_prefix:
  assumes "clean s tmp" "opened s tmp i (run_op op s)" "fin \<noteq> tmp"
  shows "updating s tmp fin c (run_ops (take k (update_ops op tmp fin c)) s)"
proof -
  define t where "t = run_op op s"
  have o: "opened s tmp i t" using assms(2) by (simp add: t_def)
  note w = written [OF o, of c] and f = fsynced [OF o, of c]
    and r = renamed [OF o assms(3), of c] and d = completed [OF o assms(3), of c]
  have 0: "updating s tmp fin c s" using assms(1) by (auto simp: updating_def clean_def)
  have 1: "updating s tmp fin c t"
    using updating_before [OF assms(1) o assms(3), where x = "data t i" and b = "synced t i"] by simp
  have 2: "updating s tmp fin c (run_ops [WriteFd c] t)"
    using updating_before [OF assms(1) o assms(3), where x = c and b = False] w by (simp add: run_ops_def)
  have 3: "updating s tmp fin c (run_ops [WriteFd c, FsyncFd, CloseFd] t)"
    unfolding f updating_cur by (rule updating_before [OF assms(1) o assms(3)])
  have 4: "updating s tmp fin c (run_ops [WriteFd c, FsyncFd, CloseFd, Rename tmp fin] t)"
    using updating_after [OF assms(1) o assms(3), of "disk_dirs t @ [(dir t)(fin := Some i, tmp := None)]"]
    unfolding r by (simp add: updating_def)
  have 5: "updating s tmp fin c (run_ops [WriteFd c, FsyncFd, CloseFd, Rename tmp fin, OpenDir True, FsyncFd] t)"
    using updating_after [OF assms(1) o assms(3), of "[(dir t)(fin := Some i, tmp := None)]"]
    unfolding d by (simp add: updating_def)
  have cl: "updating s tmp fin c (run_ops (xs @ [CloseFd]) t) = updating s tmp fin c (run_ops xs t)"
    "updating s tmp fin c (run_ops (xs @ [OpenDir b]) t) = updating s tmp fin c (run_ops xs t)" for xs b
    by (simp_all add: run_ops_def)
  have st: "run_ops (op # xs) s = run_ops xs t" for xs by (simp add: run_ops_def t_def)
  have "k = 0 \<or> k = 1 \<or> k = 2 \<or> k = 3 \<or> k = 4 \<or> k = 5 \<or> k = 6 \<or> k = 7 \<or> 8 \<le> k" by linarith
  then show ?thesis
    using 0 1 2 3 4 5 cl(1) [of "[WriteFd c, FsyncFd]"] cl(2) [of "[WriteFd c, FsyncFd, CloseFd, Rename tmp fin]" True]
      cl(1) [of "[WriteFd c, FsyncFd, CloseFd, Rename tmp fin, OpenDir True, FsyncFd]"]
    by (elim disjE) (simp_all add: update_ops_def st, simp_all add: run_ops_def)
qed

lemma update_done:
  assumes "opened s tmp i (run_op op s)" "fin \<noteq> tmp" "crash_view (run_ops (update_ops op tmp fin c) s) v"
  shows "v fin = Some c"
proof -
  define t where "t = run_op op s"
  have o: "opened s tmp i t" using assms(1) by (simp add: t_def)
  have "run_ops (update_ops op tmp fin c) s
        = run_op CloseFd (run_ops [WriteFd c, FsyncFd, CloseFd, Rename tmp fin, OpenDir True, FsyncFd] t)"
    by (simp add: run_ops_def update_ops_def t_def)
  then show ?thesis
    using assms(2,3) unfolding completed [OF o assms(2)] by (auto simp: crash_view_def)
qed

lemma update_atomic:
  assumes "clean s tmp" "opened s tmp i (run_op op s)" "fin \<noteq> tmp"
    and "crash_view (run_ops (take k (update_ops op tmp fin c)) s) v"
  shows "(v fin = view s fin \<or> v fin = Some c) \<and> (8 \<le> k \<longrightarrow> v fin = Some c)
         \<and> (\<forall>n. n \<noteq> fin \<longrightarrow> n \<noteq> tmp \<longrightarrow> v n = view s n)"
proof -
  have "8 \<le> k \<Longrightarrow> take k (update_ops op tmp fin c) = update_ops op tmp fin c" by (simp add: update_ops_def)
  then show ?thesis
    using updating_view [OF update_prefix [OF assms(1-3)] assms(4,3)] update_done [OF assms(2,3)] assms(4) by auto
qed

lemma phase2_ops:
  "k \<le> 8 \<Longrightarrow> take k (lab32_phase2 True True)
     = take k (update_ops (OpenTrunc ''/tmp/lab32_new.dat'' True) ''/tmp/lab32_new.dat'' ''/tmp/lab32_final.dat'' ''important data'')"
  by (simp add: lab32_phase2_def update_ops_def take_Cons')

lemma phase4_ops:
  "k \<le> 8 \<Longrightarrow> take k (lab32_phase4 tmp True True)
     = take k (update_ops (Mkstemp tmp True) tmp ''/tmp/lab32_final_v2.dat'' (''new important data v2'' @ [NL]))"
  by (simp add: lab32_phase4_def update_ops_def take_Cons')

text \<open>
  C12. The update of lab 32 is atomic: wherever a crash hits it (after any number \<open>k\<close> of its calls up
  to the synchronisation of the directory), the final name shows either what it showed before or the
  complete new contents, never a part, and all other names are as before; once the directory has
  been synchronised, it shows the new contents. This holds for phase 2, which truncates a temporary
  file of fixed name, and for phase 4, which creates a fresh one, when all calls succeed and
  the start is clean: directory and data are on disk, and no other name is a link to a temporary file.
\<close>

theorem crash_atomic:
  assumes "clean s ''/tmp/lab32_new.dat''" "clean s tmp" "dir s tmp = None" "tmp \<noteq> ''/tmp/lab32_final_v2.dat''" "k \<le> 8"
  shows "(crash_view (run_ops (take k (lab32_phase2 True True)) s) v \<longrightarrow>
            (v ''/tmp/lab32_final.dat'' = view s ''/tmp/lab32_final.dat'' \<or> v ''/tmp/lab32_final.dat'' = Some ''important data'')
            \<and> (k = 8 \<longrightarrow> v ''/tmp/lab32_final.dat'' = Some ''important data'')
            \<and> (\<forall>n. n \<noteq> ''/tmp/lab32_final.dat'' \<longrightarrow> n \<noteq> ''/tmp/lab32_new.dat'' \<longrightarrow> v n = view s n))
       \<and> (crash_view (run_ops (take k (lab32_phase4 tmp True True)) s) v \<longrightarrow>
            (v ''/tmp/lab32_final_v2.dat'' = view s ''/tmp/lab32_final_v2.dat''
             \<or> v ''/tmp/lab32_final_v2.dat'' = Some (''new important data v2'' @ [NL]))
            \<and> (k = 8 \<longrightarrow> v ''/tmp/lab32_final_v2.dat'' = Some (''new important data v2'' @ [NL]))
            \<and> (\<forall>n. n \<noteq> ''/tmp/lab32_final_v2.dat'' \<longrightarrow> n \<noteq> tmp \<longrightarrow> v n = view s n))"
proof -
  obtain i where i: "opened s ''/tmp/lab32_new.dat'' i (run_op (OpenTrunc ''/tmp/lab32_new.dat'' True) s)"
    using opened_trunc [OF assms(1)] by blast
  obtain j where j: "opened s tmp j (run_op (Mkstemp tmp True) s)" using opened_mkstemp [OF assms(2,3)] by blast
  have n: "''/tmp/lab32_final.dat'' \<noteq> ''/tmp/lab32_new.dat''" by simp
  note p2 = update_atomic [OF assms(1) i n, of k "''important data''" v]
  note p4 = update_atomic [OF assms(2) j assms(4) [symmetric], of k "''new important data v2'' @ [NL]" v]
  show ?thesis
    unfolding phase2_ops [OF assms(5)] phase4_ops [OF assms(5)] using p2 p4 assms(5) by (intro conjI impI) simp_all
qed

text \<open>
  The unchecked \<^verbatim>\<open>open\<close> of phase 2: if it fails and a file of the temporary name is left from before,
  that file is moved over the final name.
\<close>

lemma stale_rename:
  assumes "dir s ''/tmp/lab32_new.dat'' = Some i" "dir s ''/tmp/lab32_final.dat'' \<noteq> Some i"
  shows "view (run_ops (take 5 (lab32_phase2 False ok)) s) ''/tmp/lab32_final.dat'' = view s ''/tmp/lab32_new.dat''"
  using assms by (simp add: run_ops_def lab32_phase2_def view_def set_dir_def)

definition sample_cfs :: cfs where
  "sample_cfs = \<lparr>dir = [''/tmp/lab32_final.dat'' \<mapsto> 0], disk_dirs = [[''/tmp/lab32_final.dat'' \<mapsto> 0]],
     data = (\<lambda>_. ''old''), synced = (\<lambda>_. True), next_ino = 1, cur_fd = None\<rparr>"

theorem crash_atomic_witness:
  "crash_view (run_ops (take 0 (lab32_phase2 True True)) sample_cfs) (view sample_cfs) \<and>
   view sample_cfs ''/tmp/lab32_final.dat'' = Some ''old'' \<and>
   crash_view (run_ops (take 8 (lab32_phase2 True True)) sample_cfs) [''/tmp/lab32_final.dat'' \<mapsto> ''important data''] \<and>
   ([''/tmp/lab32_final.dat'' \<mapsto> ''important data''] ''/tmp/x'' = view sample_cfs ''/tmp/x'')"
proof -
  have c: "clean sample_cfs ''/tmp/lab32_new.dat''" "clean sample_cfs ''/tmp/a''"
    by (auto simp: clean_def sample_cfs_def split: if_splits)
  have v: "crash_view (run_ops (take 8 (lab32_phase2 True True)) sample_cfs) [''/tmp/lab32_final.dat'' \<mapsto> ''important data'']"
    unfolding crash_view_def
    by (intro bexI [of _ "[''/tmp/lab32_final.dat'' \<mapsto> 1]"] exI [of _ "\<lambda>i. if i = 1 then ''important data'' else ''old''"])
      (auto simp: run_ops_def lab32_phase2_def sample_cfs_def create_def set_dir_def set_data_def)
  have "[''/tmp/lab32_final.dat'' \<mapsto> ''important data''] ''/tmp/x'' = view sample_cfs ''/tmp/x''"
    using crash_atomic [OF c, of 8 "[''/tmp/lab32_final.dat'' \<mapsto> ''important data'']"] v
    by (simp add: sample_cfs_def)
  moreover have "crash_view (run_ops (take 0 (lab32_phase2 True True)) sample_cfs) (view sample_cfs)"
    unfolding crash_view_def
    by (intro bexI [of _ "[''/tmp/lab32_final.dat'' \<mapsto> 0]"] exI [of _ "\<lambda>_. ''old''"])
      (auto simp: run_ops_def sample_cfs_def view_def)
  ultimately show ?thesis using v by (simp add: view_def sample_cfs_def)
qed

end
