(* ===== verification/FileSystems.thy ===== *)
theory FileSystems
  imports ProcFs Clock
begin

text \<open>
  Labs 30 and 31 (\<^verbatim>\<open>lab_30_fs_impl.c\<close>, \<^verbatim>\<open>lab_31_fs_ops.c\<close>): inode information and a file copy. What
  \<^verbatim>\<open>stat\<close>, \<^verbatim>\<open>link\<close>, \<^verbatim>\<open>mkstemp\<close> and the clock return are parameters; so are the numbers of bytes the
  single \<^verbatim>\<open>read\<close> and \<^verbatim>\<open>write\<close> calls transfer, which may be fewer than asked for. The device number
  arithmetic is shared with lab 01, which prints device files.
\<close>

unbundle bit_operations_syntax

section \<open>Device numbers\<close>

text \<open>\<^verbatim>\<open>(dev >> 8) & 0xff\<close> and \<^verbatim>\<open>dev & 0xff\<close>, as labs 01 and 30 take a device number apart.\<close>

definition dev_major :: "u64 \<Rightarrow> u64" where
  "dev_major dev = drop_bit 8 dev AND 0xff"

definition dev_minor :: "u64 \<Rightarrow> u64" where
  "dev_minor dev = dev AND 0xff"

text \<open>The device number of the C library, 12 and more bits of major and 8 and more of minor number.\<close>

definition makedev :: "u32 \<Rightarrow> u32 \<Rightarrow> u64" where
  "makedev major minor =
     push_bit 8 (ucast (major AND 0xfff)) OR push_bit 32 (ucast (major AND NOT 0xfff))
     OR ucast (minor AND 0xff) OR push_bit 12 (ucast (minor AND NOT 0xff))"

section \<open>Lab 30\<close>

record inode_stat =
  is_ino :: u64
  is_size :: int
  is_blocks :: int
  is_nlink :: u64
  is_mode :: u32
  is_dev :: u64

record fsimpl_env =
  fe_files :: files
  fe_tmpfile :: "string option"
  fe_stat :: "inode_stat option"
  fe_uninit :: inode_stat
  fe_link :: bool
  fe_stat2 :: inode_stat

definition dentry_state :: "files \<Rightarrow> out list" where
  "dentry_state fs =
     with_file fs ''/proc/sys/fs/dentry-state'' (\<lambda>c.
       (case fgets 256 c of None \<Rightarrow> [] | Some (l, _) \<Rightarrow> [Printf ''  dentry-state: %s'' [Str l]])
       @ [Printf ''  Format: nr_dentry nr_unused age_limit want_pages dummy dummy'' []])"

text \<open>The buffer of the link name has the size of the literal \<^verbatim>\<open>/tmp/lab30_linkXXXXXX\<close>, 22 bytes.\<close>

definition link_name :: "string \<Rightarrow> string" where
  "link_name tmpfile = snprintf 22 (tmpfile @ ''_link'')"

definition inode_phase :: "fsimpl_env \<Rightarrow> out list" where
  "inode_phase e =
     (case fe_tmpfile e of None \<Rightarrow> []
      | Some tmpfile \<Rightarrow>
          (let st = (case fe_stat e of Some st \<Rightarrow> st | None \<Rightarrow> fe_uninit e); st2 = fe_stat2 e in
           (if fe_stat e = None then [] else
             [Printf ''  Created: %s'' [Str tmpfile],
              Printf ''  inode number:    %lu'' [Num (uint (is_ino st))],
              Printf ''  size:            %ld bytes'' [Num (is_size st)],
              Printf ''  disk blocks:     %ld (512B units)'' [Num (is_blocks st)],
              Printf ''  hard link count: %lu'' [Num (uint (is_nlink st))],
              Printf ''  permissions:     0%o'' [Num (uint (is_mode st AND 0xfff))],
              Printf ''  device:          %lu (major=%lu minor=%lu)''
                [Num (uint (is_dev st)), Num (uint (dev_major (is_dev st))), Num (uint (dev_minor (is_dev st)))]])
           @ (if \<not> fe_link e then [] else
               [Printf ''  Hard link: %s'' [Str (link_name tmpfile)],
                Printf ''  Same inode? %s (orig=%lu link=%lu)''
                  [Str (if is_ino st = is_ino st2 then ''YES'' else ''NO''), Num (uint (is_ino st)), Num (uint (is_ino st2))],
                Printf ''  Link count on both: %lu (two dentries, same inode)'' [Num (uint (is_nlink st2))]])))"

definition journal_mode :: "string \<Rightarrow> out list" where
  "journal_mode line =
     (if strstr line ''data=journal'' then [Printf ''  Journal mode: data=journal'' []]
      else if strstr line ''data=writeback'' then [Printf ''  Journal mode: data=writeback'' []]
      else if strstr line ''data=ordered'' then [Printf ''  Journal mode: data=ordered'' []] else [])"

definition root_mount :: "files \<Rightarrow> out list" where
  "root_mount fs =
     with_file fs ''/proc/mounts'' (\<lambda>c.
       case find (\<lambda>l. \<not> starts_with ''none'' l \<and> strstr l '' / '') (read_lines 512 c) of
         None \<Rightarrow> []
       | Some line \<Rightarrow> Printf ''  Root filesystem mount options: %s'' [Str line] # journal_mode line)"

definition lab30_main :: "fsimpl_env \<Rightarrow> out list" where
  "lab30_main e =
     with_file (fe_files e) ''/proc/mounts'' (print_upto 256 10 ''  %s'')
     @ dentry_state (fe_files e) @ inode_phase e @ root_mount (fe_files e)"

section \<open>Lab 31\<close>

text \<open>The file of phase 1: 1000 writes of a buffer of 4096 bytes.\<close>

definition lab31_file :: string where
  "lab31_file = concat (replicate 1000 (replicate 4096 (CHR ''A'')))"

definition COPY_BUF :: nat where "COPY_BUF = 65536"

definition COPY_TOTAL :: nat where "COPY_TOTAL = 8 * 1024 * 1024"

definition copy_source :: "u8 list" where
  "copy_source = concat (replicate (COPY_TOTAL div COPY_BUF) (replicate COPY_BUF 0xCC))"

text \<open>
  The copy loop: the \<open>k\<close>-th \<^verbatim>\<open>read\<close> delivers at most \<open>rd k\<close> bytes (0 for an error), the \<open>k\<close>-th
  \<^verbatim>\<open>write\<close>, whose result the code ignores, takes at most \<open>wr k\<close>.
\<close>

function copy_loop :: "(nat \<Rightarrow> nat) \<Rightarrow> (nat \<Rightarrow> nat) \<Rightarrow> nat \<Rightarrow> u8 list \<Rightarrow> u8 list \<Rightarrow> u8 list" where
  "copy_loop rd wr k src dst =
     (let nr = min (min COPY_BUF (rd k)) (length src) in
      if nr = 0 then dst
      else copy_loop rd wr (k + 1) (drop nr src) (dst @ take (wr k) (take nr src)))"
  by pat_completeness auto
termination
  by (relation "measure (\<lambda>(rd, wr, k, src, dst). length src)") (auto simp: Let_def)

declare copy_loop.simps [simp del]

record fsops_env =
  oe_clk :: "nat \<Rightarrow> timespec"
  oe_sfd :: bool
  oe_dfd :: bool
  oe_size :: int

definition lab31_main :: "fsops_env \<Rightarrow> out list" where
  "lab31_main e =
     (let t = (\<lambda>k. now_sec (oe_clk e k)); copy_time = t 5 - t 4; bw_mbps = (real_of_int (oe_size e) / 1048576) / copy_time in
      [Printf ''  Write 4MiB: %.3f ms (to page cache)'' [Dbl ((t 1 - t 0) * 1000)],
       Printf ''  fsync:       %.3f ms (flush to disk)'' [Dbl ((t 3 - t 2) * 1000)]]
      @ (if \<not> oe_sfd e \<or> \<not> oe_dfd e then [] else
          [Printf ''  File copy 8 MiB: %.3f ms  bandwidth: %.0f MiB/s'' [Dbl (copy_time * 1000), Dbl bw_mbps],
           Printf ''  (Page cache -> page cache copy; disk I/O only on fsync)'' [],
           Printf ''  With O_DIRECT: bypasses page cache; bandwidth limited by NVMe/disk.'' [],
           Printf ''  With DAX + PMEM: mmap -> mmap copy at ~DRAM bandwidth (~30-50 GB/s).'' []]))"

section \<open>Properties\<close>

lemma masks: "(0xff :: 'a :: len word) = mask 8" "(0xfff :: 'a word) = mask 12"
  by (simp_all add: mask_eq_exp_minus_1)

lemma dev_major_makedev: "dev_major (makedev major minor) = ucast (major AND 0xff)"
  unfolding dev_major_def makedev_def masks by (rule bit_word_eqI) (auto simp: bit_simps)

lemma dev_minor_makedev: "dev_minor (makedev major minor) = ucast (minor AND 0xff)"
  unfolding dev_minor_def makedev_def masks by (rule bit_word_eqI) (auto simp: bit_simps)

lemma low_byte: "uint (x AND 0xff :: u32) = uint x mod 256"
  by (simp only: masks take_bit_eq_mask [symmetric] unsigned_take_bit_eq) (simp add: take_bit_eq_mod)

lemma uint_ucast_u32: "uint (ucast (x :: u32) :: u64) = uint x"
  by transfer simp

text \<open>
  C37. The device numbers labs 01 and 30 print are the major and minor number modulo 256: they are
  right exactly for numbers below 256, so that the block devices of NVMe disks, whose major number
  is 259, appear with the major number 3.
\<close>

theorem device_numbers:
  "uint (dev_major (makedev major minor)) = uint major mod 256 \<and>
   uint (dev_minor (makedev major minor)) = uint minor mod 256 \<and>
   (uint (dev_major (makedev major minor)) = uint major \<longleftrightarrow> uint major < 256) \<and>
   (uint (dev_minor (makedev major minor)) = uint minor \<longleftrightarrow> uint minor < 256) \<and>
   uint (dev_major (makedev 259 0)) = 3"
proof -
  have m: "uint (dev_major (makedev a b)) = uint a mod 256" "uint (dev_minor (makedev a b)) = uint b mod 256" for a b
    by (simp_all add: dev_major_makedev dev_minor_makedev uint_ucast_u32 low_byte)
  have "x mod 256 = x \<longleftrightarrow> x < 256" if "0 \<le> x" for x :: int
    using that by (metis mod_pos_pos_trivial pos_mod_bound zero_less_numeral)
  then show ?thesis by (simp add: m)
qed

text \<open>The chunks the reads deliver: they are a beginning of the source, all of it unless a read fails.\<close>

function chunks :: "(nat \<Rightarrow> nat) \<Rightarrow> nat \<Rightarrow> u8 list \<Rightarrow> u8 list list" where
  "chunks rd k src =
     (let nr = min (min COPY_BUF (rd k)) (length src) in
      if nr = 0 then [] else take nr src # chunks rd (k + 1) (drop nr src))"
  by pat_completeness auto
termination
  by (relation "measure (\<lambda>(rd, k, src). length src)") (auto simp: Let_def)

declare chunks.simps [simp del]

lemma chunks_cases:
  obtains "chunks rd k src = []" "copy_loop rd wr k src dst = dst" "rd k = 0 \<or> src = []"
  | nr where "0 < nr" "0 < rd k" "nr \<le> length src" "chunks rd k src = take nr src # chunks rd (k + 1) (drop nr src)"
    "copy_loop rd wr k src dst = copy_loop rd wr (k + 1) (drop nr src) (dst @ take (wr k) (take nr src))"
proof -
  define nr where "nr = min (min COPY_BUF (rd k)) (length src)"
  note unf = chunks.simps [of rd k src] copy_loop.simps [of rd wr k src dst]
  show ?thesis
  proof (cases "nr = 0")
    case True
    then show ?thesis
      using unf by (intro that(1)) (auto simp: nr_def [symmetric] Let_def, auto simp: nr_def COPY_BUF_def min_def split: if_splits)
  next
    case False
    then show ?thesis
      using unf by (intro that(2) [of nr]) (auto simp: nr_def [symmetric] Let_def, auto simp: nr_def)
  qed
qed

text \<open>The copy is the concatenation of what the writes take of the chunks.\<close>

lemma copy_loop_chunks:
  "copy_loop rd wr k src dst =
     dst @ concat (map (\<lambda>j. take (wr (k + j)) (chunks rd k src ! j)) [0..<length (chunks rd k src)])"
proof (induction src arbitrary: k dst rule: length_induct)
  case (1 src)
  show ?case
  proof (cases rule: chunks_cases [of rd k src wr dst])
    case (2 nr)
    have "length (drop nr src) < length src" using 2(1,3) by simp
    then have "copy_loop rd wr (k + 1) (drop nr src) (dst @ take (wr k) (take nr src)) =
        (dst @ take (wr k) (take nr src)) @ concat (map (\<lambda>j. take (wr (k + 1 + j)) (chunks rd (k + 1) (drop nr src) ! j))
          [0..<length (chunks rd (k + 1) (drop nr src))])"
      using 1 by blast
    then show ?thesis using 2(4,5) by (simp add: upt_conv_Cons map_Suc_upt [symmetric] comp_def del: upt_Suc)
  qed simp
qed

text \<open>The chunks are a beginning of the source; if something is missing, the read after the last chunk failed.\<close>

lemma chunks_prefix:
  "take (length (concat (chunks rd k src))) src = concat (chunks rd k src)
   \<and> (concat (chunks rd k src) \<noteq> src \<longrightarrow> rd (k + length (chunks rd k src)) = 0)"
proof (induction src arbitrary: k rule: length_induct)
  case (1 src)
  show ?case
  proof (cases rule: chunks_cases [of rd k src id "[]"])
    case (2 nr)
    let ?cs = "chunks rd (k + 1) (drop nr src)"
    have "length (drop nr src) < length src" using 2(1,3) by simp
    then have IH: "take (length (concat ?cs)) (drop nr src) = concat ?cs"
        "concat ?cs \<noteq> drop nr src \<longrightarrow> rd (k + 1 + length ?cs) = 0"
      using 1 [rule_format, of "drop nr src" "k + 1"] by blast+
    have "length (take nr src) = nr" using 2(3) by simp
    then have "take (length (take nr src) + length (concat ?cs)) src = take nr src @ concat ?cs"
      by (simp only: take_add IH(1))
    moreover have "take nr src @ concat ?cs \<noteq> src \<longrightarrow> concat ?cs \<noteq> drop nr src" by (metis append_take_drop_id)
    ultimately show ?thesis using 2(4) IH(2) by simp
  qed auto
qed

lemma concat_take_eq:
  "length (concat (map (\<lambda>j. take (w j) (cs ! j)) [0..<length cs])) = length (concat cs) \<longleftrightarrow> (\<forall>j<length cs. length (cs ! j) \<le> w j)"
proof -
  have l: "length (concat (map (\<lambda>j. take (w j) (cs ! j)) [0..<length cs])) = (\<Sum>j<length cs. min (length (cs ! j)) (w j))"
    by (simp add: length_concat comp_def interv_sum_list_conv_sum_set_nat atLeast0LessThan)
  have c: "length (concat cs) = (\<Sum>j<length cs. length (cs ! j))"
    by (simp add: length_concat sum_list_sum_nth atLeast0LessThan)
  have "length (cs ! j) \<le> w j" if "(\<Sum>j<length cs. min (length (cs ! j)) (w j)) = (\<Sum>j<length cs. length (cs ! j))" "j < length cs" for j
  proof -
    have "min (length (cs ! j)) (w j) = length (cs ! j)"
      by (rule sum_mono_inv [OF that(1)]) (use that(2) in auto)
    then show ?thesis by linarith
  qed
  then show ?thesis unfolding l c by (auto intro!: sum.cong)
qed

lemma length_concat_take:
  "length (concat (map (\<lambda>j. take (w j) (cs ! j)) [0..<length cs])) \<le> length (concat cs)"
proof -
  have "length (concat (map (\<lambda>j. take (w j) (cs ! j)) [0..<length cs])) = (\<Sum>j<length cs. min (length (cs ! j)) (w j))"
    by (simp add: length_concat comp_def interv_sum_list_conv_sum_set_nat atLeast0LessThan)
  also have "\<dots> \<le> (\<Sum>j<length cs. length (cs ! j))" by (intro sum_mono) simp
  finally show ?thesis by (simp add: length_concat sum_list_sum_nth atLeast0LessThan)
qed

lemma copy_source_bytes: "copy_source = replicate COPY_TOTAL 0xCC"
proof -
  have "concat (replicate n (replicate m x)) = replicate (n * m) x" for n m and x :: u8
    by (induction n) (simp_all add: replicate_add)
  then have "copy_source = replicate (COPY_TOTAL div COPY_BUF * COPY_BUF) 0xCC" by (simp add: copy_source_def)
  then show ?thesis by (simp add: COPY_TOTAL_def COPY_BUF_def)
qed

text \<open>
  C30. The copy loop of lab 31 ends, and the copy is what the writes took of the chunks read, one after the
  other. The chunks read are a beginning of the source, and all of it unless a read failed. The copy
  equals the source exactly if nothing is missing from the chunks and every write took its whole chunk: a
  failing read and a short write anywhere lose bytes without a message. The 8 MiB source is the one
  the lab wrote.
\<close>

theorem file_copy:
  "copy_loop rd wr 0 src [] = concat (map (\<lambda>j. take (wr j) (chunks rd 0 src ! j)) [0..<length (chunks rd 0 src)])
    \<and> take (length (concat (chunks rd 0 src))) src = concat (chunks rd 0 src)
    \<and> (concat (chunks rd 0 src) \<noteq> src \<longrightarrow> rd (length (chunks rd 0 src)) = 0)
    \<and> (copy_loop rd wr 0 src [] = src \<longleftrightarrow>
         concat (chunks rd 0 src) = src \<and> (\<forall>j<length (chunks rd 0 src). length (chunks rd 0 src ! j) \<le> wr j))
    \<and> copy_source = replicate COPY_TOTAL 0xCC"
proof -
  let ?cs = "chunks rd 0 src"
  let ?copy = "concat (map (\<lambda>j. take (wr j) (?cs ! j)) [0..<length ?cs])"
  have copy: "copy_loop rd wr 0 src [] = ?copy" using copy_loop_chunks [of rd wr 0 src "[]"] by simp
  note prefix = chunks_prefix [of rd 0 src, simplified]
  have full: "?copy = concat ?cs" if "\<forall>j<length ?cs. length (?cs ! j) \<le> wr j"
  proof -
    have "map (\<lambda>j. take (wr j) (?cs ! j)) [0..<length ?cs] = ?cs" using that by (intro nth_equalityI) auto
    then show ?thesis by simp
  qed
  have "length ?copy \<le> length (concat ?cs)" by (rule length_concat_take)
  moreover have "length (concat ?cs) \<le> length src" using prefix by (metis length_take min.cobounded1)
  ultimately have "concat ?cs = src \<and> (\<forall>j<length ?cs. length (?cs ! j) \<le> wr j)" if "?copy = src"
    using prefix concat_take_eq [of wr ?cs] that by (metis order_antisym take_all_iff)
  then have "?copy = src \<longleftrightarrow> concat ?cs = src \<and> (\<forall>j<length ?cs. length (?cs ! j) \<le> wr j)"
    using full by (intro iffI) simp_all
  then show ?thesis unfolding copy by (intro conjI refl copy_source_bytes prefix [THEN conjunct1] prefix [THEN conjunct2])
qed

theorem file_copy_witness:
  "copy_loop (\<lambda>_. 1) (\<lambda>_. 1) 0 [1, 2, 3] [] = [1, 2, 3]
   \<and> copy_loop (\<lambda>_. 2) (\<lambda>j. if j = 1 then 0 else 2) 0 [1, 2, 3] [] \<noteq> [1, 2, 3]
   \<and> copy_loop (\<lambda>j. if j = 1 then 0 else 2) (\<lambda>_. 2) 0 [1, 2, 3] [] \<noteq> [1, 2, 3]"
proof -
  have "chunks (\<lambda>_. 1) 0 [1, 2, 3] = [[1], [2], [3]]" "chunks (\<lambda>_. 2) 0 [1, 2, 3] = [[1, 2], [3]]"
      "chunks (\<lambda>j. if j = 1 then 0 else 2) 0 [1, 2, 3] = [[1, 2]]"
    by (simp_all add: chunks.simps [of _ _ "_ # _"] chunks.simps [of _ _ "[]"] COPY_BUF_def)
  then show ?thesis
    using file_copy [of "\<lambda>_. 1" "\<lambda>_. 1" "[1, 2, 3]"] file_copy [of "\<lambda>_. 2" "\<lambda>j. if j = 1 then 0 else 2" "[1, 2, 3]"]
      file_copy [of "\<lambda>j. if j = 1 then 0 else 2" "\<lambda>_. 2" "[1, 2, 3]"]
    by (simp add: less_Suc_eq)
qed

text \<open>Other facts: phase 1 of lab 31 writes less than the 4 MiB it reports, and the link name of lab 30 is cut.\<close>

lemma lab31_file_length: "length lab31_file = 4096000"
  by (simp add: lab31_file_def length_concat sum_list_replicate)

lemma link_name_cut:
  assumes "length tmpfile = 18"
  shows "link_name tmpfile = tmpfile @ ''_li''"
  using assms by (simp add: link_name_def snprintf_def)

end
