(* ===== verification/AddressSpaces.thy ===== *)
theory AddressSpaces
  imports Counters FileSystems "HOL-Library.Signed_Division"
begin

text \<open>
  The labs about address spaces: \<^verbatim>\<open>lab_08_paging_intro.c\<close> (page numbers, \<^verbatim>\<open>/proc/self/pagemap\<close>,
  alignment), \<^verbatim>\<open>lab_10_addr_space_paging.c\<close> and \<^verbatim>\<open>lab_13_user_page_tables.c\<close> (regions, copy-on-write
  after \<^verbatim>\<open>fork\<close>), and the demonstrations of \<^verbatim>\<open>lab_01_threads_addr_fs.c\<close> other than its threads
  (isolation of processes, the address map, device files, classification of regions). Addresses, page
  size, process numbers and file contents are parameters; \<open>maps k\<close> is what the \<open>k\<close>-th opening of
  \<^verbatim>\<open>/proc/self/maps\<close> finds. After \<^verbatim>\<open>fork\<close> the child works on a copy of the parent's variables; it
  leaves with \<^verbatim>\<open>_exit\<close>, which does not flush, so that its lines appear only if the stream is line
  buffered.
\<close>

unbundle bit_operations_syntax

section \<open>Lab 08\<close>

text \<open>
  \<^verbatim>\<open>/proc/self/pagemap\<close>: \<open>None\<close> if it cannot be opened, otherwise the 8-byte entry at a file offset,
  if it can be read.
\<close>

type_synonym pagemap = "(u64 \<Rightarrow> u64 option) option"

definition virt_to_phys :: "pagemap \<Rightarrow> u64 \<Rightarrow> u64 \<Rightarrow> u64" where
  "virt_to_phys pm page_size addr =
     (case pm of None \<Rightarrow> 0
      | Some entry_at \<Rightarrow>
          (let vpn = addr div page_size in
           case entry_at (vpn * 8) of None \<Rightarrow> 0
           | Some entry \<Rightarrow>
               if \<not> bit entry 63 then 0
               else (let pfn = entry AND (push_bit 55 1 - 1) in pfn * page_size + addr mod page_size)))"

definition demo_page_size :: "int \<Rightarrow> out list" where
  "demo_page_size ps = [Printf ''  System page size: %ld bytes (%ld KiB)'' [Num ps, Num (ps sdiv 1024)]]"

definition region_line :: "pagemap \<Rightarrow> u64 \<Rightarrow> string \<times> u64 \<Rightarrow> out" where
  "region_line pm ps r =
     (let pa = virt_to_phys pm ps (snd r) in
      Printf ''  %-6s  VA=%p  PA=0x%lx  %s''
        [Str (fst r), Ptr (snd r), Num (uint pa), Str (if pa \<noteq> 0 then [] else ''(need sudo or CAP_SYS_ADMIN)'')])"

text \<open>Neither \<^verbatim>\<open>malloc\<close> nor \<^verbatim>\<open>mmap\<close> is checked before its memory is written.\<close>

definition demo_pagemap :: "pagemap \<Rightarrow> u64 \<Rightarrow> u64 \<Rightarrow> u64 option \<Rightarrow> u64 option \<Rightarrow> u64 \<Rightarrow> run" where
  "demo_pagemap pm ps stack heap mm code =
     (case (heap, mm) of
        (Some h, Some m) \<Rightarrow>
          Inr (map (region_line pm ps) [(''stack'', stack), (''heap'', h), (''mmap'', m), (''code'', code)])
      | _ \<Rightarrow> Inl [])"

definition aligned :: "u64 \<Rightarrow> u64 \<Rightarrow> string" where
  "aligned p ps = (if p mod ps = 0 then ''YES'' else ''NO'')"

definition la57_check :: "files \<Rightarrow> out list" where
  "la57_check fs =
     with_file fs ''/proc/cpuinfo'' (\<lambda>c.
       if list_ex (\<lambda>l. starts_with ''flags'' l \<and> strstr l ''la57'') (read_lines 512 c)
       then [Printf ''  CPU supports LA57 (5-level paging): YES'' []]
       else [Printf ''  LA57 (5-level paging): not in /proc/cpuinfo flags'' []])"

definition demo_page_alignment :: "files \<Rightarrow> int \<Rightarrow> u64 option \<Rightarrow> u64 option \<Rightarrow> u64 option \<Rightarrow> out list" where
  "demo_page_alignment fs ps r1 r2 huge =
     Printf ''  Standard page size: %ld bytes'' [Num ps] #
     (case (r1, r2) of
        (Some p1, Some p2) \<Rightarrow>
          (let dist = sint (p2 - p1) in
           [Printf ''  p1 = %p  (page-aligned: %s)'' [Ptr p1, Str (aligned p1 (of_int ps))],
            Printf ''  p2 = %p  (page-aligned: %s)'' [Ptr p2, Str (aligned p2 (of_int ps))],
            Printf ''  Distance p2-p1: %ld bytes (~%ld pages)'' [Num dist, Num (dist sdiv ps)],
            Printf ''  Attempting 2 MiB huge page allocation (MAP_HUGETLB)...'' []]
           @ (case huge of
                None \<Rightarrow>
                  [Printf ''  MAP_HUGETLB failed (no huge pages reserved).'' [],
                   Printf ''  To enable: echo 32 > /proc/sys/vm/nr_hugepages'' [],
                   Printf ''  WHY: Huge pages are pre-allocated from boottime pool; not on-demand.'' []]
              | Some h \<Rightarrow>
                  [Printf ''  Huge page allocated at %p'' [Ptr h],
                   Printf ''  Address mod 2MiB = %lu (should be 0: %s)''
                     [Num (uint (h mod 0x200000)), Str (aligned h 0x200000)]])
           @ [Printf ''  Checking 5-level paging support:'' []]
           @ la57_check fs
           @ [Printf ''  5-level paging needed for >128 TiB VA space (servers with >128 TiB RAM).'' []])
      | _ \<Rightarrow> [Perror ''mmap''])"

record paging_env =
  pe_files :: files
  pe_ps :: int
  pe_pagemap :: pagemap
  pe_stack :: u64
  pe_heap :: "u64 option"
  pe_mmap :: "u64 option"
  pe_code :: u64
  pe_p1 :: "u64 option"
  pe_p2 :: "u64 option"
  pe_huge :: "u64 option"

definition lab08_main :: "paging_env \<Rightarrow> run" where
  "lab08_main e =
     run_then (Inr (demo_page_size (pe_ps e)))
       (run_then (demo_pagemap (pe_pagemap e) (of_int (pe_ps e)) (pe_stack e) (pe_heap e) (pe_mmap e) (pe_code e))
          (Inr (demo_page_alignment (pe_files e) (pe_ps e) (pe_p1 e) (pe_p2 e) (pe_huge e))))"

section \<open>Processes after fork\<close>

text \<open>
  \<^verbatim>\<open>pid = fork(); if (pid == 0) { child; _exit(0); } wait(NULL); parent\<close>: both go on from the same
  values, the child's changes stay with the child. A negative \<open>pid\<close> means that \<^verbatim>\<open>fork\<close> failed.
\<close>

definition fork_wait :: "bool \<Rightarrow> int \<Rightarrow> 'p \<Rightarrow> ('p \<Rightarrow> 'p \<times> out list) \<Rightarrow> ('p \<Rightarrow> out list) \<Rightarrow> out list" where
  "fork_wait line_buffered pid p child parent =
     (if 0 \<le> pid \<and> line_buffered then snd (child p) else []) @ parent p"

section \<open>Lab 10\<close>

definition count_vmas :: "string option \<Rightarrow> int" where
  "count_vmas maps = (case maps of None \<Rightarrow> -1 | Some c \<Rightarrow> int (length (read_lines 512 c)))"

definition demo_vma_growth :: "(nat \<Rightarrow> string option) \<Rightarrow> (nat \<Rightarrow> u64) \<Rightarrow> out list" where
  "demo_vma_growth maps pages =
     [Printf ''  Base VMAs: %d'' [Num (count_vmas (maps 0))]]
     @ map (\<lambda>i. Printf ''  After mmap #%d: VMAs=%d  addr=%p''
              [Num (int i + 1), Num (count_vmas (maps (i + 1))), Ptr (pages i)]) [0..<10]
     @ [Printf ''  After munmap all: VMAs=%d'' [Num (count_vmas (maps 11))]]"

definition demo_mprotect_split :: "string option \<Rightarrow> string option \<Rightarrow> out list" where
  "demo_mprotect_split before after =
     [Printf ''  VMAs before mprotect: %d, after: %d (expected: +2 from split)''
        [Num (count_vmas before), Num (count_vmas after)]]"

text \<open>\<open>page\<close> is the result of \<^verbatim>\<open>mmap\<close>, written without a test.\<close>

definition demo_cow_after_fork :: "bool \<Rightarrow> int \<Rightarrow> u64 option \<Rightarrow> run" where
  "demo_cow_after_fork line_buffered pid page =
     (case page of None \<Rightarrow> Inl []
      | Some a \<Rightarrow>
          Inr (Printf ''  Parent: value=%d at %p'' [Num 100, Ptr a] #
            fork_wait line_buffered pid (100 :: int)
              (\<lambda>v. (999, [Printf ''  Child before write: value=%d at %p (same VA, COW page)'' [Num v, Ptr a],
                          Printf ''  Child after write:  value=%d (COW triggered, private copy)'' [Num 999]]))
              (\<lambda>v. [Printf ''  Parent after child exit: value=%d (unchanged - COW isolation)'' [Num v]])))"

record maps_env =
  me_before :: "string option"
  me_addr :: "u64 option"
  me_alloc :: "string option"
  me_search :: "string option"
  me_split :: "string option"
  me_merge :: "string option"
  me_files :: files

definition demo_maps_before_after_mmap :: "maps_env \<Rightarrow> out list" where
  "demo_maps_before_after_mmap e =
     Printf ''  VMAs before new mmap: %d'' [Num (count_vmas (me_before e))] #
     (case me_addr e of None \<Rightarrow> [Perror ''mmap'']
      | Some p \<Rightarrow>
          (let before = count_vmas (me_before e); alloc = count_vmas (me_alloc e);
               split = count_vmas (me_split e); merge = count_vmas (me_merge e);
               target = snprintf 32 (show_hex (unat p)) in
           [Printf ''  VMAs after mmap(4MiB): %d (+%d)'' [Num alloc, Num (alloc - before)]]
           @ (case me_search e of None \<Rightarrow> []
              | Some c \<Rightarrow> print_first 512 (\<lambda>l. strstr l target) ''  New VMA: %s'' c)
           @ [Printf ''  VMAs after mprotect(middle page RO): %d (+%d from split)'' [Num split, Num (split - alloc)],
              Printf ''  VMAs after mprotect(restore RW): %d (merge: %s)''
                [Num merge, Str (if merge < split then ''YES'' else ''NO/partial'')],
              Printf ''  Transparent Huge Pages (THP) status:'' []]
           @ (case me_files e ''/sys/kernel/mm/transparent_hugepage/enabled'' of
                None \<Rightarrow> [Printf ''  /sys/kernel/mm/transparent_hugepage/enabled not found.'' []]
              | Some c \<Rightarrow> (case fgets 128 c of None \<Rightarrow> [] | Some (v, _) \<Rightarrow> [Printf ''  THP: %s'' [Str v]]))
           @ [Printf ''  [always]=auto-promote; [madvise]=only with MADV_HUGEPAGE; [never]=disabled.'' []]))"

definition lab10_main ::
  "(nat \<Rightarrow> string option) \<Rightarrow> (nat \<Rightarrow> u64) \<Rightarrow> string option \<Rightarrow> string option \<Rightarrow> bool \<Rightarrow> int \<Rightarrow> u64 option
   \<Rightarrow> maps_env \<Rightarrow> run" where
  "lab10_main maps pages before after line_buffered pid page e =
     run_then (Inr (demo_vma_growth maps pages @ demo_mprotect_split before after))
       (run_then (demo_cow_after_fork line_buffered pid page) (Inr (demo_maps_before_after_mmap e)))"

section \<open>Lab 13\<close>

text \<open>Phase 1: the buffer is filled with 0xAA before and, by the child, with 0xBB after \<^verbatim>\<open>fork\<close>.\<close>

definition cow_phase :: "bool \<Rightarrow> int \<Rightarrow> u64 option \<Rightarrow> (nat \<Rightarrow> int) \<Rightarrow> run" where
  "cow_phase line_buffered pid mem minflt =
     (case mem of None \<Rightarrow> Inl []
      | Some _ \<Rightarrow>
          Inr (Printf ''  Parent: allocated and touched %zu MiB'' [Num 32] #
            fork_wait line_buffered pid (0xAA :: int)
              (\<lambda>_. (0xBB, [Printf ''  Child: faults after fork (before write): minor=%ld'' [Num (minflt 1 - minflt 0)],
                           Printf ''  Child: faults after writing %zu MiB: minor=%ld (COW copies)''
                             [Num 32, Num (minflt 3 - minflt 2)]]))
              (\<lambda>v. [Printf ''  Parent: mem[0]=0x%02x (unchanged by child COW)'' [Num v]])))"

definition kpti_status :: "files \<Rightarrow> out list" where
  "kpti_status fs =
     (case fs ''/sys/devices/system/cpu/vulnerabilities/meltdown'' of
        None \<Rightarrow> [Printf ''    /sys/devices/system/cpu/vulnerabilities/meltdown: not found'' []]
      | Some c \<Rightarrow> (case fgets 128 c of None \<Rightarrow> [] | Some (v, _) \<Rightarrow> [Printf ''    meltdown: %s'' [Str v]]))"

text \<open>Phase 4 counts from 0, also when the file cannot be opened.\<close>

definition vma_total :: "string option \<Rightarrow> int" where
  "vma_total maps = (case maps of None \<Rightarrow> 0 | Some c \<Rightarrow> int (length (read_lines 512 c)))"

definition vma_phase :: "bool \<Rightarrow> int \<Rightarrow> string option \<Rightarrow> string option \<Rightarrow> out list" where
  "vma_phase line_buffered pid maps child_maps =
     Printf ''  Parent VMA count: %d'' [Num (vma_total maps)] #
     fork_wait line_buffered pid ()
       (\<lambda>u. (u, [Printf ''  Child  VMA count: %d (should match parent: COW copy, same layout)''
                   [Num (vma_total child_maps)]]))
       (\<lambda>_. [])"

definition lab13_main ::
  "files \<Rightarrow> bool \<Rightarrow> int \<Rightarrow> u64 option \<Rightarrow> (nat \<Rightarrow> int) \<Rightarrow> int \<Rightarrow> string option \<Rightarrow> string option \<Rightarrow> run" where
  "lab13_main fs line_buffered pid mem minflt child maps child_maps =
     run_then (cow_phase line_buffered pid mem minflt)
       (Inr (kpti_status fs @ vma_phase line_buffered child maps child_maps))"

section \<open>Lab 01\<close>

definition demo_process_isolation :: "bool \<Rightarrow> int \<Rightarrow> int \<Rightarrow> u64 \<Rightarrow> int \<Rightarrow> out list" where
  "demo_process_isolation line_buffered pid child addr g =
     Printf ''Parent: PID=%d, &test_var=%p, value=%d'' [Num pid, Ptr addr, Num 500] #
     fork_wait line_buffered child (500 :: int)
       (\<lambda>_. (999, [Printf ''Child:  PID=%d, &test_var=%p, value=%d (modified)'' [Num child, Ptr addr, Num 999],
                   Printf ''Child:  shared_global=%d (copied, not shared)'' [Num g]]))
       (\<lambda>test_var. [Printf ''Parent: test_var=%d (unchanged despite child modification)'' [Num test_var]])"

definition demo_address_space_map :: "files \<Rightarrow> int \<Rightarrow> out list" where
  "demo_address_space_map fs pid =
     (case fs ''/proc/self/maps'' of None \<Rightarrow> [Perror ''fopen /proc/self/maps'']
      | Some c \<Rightarrow> print_upto 512 20 ''  %s'' c
          @ (if length (print_upto 512 20 ''  %s'' c) \<ge> 20
             then [Printf ''  ... (truncated, see /proc/%d/maps for full listing)'' [Num pid]] else []))"

text \<open>What \<^verbatim>\<open>stat\<close> says of a device file: its kind and device number.\<close>

record dev_stat =
  ds_chr :: bool
  ds_blk :: bool
  ds_rdev :: u64

definition interesting :: "string list" where
  "interesting = [''/dev/null'', ''/dev/zero'', ''/dev/urandom'', ''/dev/tty'', ''/dev/sda'', ''/dev/loop0'', ''/dev/pts/0'']"

definition demo_fs_devices :: "(string \<Rightarrow> dev_stat option) \<Rightarrow> out list" where
  "demo_fs_devices stat = concat (map (\<lambda>p. case stat p of None \<Rightarrow> []
     | Some st \<Rightarrow> [Printf ''  %s  type=%c  major=%d  minor=%d''
         [Str p, Str (if ds_chr st then ''c'' else if ds_blk st then ''b'' else ''?''),
          Num (uint (dev_major (ds_rdev st))), Num (uint (dev_minor (ds_rdev st)))]]) interesting)"

text \<open>The counters of \<^verbatim>\<open>demo_count_vma_regions\<close>.\<close>

record vma_counts =
  vc_total :: int
  vc_anon :: int
  vc_file :: int
  vc_special :: int
  has_vdso :: bool
  has_vvar :: bool
  has_heap :: bool
  has_stack :: bool

definition no_vmas :: vma_counts where
  "no_vmas = \<lparr>vc_total = 0, vc_anon = 0, vc_file = 0, vc_special = 0,
              has_vdso = False, has_vvar = False, has_heap = False, has_stack = False\<rparr>"

definition count_vma :: "string \<Rightarrow> vma_counts \<Rightarrow> vma_counts" where
  "count_vma l v0 =
     (let v = v0\<lparr>vc_total := vc_total v0 + 1\<rparr> in
      if strstr l ''[vdso]'' then v\<lparr>has_vdso := True, vc_special := vc_special v + 1\<rparr>
      else if strstr l ''[vvar]'' then v\<lparr>has_vvar := True, vc_special := vc_special v + 1\<rparr>
      else if strstr l ''[heap]'' then v\<lparr>has_heap := True, vc_special := vc_special v + 1\<rparr>
      else if strstr l ''[stack]'' then v\<lparr>has_stack := True, vc_special := vc_special v + 1\<rparr>
      else if strstr l ''/'' then v\<lparr>vc_file := vc_file v + 1\<rparr>
      else v\<lparr>vc_anon := vc_anon v + 1\<rparr>)"

definition vma_regions :: "string \<Rightarrow> vma_counts" where
  "vma_regions c = fold count_vma (read_lines 512 c) no_vmas"

definition flag :: "bool \<Rightarrow> arg" where
  "flag b = Num (if b then 1 else 0)"

definition demo_count_vma_regions :: "files \<Rightarrow> out list" where
  "demo_count_vma_regions fs =
     (case fs ''/proc/self/maps'' of None \<Rightarrow> [Perror ''fopen /proc/self/maps'']
      | Some c \<Rightarrow>
          (let v = vma_regions c in
           [Printf ''  Total VMAs     : %d'' [Num (vc_total v)],
            Printf ''  File-backed    : %d  (executable, shared libs, mmap'd files)'' [Num (vc_file v)],
            Printf ''  Anonymous      : %d  (heap, thread stacks, mmap(MAP_ANON))'' [Num (vc_anon v)],
            Printf ''  Special kernel : %d  (vdso=%d, vvar=%d, heap=%d, stack=%d)''
              [Num (vc_special v), flag (has_vdso v), flag (has_vvar v), flag (has_heap v), flag (has_stack v)]]
           @ with_file fs ''/sys/fs/cgroup/memory.max'' (\<lambda>c.
               case fgets 64 c of None \<Rightarrow> []
               | Some (val, _) \<Rightarrow>
                   [Printf ''  cgroups v2 memory.max for this process: %s'' [Str (chomp val)],
                    Printf ''  (\"max\" means unlimited; containers set a numeric byte limit)'' []])))"

record lab01_env =
  l1_files :: files
  l1_pid :: int
  l1_child :: int
  l1_line_buffered :: bool
  l1_test_var :: u64
  l1_stat :: "string \<Rightarrow> dev_stat option"

text \<open>\<^verbatim>\<open>main\<close>, after the threads have ended in the state \<open>s\<close>; the files are read one after the other.\<close>

definition lab01_main :: "lab01_env \<Rightarrow> tf_state \<Rightarrow> out list" where
  "lab01_main e s =
     [Printf ''PID: %d'' [Num (l1_pid e)]] @ demo_threads_shared_space s
     @ demo_process_isolation (l1_line_buffered e) (l1_pid e) (l1_child e) (l1_test_var e) (shared_global s)
     @ demo_address_space_map (l1_files e) (l1_pid e)
     @ demo_fs_devices (l1_stat e)
     @ demo_count_vma_regions (l1_files e)"

section \<open>Translation\<close>

lemma pfn_mask: "(entry :: u64) AND (push_bit 55 1 - 1) = take_bit 55 entry"
  by (simp add: take_bit_eq_mask mask_eq_exp_minus_1 push_bit_eq_mult)

text \<open>
  C34. Where the page map has an entry with the present bit, lab 08 shows as physical address the
  frame number of the entry (its low 55 bits) times the page size plus the offset in the page. The
  kernel shows a frame number of 0 to processes without the privilege: then the line has the offset
  itself for an address and the hint at the missing privilege only if the address is page-aligned.
\<close>

theorem pagemap_translation:
  assumes "pm (addr div ps * 8) = Some entry" "bit entry 63"
  shows "virt_to_phys (Some pm) ps addr = take_bit 55 entry * ps + addr mod ps \<and>
         (take_bit 55 entry = 0 \<longrightarrow>
            region_line (Some pm) ps (name, addr) =
              Printf ''  %-6s  VA=%p  PA=0x%lx  %s''
                [Str name, Ptr addr, Num (uint (addr mod ps)),
                 Str (if addr mod ps = 0 then ''(need sudo or CAP_SYS_ADMIN)'' else [])])"
proof -
  have "virt_to_phys (Some pm) ps addr = take_bit 55 entry * ps + addr mod ps"
    unfolding virt_to_phys_def pfn_mask using assms by simp
  then show ?thesis by (simp add: region_line_def)
qed

theorem pagemap_translation_witness:
  "virt_to_phys (Some (\<lambda>_. Some 0x8600000000001234)) 4096 0x7fffffffe010 = 0x1234010 \<and>
   region_line (Some (\<lambda>_. Some 0x8600000000000000)) 4096 (''stack'', 0x7fffffffe010) =
     Printf ''  %-6s  VA=%p  PA=0x%lx  %s'' [Str ''stack'', Ptr 0x7fffffffe010, Num 16, Str []]"
proof -
  have b: "bit (0x8600000000001234 :: u64) 63" "bit (0x8600000000000000 :: u64) 63" by (simp_all add: bit_numeral_rec)
  have t: "take_bit 55 (0x8600000000001234 :: u64) = 0x1234" "take_bit 55 (0x8600000000000000 :: u64) = 0"
    by (simp_all add: take_bit_eq_mod)
  note p = pagemap_translation [where addr = "0x7fffffffe010" and ps = 4096 and name = "''stack''"]
  show ?thesis
    using p [of "\<lambda>_. Some 0x8600000000001234", OF refl b(1)] p [of "\<lambda>_. Some 0x8600000000000000", OF refl b(2)]
    by (simp add: t)
qed

section \<open>Feature flags longer than the buffer\<close>

lemma fgets_chunk_long:
  "NL \<notin> set a \<Longrightarrow> length a = k \<Longrightarrow> fgets_chunk k (a @ r) = (a, r)"
  by (induction a arbitrary: k) (auto, cases r, auto)

lemma read_lines_long:
  assumes "2 \<le> n" "length a = n - 1" "NL \<notin> set a"
  shows "read_lines n (a @ r) = a # read_lines n r"
proof (rule read_lines_step [OF assms(1)])
  show "a @ r \<noteq> []" using assms(1,2) by auto
  show "fgets_chunk (n - 1) (a @ r) = (a, r)" by (rule fgets_chunk_long [OF assms(3,2)])
qed

text \<open>
  The test for five-level paging answers yes exactly if a line of \<^verbatim>\<open>/proc/cpuinfo\<close> begins with
  \<^verbatim>\<open>flags\<close> and contains \<^verbatim>\<open>la57\<close>, provided that all lines fit the buffer of 512 bytes. A flag further
  back in a longer line is not found, since the rest of the line is taken for lines of its own.
\<close>

theorem la57_detection:
  assumes "fs1 ''/proc/cpuinfo'' = Some c" "short_lines 512 c"
    and "fs2 ''/proc/cpuinfo'' = Some (''flags'' @ replicate 506 (CHR '' '') @ r)"
    and "list_all (\<lambda>l. \<not> starts_with ''flags'' l) (read_lines 512 r)"
  shows "la57_check fs1 =
           (if list_ex (\<lambda>l. starts_with ''flags'' l \<and> strstr l ''la57'') (lines_of c)
            then [Printf ''  CPU supports LA57 (5-level paging): YES'' []]
            else [Printf ''  LA57 (5-level paging): not in /proc/cpuinfo flags'' []]) \<and>
         la57_check fs2 = [Printf ''  LA57 (5-level paging): not in /proc/cpuinfo flags'' []]"
proof -
  have a: "length (''flags'' @ replicate 506 (CHR '' '')) = 512 - 1" "NL \<notin> set (''flags'' @ replicate 506 (CHR '' ''))"
    by (simp_all add: NL_def)
  have s: "\<not> strstr (replicate k (CHR '' '')) ''la57''" for k
    by (induction k) (simp_all add: starts_with_def)
  have "\<not> strstr q ''la57'' \<Longrightarrow> \<not> strstr (''flags'' @ q) ''la57''" for q by (simp add: starts_with_def)
  from this [OF s [of 506]] have "\<not> strstr (''flags'' @ replicate 506 (CHR '' '')) ''la57''" .
  moreover have "read_lines 512 (''flags'' @ replicate 506 (CHR '' '') @ r) =
      (''flags'' @ replicate 506 (CHR '' '')) # read_lines 512 r"
    using read_lines_long [OF _ a] by simp
  ultimately have "\<not> list_ex (\<lambda>l. starts_with ''flags'' l \<and> strstr l ''la57'')
      (read_lines 512 (''flags'' @ replicate 506 (CHR '' '') @ r))"
    using assms(4) by (auto simp: list_ex_iff list_all_iff)
  then show ?thesis
    using assms(1,2,3) by (simp add: la57_check_def with_file_def read_lines_short)
qed

theorem la57_detection_witness:
  "la57_check (\<lambda>_. Some ''flags la57'') = [Printf ''  CPU supports LA57 (5-level paging): YES'' []] \<and>
   la57_check (\<lambda>_. Some (''flags'' @ replicate 506 (CHR '' '') @ ''la57'' @ [NL])) =
     [Printf ''  LA57 (5-level paging): not in /proc/cpuinfo flags'' []]"
proof -
  have l: "lines_of (''la57'' @ [NL]) = [''la57'' @ [NL]]" "lines_of ''flags la57'' = [''flags la57'']"
    by (simp_all add: NL_def)
  have r: "read_lines 512 (''la57'' @ [NL]) = [''la57'' @ [NL]]"
    using l(1) by (subst read_lines_short) simp_all
  have "la57_check (\<lambda>_. Some ''flags la57'') =
      (if list_ex (\<lambda>l. starts_with ''flags'' l \<and> strstr l ''la57'') (lines_of ''flags la57'')
       then [Printf ''  CPU supports LA57 (5-level paging): YES'' []]
       else [Printf ''  LA57 (5-level paging): not in /proc/cpuinfo flags'' []]) \<and>
     la57_check (\<lambda>_. Some (''flags'' @ replicate 506 (CHR '' '') @ ''la57'' @ [NL])) =
       [Printf ''  LA57 (5-level paging): not in /proc/cpuinfo flags'' []]"
    by (rule la57_detection [OF refl _ refl]) (simp_all only: l r, simp_all add: starts_with_def)
  then show ?thesis by (simp only: l) (simp add: starts_with_def)
qed

section \<open>Counting regions\<close>

lemma count_vma_parts:
  "vc_total (count_vma l v) = vc_total v + 1"
  "vc_anon (count_vma l v) + vc_file (count_vma l v) + vc_special (count_vma l v)
     = vc_anon v + vc_file v + vc_special v + 1"
  by (simp_all add: count_vma_def Let_def)

lemma count_vma_mono:
  "vc_anon v \<le> vc_anon (count_vma l v)" "vc_file v \<le> vc_file (count_vma l v)" "vc_special v \<le> vc_special (count_vma l v)"
  by (simp_all add: count_vma_def Let_def)

lemma fold_count_vma:
  "vc_total (fold count_vma ls v) = vc_total v + int (length ls) \<and>
   vc_anon (fold count_vma ls v) + vc_file (fold count_vma ls v) + vc_special (fold count_vma ls v)
     = vc_anon v + vc_file v + vc_special v + int (length ls)"
proof (induction ls arbitrary: v)
  case (Cons l ls)
  show ?case using Cons [of "count_vma l v"] count_vma_parts [of l v] by simp
qed simp

lemma fold_count_mono:
  "vc_anon v \<le> vc_anon (fold count_vma ls v) \<and> vc_file v \<le> vc_file (fold count_vma ls v) \<and>
   vc_special v \<le> vc_special (fold count_vma ls v)"
proof (induction ls arbitrary: v)
  case (Cons l ls)
  show ?case using Cons [of "count_vma l v"] count_vma_mono [of v l] by (auto intro: order_trans)
qed simp

lemma fold_count_flags:
  "has_vdso (fold count_vma ls v) \<longleftrightarrow> has_vdso v \<or> (\<exists>l\<in>set ls. strstr l ''[vdso]'')"
  by (induction ls arbitrary: v) (auto simp: count_vma_def Let_def)

text \<open>
  C36. The region counts of lab 01 partition the lines read: the three classes add up to the total, none
  is negative, and the total is what \<^verbatim>\<open>count_vmas\<close> of lab 10 counts. It is the number of regions if all
  lines of \<^verbatim>\<open>/proc/self/maps\<close> fit the buffer, and never less; the vdso flag is set exactly if some
  line names the vdso.
\<close>

theorem vma_partition:
  "vc_anon (vma_regions c) + vc_file (vma_regions c) + vc_special (vma_regions c) = vc_total (vma_regions c) \<and>
   0 \<le> vc_anon (vma_regions c) \<and> 0 \<le> vc_file (vma_regions c) \<and> 0 \<le> vc_special (vma_regions c) \<and>
   vc_total (vma_regions c) = count_vmas (Some c) \<and>
   int (length (lines_of c)) \<le> vc_total (vma_regions c) \<and>
   (short_lines 512 c \<longrightarrow> vc_total (vma_regions c) = int (length (lines_of c))) \<and>
   (has_vdso (vma_regions c) \<longleftrightarrow> (\<exists>l\<in>set (read_lines 512 c). strstr l ''[vdso]''))"
  using fold_count_vma [of "read_lines 512 c" no_vmas] fold_count_mono [of no_vmas "read_lines 512 c"]
    fold_count_flags [of "read_lines 512 c" no_vmas] read_lines_at_least [of 512 c] read_lines_short [of 512 c]
  by (auto simp: vma_regions_def count_vmas_def no_vmas_def)

theorem vma_partition_witness:
  "vc_total (vma_regions ''7ff0-7ff1 r-xp [vdso]'') = 1 \<and> has_vdso (vma_regions ''7ff0-7ff1 r-xp [vdso]'')"
proof -
  have l: "lines_of ''7ff0-7ff1 r-xp [vdso]'' = [''7ff0-7ff1 r-xp [vdso]'']" by (simp add: NL_def)
  then have r: "read_lines 512 ''7ff0-7ff1 r-xp [vdso]'' = [''7ff0-7ff1 r-xp [vdso]'']"
    by (subst read_lines_short) simp_all
  have "strstr ''7ff0-7ff1 r-xp [vdso]'' ''[vdso]''" by (simp add: starts_with_def)
  then show ?thesis using vma_partition [of "''7ff0-7ff1 r-xp [vdso]''"] by (simp add: r count_vmas_def)
qed

end
