(* ===== verification/Processes.thy ===== *)
theory Processes
  imports ProcExercises "HOL-Library.Multiset"
begin

text \<open>
  Labs 14 and 17 (\<^verbatim>\<open>lab_14_processes_in_action.c\<close>, \<^verbatim>\<open>lab_17_first_process.c\<close>): three children that are
  forked and reaped, and the walk along the ancestors of a process. The children of lab 14 and their
  parent run concurrently, so they are a step relation: the parent forks one after the other, each
  child prints and exits, and \<^verbatim>\<open>wait\<close> takes any child that has exited. The lines of a child appear
  only if the stream is line buffered, since \<^verbatim>\<open>_exit\<close> and \<^verbatim>\<open>execl\<close> do not flush. The walk of lab 17
  reads \<^verbatim>\<open>/proc/<pid>/status\<close> with the semantics of \<^verbatim>\<open>fgets\<close> and \<^verbatim>\<open>sscanf\<close>.
\<close>

section \<open>Lab 14: fork, exec, wait\<close>

datatype kid = Unborn | Running | Finishing | Zombie | Gone

record pw_state =
  kids :: "nat \<Rightarrow> kid"
  pw_out :: "out list"

record pw_env =
  pw_pid :: int
  pw_ppid :: int
  kid_pid :: "nat \<Rightarrow> int"
  pw_buffered :: bool
  exec_ok :: bool
  ls_status :: int

text \<open>What child \<open>i\<close> prints and the status with which it ends; the third one becomes \<^verbatim>\<open>ls\<close>.\<close>

definition kid_lines :: "pw_env \<Rightarrow> nat \<Rightarrow> out list" where
  "kid_lines e i =
     (if pw_buffered e then
        Printf ''  Child %d: PID=%d PPID=%d'' [Num (int i), Num (kid_pid e i), Num (pw_pid e)]
        # (if i = 2 then [Printf ''  Child 2: exec(ls)...'' []] else [])
      else [])
     @ (if i = 2 \<and> \<not> exec_ok e then [Perror ''exec''] else [])"

definition kid_status :: "pw_env \<Rightarrow> nat \<Rightarrow> int" where
  "kid_status e i = (if i = 2 \<and> exec_ok e then ls_status e else exit_status (int i))"

definition reap_line :: "pw_env \<Rightarrow> nat \<Rightarrow> out list" where
  "reap_line e i =
     (if WIFEXITED (kid_status e i)
      then [Printf ''  Reaped PID %d, exit=%d'' [Num (kid_pid e i), Num (WEXITSTATUS (kid_status e i))]] else [])"

definition pw_start :: "pw_env \<Rightarrow> pw_state" where
  "pw_start e = \<lparr>kids = (\<lambda>_. Unborn), pw_out = [Printf ''  Parent PID: %d, PPID: %d'' [Num (pw_pid e), Num (pw_ppid e)]]\<rparr>"

inductive pw_step :: "pw_env \<Rightarrow> pw_state \<Rightarrow> pw_state \<Rightarrow> bool" for e where
  fork: "i < 3 \<Longrightarrow> kids s i = Unborn \<Longrightarrow> \<forall>j<i. kids s j \<noteq> Unborn \<Longrightarrow>
     pw_step e s (s\<lparr>kids := (kids s)(i := Running)\<rparr>)"
| print: "i < 3 \<Longrightarrow> kids s i = Running \<Longrightarrow>
     pw_step e s (s\<lparr>kids := (kids s)(i := Finishing), pw_out := pw_out s @ kid_lines e i\<rparr>)"
| exits: "i < 3 \<Longrightarrow> kids s i = Finishing \<Longrightarrow> pw_step e s (s\<lparr>kids := (kids s)(i := Zombie)\<rparr>)"
| reap: "i < 3 \<Longrightarrow> kids s i = Zombie \<Longrightarrow> \<forall>j<3. kids s j \<noteq> Unborn \<Longrightarrow>
     pw_step e s (s\<lparr>kids := (kids s)(i := Gone), pw_out := pw_out s @ reap_line e i\<rparr>)"

inductive_cases pw_stepE: "pw_step e s t"

definition pw_ended :: "pw_state \<Rightarrow> bool" where
  "pw_ended s \<longleftrightarrow> (\<forall>i<3. kids s i = Gone)"

definition status_keys :: "string list" where
  "status_keys = [''Pid:'', ''PPid:'', ''VmPeak:'', ''VmRSS:'', ''VmData:'', ''VmStk:'', ''Threads:'', ''NSpid:'']"

text \<open>\<^verbatim>\<open>main\<close> after the children are reaped in state \<open>s\<close>; \<open>z\<close> is the process number of the zombie.\<close>

definition lab14_main :: "pw_env \<Rightarrow> files \<Rightarrow> pw_state \<Rightarrow> int \<Rightarrow> out list" where
  "lab14_main e fs s z =
     pw_out s
     @ [Printf ''  Run: pstree -p %d'' [Num (pw_pid e)],
        Printf ''  Or:  cat /proc/%d/status | grep -E \"Pid|PPid|Threads\"'' [Num (pw_pid e)],
        Printf ''  Created child PID %d -- now a zombie until we wait().'' [Num z],
        Printf ''  Check: ps aux | grep Z | grep %d'' [Num z]]
     @ with_file fs (proc_path 64 (pw_pid e) ''status'') (\<lambda>c.
         Printf ''  Key fields from /proc/self/status:'' []
         # print_matching 256 (\<lambda>l. list_ex (\<lambda>k. starts_with k l) status_keys) ''    %s'' c)"

section \<open>Lab 17: the first process\<close>

text \<open>The characters \<^verbatim>\<open>putchar\<close> writes one by one are shown as one event.\<close>

definition pid1_keys :: "string list" where
  "pid1_keys = [''Name:'', ''Pid:'', ''PPid:'', ''State:'', ''Threads:'', ''VmRSS:'']"

definition demo_pid1_info :: "files \<Rightarrow> out list" where
  "demo_pid1_info fs =
     (case fs ''/proc/1/cmdline'' of
        None \<Rightarrow> [Printf ''  (permission denied -- try: cat /proc/1/cmdline)'' []]
      | Some c \<Rightarrow> [Printf ''%s'' [Str (map (\<lambda>ch. if ch = CHR 0x00 then CHR '' '' else ch) (take 511 c))]])
     @ (case fs ''/proc/1/status'' of
          None \<Rightarrow> [Printf ''  /proc/1/status: permission denied (PID 1 owned by root)'' []]
        | Some c \<Rightarrow> Printf ''  /proc/1/status key fields:'' []
            # print_matching 256 (\<lambda>l. list_ex (\<lambda>k. starts_with k l) pid1_keys) ''    %s'' c)"

text \<open>\<^verbatim>\<open>sscanf(line + 5, " %63s", name)\<close>: the next word, if there is one, cut at 63 characters.\<close>

definition scan_word :: "nat \<Rightarrow> string \<Rightarrow> string option" where
  "scan_word n s =
     (case take n (takeWhile (\<lambda>c. \<not> is_space c) (dropWhile is_space s)) of [] \<Rightarrow> None | w \<Rightarrow> Some w)"

text \<open>The loop over the lines of a status file, with the variables \<^verbatim>\<open>name\<close> and \<^verbatim>\<open>ppid\<close>.\<close>

definition status_line :: "string \<Rightarrow> string \<times> int \<Rightarrow> string \<times> int" where
  "status_line l v =
     (let v1 = (if starts_with ''Name:'' l
                then (case scan_word 63 (drop 5 l) of None \<Rightarrow> v | Some w \<Rightarrow> (w, snd v)) else v)
      in if starts_with ''PPid:'' l
         then (case scan_int (drop 5 l) of None \<Rightarrow> v1 | Some (p, _) \<Rightarrow> (fst v1, p)) else v1)"

definition read_status :: "string \<Rightarrow> string \<times> int" where
  "read_status c = fold status_line (read_lines 256 c) (''?'', 0)"

text \<open>The walk, with at most \<open>n\<close> more steps; the result has the lines, the last process number and the depth.\<close>

fun ancestors :: "files \<Rightarrow> nat \<Rightarrow> int \<Rightarrow> int \<Rightarrow> out list \<times> int \<times> int" where
  "ancestors fs 0 depth pid = ([], pid, depth)"
| "ancestors fs (Suc n) depth pid =
     (if pid \<le> 1 then ([], pid, depth)
      else case fs (proc_path 64 pid ''status'') of
             None \<Rightarrow> ([], pid, depth)
           | Some c \<Rightarrow>
               (case read_status c of (name, ppid) \<Rightarrow>
                case ancestors fs n (depth + 1) ppid of (ls, p, d) \<Rightarrow>
                  (Printf ''  %*sPID %d (%s)'' [Num (depth * 2), Str [], Num pid, Str name] # ls, p, d)))"

definition demo_our_ancestors :: "files \<Rightarrow> int \<Rightarrow> out list" where
  "demo_our_ancestors fs pid =
     (case ancestors fs 20 0 pid of (ls, p, depth) \<Rightarrow>
        ls @ (if p \<le> 1 then [Printf ''  %*sPID 1 (init/systemd)'' [Num (depth * 2), Str []]] else []))"

definition demo_systemd_units :: "files \<Rightarrow> (string \<Rightarrow> bool) \<Rightarrow> out list" where
  "demo_systemd_units fs stat_ok =
     (if stat_ok ''/run/systemd/private'' \<or> stat_ok ''/run/systemd''
      then [Printf ''  Init system: systemd detected'' [],
            Printf ''  systemd is PID 1 on virtually all major Linux distros (2024).'' [],
            Printf ''  Key features:'' [],
            Printf ''    - Unit files: /lib/systemd/system/*.service, *.socket, *.target'' [],
            Printf ''    - Socket activation: fd passed to service via $LISTEN_FDS env var'' [],
            Printf ''    - cgroup-v2: each service in /sys/fs/cgroup/<slice>/<service>/'' [],
            Printf (''    - Journal: structured logs via 'journalctl -u <service>'' @ [CHR 0x27]) []]
      else [Printf ''  Init system: not systemd (SysVinit, OpenRC, or container runtime)'' []])
     @ (if stat_ok ''/.dockerenv''
        then [Printf ''  Running INSIDE a Docker container.'' [],
              Printf ''  PID namespace: this process sees PID 1 as the container entrypoint.'' [],
              Printf ''  Host PID 1 (systemd) is invisible from inside the container.'' []] else [])
     @ with_file fs ''/proc/1/cgroup'' (\<lambda>c.
         Printf ''  /proc/1/cgroup (cgroup membership of PID 1):'' [] # print_upto 256 5 ''    %s'' c)"

definition lab17_main :: "files \<Rightarrow> (string \<Rightarrow> bool) \<Rightarrow> int \<Rightarrow> int \<Rightarrow> out list" where
  "lab17_main fs stat_ok pid ppid =
     [Printf ''  This process: PID=%d, PPID=%d'' [Num pid, Num ppid]]
     @ demo_pid1_info fs @ demo_our_ancestors fs pid @ demo_systemd_units fs stat_ok"

section \<open>All children are reaped\<close>

fun kid_rank :: "kid \<Rightarrow> nat" where
  "kid_rank Unborn = 4"
| "kid_rank Running = 3"
| "kid_rank Finishing = 2"
| "kid_rank Zombie = 1"
| "kid_rank Gone = 0"

definition pw_variant :: "pw_state \<Rightarrow> nat" where
  "pw_variant s = (\<Sum>i<3. kid_rank (kids s i))"

definition is_reap :: "out \<Rightarrow> bool" where
  "is_reap ou = (case ou of Printf f _ \<Rightarrow> f = ''  Reaped PID %d, exit=%d'' | _ \<Rightarrow> False)"

text \<open>The reports so far name the children that are gone, each once, in the order of reaping.\<close>

definition pw_inv :: "pw_env \<Rightarrow> pw_state \<Rightarrow> bool" where
  "pw_inv e s \<longleftrightarrow>
     (\<exists>ord. distinct ord \<and> set ord = {i. i < 3 \<and> kids s i = Gone} \<and>
        filter is_reap (pw_out s) = concat (map (reap_line e) ord))"

lemma is_reap_lines: "filter is_reap (kid_lines e i) = []" "filter is_reap (reap_line e i) = reap_line e i"
  by (simp_all add: kid_lines_def reap_line_def is_reap_def)

lemma pw_inv_frame:
  assumes "pw_inv e s" "\<And>i. kids t i = Gone \<longleftrightarrow> kids s i = Gone"
    "filter is_reap (pw_out t) = filter is_reap (pw_out s)"
  shows "pw_inv e t"
  using assms by (simp add: pw_inv_def)

lemma pw_inv_step:
  assumes "pw_inv e s" "pw_step e s t"
  shows "pw_inv e t"
proof -
  obtain ord where o: "distinct ord" "set ord = {i. i < 3 \<and> kids s i = Gone}"
    "filter is_reap (pw_out s) = concat (map (reap_line e) ord)"
    using assms(1) by (auto simp: pw_inv_def)
  from assms(2) show ?thesis
  proof cases
    case (reap i)
    have "i \<notin> set ord" using o(2) reap by auto
    then show ?thesis
      using o reap unfolding pw_inv_def by (intro exI [of _ "ord @ [i]"]) (auto simp: is_reap_lines)
  qed (rule pw_inv_frame [OF assms(1)]; simp add: is_reap_lines)+
qed

lemma pw_progress: "\<not> pw_ended s \<Longrightarrow> \<exists>t. pw_step e s t"
proof (cases "\<exists>i<3. kids s i = Unborn")
  case True
  then obtain i where "i < 3 \<and> kids s i = Unborn" by blast
  then have "\<exists>i. (i < 3 \<and> kids s i = Unborn) \<and> (\<forall>j<i. \<not> (j < 3 \<and> kids s j = Unborn))"
    by (rule exists_least_iff [THEN iffD1, OF exI])
  then show ?thesis by (meson order.strict_trans pw_step.fork)
next
  case False
  assume "\<not> pw_ended s"
  then obtain i where i: "i < 3" "kids s i \<noteq> Gone" by (auto simp: pw_ended_def)
  then show ?thesis using False by (cases "kids s i") (auto intro: pw_step.intros)
qed

lemma pw_decreases:
  assumes "pw_step e s t"
  shows "Suc (pw_variant t) = pw_variant s"
proof -
  have one: "Suc (\<Sum>i<3. kid_rank (((kids s)(j := k)) i)) = (\<Sum>i<3. kid_rank (kids s i))"
    if "j < 3" "Suc (kid_rank k) = kid_rank (kids s j)" for j k
    using sum_increment [of j 3 "\<lambda>i. kid_rank (kids s i)" "\<lambda>i. kid_rank (((kids s)(j := k)) i)"] that by simp
  from assms show ?thesis
    by (rule pw_stepE) (simp_all add: pw_variant_def one del: fun_upd_apply)
qed

interpretation pw: ending_system "pw_start e" "pw_step e" "pw_inv e" pw_ended pw_variant for e
proof unfold_locales
  show "pw_inv e (pw_start e)" by (auto simp: pw_inv_def pw_start_def is_reap_def intro!: exI [of _ "[]"])
  show "pw_inv e s \<Longrightarrow> pw_step e s t \<Longrightarrow> pw_inv e t" for s t by (rule pw_inv_step)
  show "\<not> pw_ended s \<Longrightarrow> \<exists>t. pw_step e s t" for s by (rule pw_progress)
  show "pw_step e s t \<Longrightarrow> pw_variant t < pw_variant s" for s t using pw_decreases [of e s t] by simp
qed

lemma pw_exact: "(pw_step e ^^ k) s t \<Longrightarrow> k + pw_variant t = pw_variant s"
proof (induction k arbitrary: t)
  case (Suc k)
  then obtain u where "(pw_step e ^^ k) s u" "pw_step e u t" by auto
  then show ?case using Suc.IH [of u] pw_decreases [of e u t] by simp
qed simp

lemma pw_ended_variant: "pw_ended s \<longleftrightarrow> pw_variant s = 0"
proof -
  have "kid_rank k = 0 \<longleftrightarrow> k = Gone" for k by (cases k) simp_all
  then show ?thesis by (auto simp: pw_ended_def pw_variant_def)
qed

lemma reaped_lines:
  assumes "pw_inv e s" "pw_ended s"
  shows "mset (filter is_reap (pw_out s)) = mset (concat (map (reap_line e) [0, 1, 2]))"
proof -
  obtain ord where o: "distinct ord" "set ord = {i. i < 3 \<and> kids s i = Gone}"
    "filter is_reap (pw_out s) = concat (map (reap_line e) ord)"
    using assms(1) by (auto simp: pw_inv_def)
  have "set ord = set [0, 1, 2]" using o(2) assms(2) by (auto simp: pw_ended_def)
  then have "mset ord = mset [0, 1, 2]" using o(1) set_eq_iff_mset_eq_distinct [of ord "[0, 1, 2]"] by simp
  moreover have "mset (concat (map (reap_line e) xs)) = (\<Sum>i\<in>#mset xs. mset (reap_line e i))" for xs
    by (induction xs) simp_all
  ultimately show ?thesis unfolding o(3) by metis
qed

text \<open>
  C27. However the parent and the three children of lab 14 are scheduled, the run is never stuck before
  all children are reaped, and it is over after exactly twelve steps. Then the parent has reported the
  children that exited, each once, in some order: the first two with the statuses 0 and 1, the third
  with that of \<^verbatim>\<open>ls\<close>, or 2 if it could not be executed. If \<^verbatim>\<open>ls\<close> is ended by a signal, the third child is
  reaped without a report.
\<close>

theorem children_reaped:
  assumes "(pw_step e ^^ k) (pw_start e) s"
  shows "k \<le> 12 \<and> ((\<nexists>t. pw_step e s t) \<longleftrightarrow> k = 12) \<and> (pw_ended s \<longleftrightarrow> k = 12) \<and>
         (k = 12 \<longrightarrow> mset (filter is_reap (pw_out s)) =
            mset ([Printf ''  Reaped PID %d, exit=%d'' [Num (kid_pid e 0), Num 0],
                   Printf ''  Reaped PID %d, exit=%d'' [Num (kid_pid e 1), Num 1]]
                  @ (if \<not> exec_ok e then [Printf ''  Reaped PID %d, exit=%d'' [Num (kid_pid e 2), Num 2]]
                     else if WIFEXITED (ls_status e)
                     then [Printf ''  Reaped PID %d, exit=%d'' [Num (kid_pid e 2), Num (WEXITSTATUS (ls_status e))]]
                     else [])))"
proof -
  have start: "pw_variant (pw_start e) = 12" by (simp add: pw_variant_def pw_start_def eval_nat_numeral)
  have v: "k + pw_variant s = 12" using pw_exact [OF assms] start by simp
  have inv: "pw_inv e s"
    using pw.inv_reachable assms by (blast dest: relpowp_imp_rtranclp)
  have ended: "pw_ended s \<longleftrightarrow> k = 12" using v by (auto simp: pw_ended_variant)
  have "(\<nexists>t. pw_step e s t) \<longleftrightarrow> k = 12"
    using pw_progress [of s e] pw_decreases [of e s] ended v by fastforce
  moreover have "k = 12 \<Longrightarrow> mset (filter is_reap (pw_out s)) = mset (concat (map (reap_line e) [0, 1, 2]))"
    using reaped_lines [OF inv] ended by simp
  moreover have "WIFEXITED (exit_status i) \<and> WEXITSTATUS (exit_status i) = i" if "i \<in> {0, 1, 2}" for i
    using that by (auto simp: exit_status_def WIFEXITED_def WEXITSTATUS_def)
  ultimately show ?thesis using v ended by (simp add: reap_line_def kid_status_def)
qed

definition sample_pw :: pw_env where
  "sample_pw = \<lparr>pw_pid = 100, pw_ppid = 1, kid_pid = (\<lambda>i. 101 + int i), pw_buffered = True, exec_ok = True, ls_status = 0\<rparr>"

theorem children_reaped_witness:
  "\<exists>s. (pw_step sample_pw ^^ 12) (pw_start sample_pw) s \<and> pw_ended s"
proof -
  obtain s where "(pw_step sample_pw)\<^sup>*\<^sup>* (pw_start sample_pw) s" "pw_ended s" using pw.reaches_end by blast
  moreover then obtain k where "(pw_step sample_pw ^^ k) (pw_start sample_pw) s" by (blast dest: rtranclp_imp_relpowp)
  ultimately show ?thesis using children_reaped [of k sample_pw s] by blast
qed

section \<open>The chain of ancestors\<close>

text \<open>A status file that shows a name and a parent, all lines fitting the buffer.\<close>

definition shows_status :: "string \<Rightarrow> string \<Rightarrow> int \<Rightarrow> bool" where
  "shows_status c nm q \<longleftrightarrow> short_lines 256 c \<and> nm \<noteq> [] \<and> length nm \<le> 63 \<and> list_all (\<lambda>ch. \<not> is_space ch) nm \<and>
     (\<exists>w1 mid w2 post. list_all is_space w1 \<and> list_all is_space w2 \<and>
        list_all (\<lambda>l. \<not> starts_with ''Name:'' l \<and> \<not> starts_with ''PPid:'' l) (mid @ post) \<and>
        lines_of c = (''Name:'' @ w1 @ nm @ [NL]) # mid @ (''PPid:'' @ w2 @ show_int q @ [NL]) # post)"

lemma NL_space: "is_space NL"
  by (simp add: is_space_def NL_def)

lemma scan_word_shown:
  assumes "list_all is_space w" "list_all (\<lambda>ch. \<not> is_space ch) nm" "nm \<noteq> []" "length nm \<le> n"
  shows "scan_word n (w @ nm @ [NL]) = Some nm"
proof -
  have "dropWhile is_space (nm @ [NL]) = nm @ [NL]" using assms(2,3) by (cases nm) auto
  moreover have "takeWhile (\<lambda>c. \<not> is_space c) (nm @ [NL]) = nm"
    using assms(2) NL_space by (subst takeWhile_append2) (auto simp: list_all_iff)
  ultimately show ?thesis
    using assms(1,3,4) by (cases nm) (simp_all add: scan_word_def dropWhile_all_append)
qed

lemma status_line_other:
  "list_all (\<lambda>l. \<not> starts_with ''Name:'' l \<and> \<not> starts_with ''PPid:'' l) ls \<Longrightarrow> fold status_line ls v = v"
  by (induction ls) (simp_all add: status_line_def)

lemma read_status_shown:
  assumes "shows_status c nm q"
  shows "read_status c = (nm, q)"
proof -
  obtain w1 mid w2 post where w: "list_all is_space w1" "list_all is_space w2"
    and other: "list_all (\<lambda>l. \<not> starts_with ''Name:'' l \<and> \<not> starts_with ''PPid:'' l) (mid @ post)"
    and l: "lines_of c = (''Name:'' @ w1 @ nm @ [NL]) # mid @ (''PPid:'' @ w2 @ show_int q @ [NL]) # post"
    and nm: "nm \<noteq> []" "length nm \<le> 63" "list_all (\<lambda>ch. \<not> is_space ch) nm" and short: "short_lines 256 c"
    using assms unfolding shows_status_def by blast
  have d: "drop 5 (''Name:'' @ x) = x" "drop 5 (''PPid:'' @ x) = x"
    "starts_with ''Name:'' (''Name:'' @ x)" "starts_with ''PPid:'' (''PPid:'' @ x)"
    "\<not> starts_with ''PPid:'' (''Name:'' @ x)" "\<not> starts_with ''Name:'' (''PPid:'' @ x)" for x
    by (simp_all add: starts_with_def)
  have "\<not> is_digit NL" by (simp add: is_digit_def NL_def)
  then have i: "scan_int (w2 @ show_int q @ [NL]) = Some (q, [NL])" by (intro scan_int_show [OF w(2)]) simp
  have n: "status_line (''Name:'' @ w1 @ nm @ [NL]) v = (nm, snd v)" for v
    unfolding status_line_def Let_def d using scan_word_shown [OF w(1) nm(3,1,2)] d by simp
  have p: "status_line (''PPid:'' @ w2 @ show_int q @ [NL]) v = (fst v, q)" for v
    unfolding status_line_def Let_def d i using d by simp
  have "read_lines 256 c = lines_of c" using short by (simp add: read_lines_short)
  then show ?thesis
    using other unfolding read_status_def l by (simp add: n p status_line_other del: append_Cons append_assoc)
qed

text \<open>The chain of process numbers above 1, at most \<open>n\<close> of them, by a table of parents.\<close>

primrec chain :: "(int \<Rightarrow> int) \<Rightarrow> nat \<Rightarrow> int \<Rightarrow> int list" where
  "chain par 0 p = []"
| "chain par (Suc n) p = (if p \<le> 1 then [] else p # chain par n (par p))"

definition ancestor_line :: "(int \<Rightarrow> string) \<Rightarrow> int \<times> int \<Rightarrow> out" where
  "ancestor_line nm dp = Printf ''  %*sPID %d (%s)'' [Num (fst dp * 2), Str [], Num (snd dp), Str (nm (snd dp))]"

lemma ancestors_chain:
  assumes "\<forall>p\<in>set (chain par n pid). \<exists>c. fs (proc_path 64 p ''status'') = Some c \<and> shows_status c (nm p) (par p)"
  shows "ancestors fs n d pid =
     (map (ancestor_line nm) (zip (map (\<lambda>k. d + int k) [0..<length (chain par n pid)]) (chain par n pid)),
      (par ^^ length (chain par n pid)) pid, d + int (length (chain par n pid)))"
  using assms
proof (induction n arbitrary: d pid)
  case (Suc n)
  show ?case
  proof (cases "pid \<le> 1")
    case False
    then obtain c where c: "fs (proc_path 64 pid ''status'') = Some c" "read_status c = (nm pid, par pid)"
      using Suc.prems read_status_shown by auto
    have sh: "map (\<lambda>k. d + int k) [0..<Suc m] = d # map (\<lambda>k. d + 1 + int k) [0..<m]" for m
      by (simp only: upt_conv_Cons [of 0 "Suc m"] zero_less_Suc list.map map_Suc_upt [symmetric] map_map o_def) simp
    show ?thesis
      using False c Suc.IH [of "par pid" "d + 1"] Suc.prems
      by (simp add: sh ancestor_line_def funpow_swap1 del: upt_Suc)
  qed simp
qed simp

text \<open>
  The walk of lab 17 always ends. If the status files show the names \<open>nm\<close> and parents \<open>par\<close> of the
  processes on the way, it prints the process and its ancestors above process 1, at most twenty,
  each one step further to the right, and then the line of process 1 if the walk has arrived at
  number 1 or below: also if it ended at 0, where the ancestor is outside of the process namespace.
\<close>

theorem ancestry:
  assumes "\<forall>p\<in>set (chain par 20 pid). \<exists>c. fs (proc_path 64 p ''status'') = Some c \<and> shows_status c (nm p) (par p)"
  shows "demo_our_ancestors fs pid =
           map (ancestor_line nm) (zip (map int [0..<length (chain par 20 pid)]) (chain par 20 pid))
           @ (if (par ^^ length (chain par 20 pid)) pid \<le> 1
              then [Printf ''  %*sPID 1 (init/systemd)'' [Num (int (length (chain par 20 pid)) * 2), Str []]] else [])"
  using ancestors_chain [OF assms, of 0] by (simp add: demo_our_ancestors_def)

lemma shows_status_example: "shows_status (''Name: sh'' @ [NL] @ ''PPid: 0'' @ [NL]) ''sh'' 0"
proof -
  have z: "show_int 0 = ''0''" by code_simp
  have l: "lines_of (''Name: sh'' @ [NL] @ ''PPid: 0'' @ [NL]) =
      (''Name:'' @ '' '' @ ''sh'' @ [NL]) # [] @ (''PPid:'' @ '' '' @ show_int 0 @ [NL]) # []"
    by (simp add: z NL_def)
  have "\<exists>w1 mid w2 post. list_all is_space w1 \<and> list_all is_space w2 \<and>
        list_all (\<lambda>l. \<not> starts_with ''Name:'' l \<and> \<not> starts_with ''PPid:'' l) (mid @ post) \<and>
        (''Name:'' @ '' '' @ ''sh'' @ [NL]) # [] @ (''PPid:'' @ '' '' @ show_int 0 @ [NL]) # []
          = (''Name:'' @ w1 @ ''sh'' @ [NL]) # mid @ (''PPid:'' @ w2 @ show_int 0 @ [NL]) # post"
    by (intro exI [of _ "'' ''"] exI [of _ "[]"]) (simp add: is_space_def)
  moreover have "list_all (\<lambda>ch. \<not> is_space ch) ''sh''" by (simp add: is_space_def)
  ultimately show ?thesis unfolding shows_status_def l by (simp add: z)
qed

theorem ancestry_witness:
  "demo_our_ancestors (\<lambda>_. Some (''Name: sh'' @ [NL] @ ''PPid: 0'' @ [NL])) 5 =
     [Printf ''  %*sPID %d (%s)'' [Num 0, Str [], Num 5, Str ''sh''],
      Printf ''  %*sPID 1 (init/systemd)'' [Num 2, Str []]]"
proof -
  have c: "chain (\<lambda>_. 0) 20 5 = [5]" by (simp add: numeral_eq_Suc)
  have "\<forall>p\<in>set (chain (\<lambda>_. 0) 20 5). \<exists>c. (\<lambda>_. Some (''Name: sh'' @ [NL] @ ''PPid: 0'' @ [NL])) (proc_path 64 p ''status'') = Some c
      \<and> shows_status c ((\<lambda>_. ''sh'') p) ((\<lambda>_. 0) p)"
    using shows_status_example by simp
  from ancestry [OF this] show ?thesis by (simp add: c ancestor_line_def)
qed

end
