(* ===== verification/X86Calling.thy ===== *)
theory X86Calling
  imports Prelude
begin

text \<open>
  Lab 03 (\<^verbatim>\<open>lab_03_x86_calling.c\<close>): argument passing, stack frames, the time stamp counter and the two
  summation loops. Register contents and addresses are parameters: \<open>frames d\<close> has what the call with
  depth \<open>d\<close> reads from its frame, \<open>tsc k\<close> the two halves the \<open>k\<close>-th \<^verbatim>\<open>rdtsc\<close> delivers. A signed sum
  that leaves the range of \<^verbatim>\<open>int\<close> has no defined value and is \<open>None\<close>.
\<close>

unbundle bit_operations_syntax

section \<open>Calls and frames\<close>

text \<open>\<^verbatim>\<open>long\<close> arguments; the second component is the return value.\<close>

definition demo_args :: "int \<Rightarrow> int \<Rightarrow> int \<Rightarrow> int \<Rightarrow> int \<Rightarrow> int \<Rightarrow> int \<Rightarrow> int \<Rightarrow> out list \<times> int" where
  "demo_args a b c d e f g h =
     ([Printf ''  a(rdi)=%ld b(rsi)=%ld c(rdx)=%ld d(rcx)=%ld e(r8)=%ld f(r9)=%ld''
         [Num a, Num b, Num c, Num d, Num e, Num f],
       Printf ''  g(stack)=%ld h(stack)=%ld'' [Num g, Num h]],
      a + b + c + d + e + f + g + h)"

definition demo_calling_convention :: "out list" where
  "demo_calling_convention =
     (case demo_args 1 2 3 4 5 6 7 8 of (os, result) \<Rightarrow> os @ [Printf ''  Return value (rax): %ld'' [Num result]])"

record frame =
  local_addr :: u64
  frame_ptr :: u64
  stack_ptr :: u64
  ret_addr :: u64

definition frame_lines :: "nat \<Rightarrow> frame \<Rightarrow> out list" where
  "frame_lines depth f =
     [Printf ''  depth=%d  &local_var=%p  value=0x%x'' [Num (int depth), Ptr (local_addr f), Num (0xDEAD + int depth)],
      Printf ''           rbp=%p  rsp=%p  ret_addr=%p'' [Ptr (frame_ptr f), Ptr (stack_ptr f), Ptr (ret_addr f)],
      Printf ''           frame_size=%ld bytes'' [Num (sint (frame_ptr f - stack_ptr f))]]"

fun demo_stack_frame :: "(nat \<Rightarrow> frame) \<Rightarrow> nat \<Rightarrow> out list" where
  "demo_stack_frame frames 0 = frame_lines 0 (frames 0)"
| "demo_stack_frame frames (Suc depth) = frame_lines (Suc depth) (frames (Suc depth)) @ demo_stack_frame frames depth"

definition demo_stack_layout :: "(nat \<Rightarrow> frame) \<Rightarrow> out list" where
  "demo_stack_layout frames = demo_stack_frame frames 3"

section \<open>The time stamp counter\<close>

text \<open>\<^verbatim>\<open>((uint64_t)hi << 32) | lo\<close>, also what the shift and or instructions of the first reading compute.\<close>

definition tsc_value :: "u32 \<times> u32 \<Rightarrow> u64" where
  "tsc_value t = push_bit 32 (ucast (fst t)) OR ucast (snd t)"

definition demo_inline_asm :: "(nat \<Rightarrow> u32 \<times> u32) \<Rightarrow> u32 \<Rightarrow> out list" where
  "demo_inline_asm tsc max_leaf =
     [Printf ''  TSC (Time Stamp Counter): %lu'' [Num (uint (tsc_value (tsc 0)))],
      Printf ''  CPUID leaf 0: eax=%u (max leaf)'' [Num (uint max_leaf)],
      Printf ''  RDTSC back-to-back overhead: ~%lu cycles'' [Num (uint (tsc_value (tsc 2) - tsc_value (tsc 1)))]]"

section \<open>Summation\<close>

function sum_loop :: "int \<Rightarrow> int \<Rightarrow> int \<Rightarrow> int option" where
  "sum_loop i n acc =
     (if i < n then (if acc + i \<le> INT_MAX then sum_loop (i + 1) n (acc + i) else None) else Some acc)"
  by pat_completeness auto
termination
  by (relation "measure (\<lambda>(i, n, acc). nat (n - i))") auto

declare sum_loop.simps [simp del]

definition compute_without_volatile :: "int \<Rightarrow> int option" where
  "compute_without_volatile n = sum_loop 0 n 0"

text \<open>The volatile variable is stored and loaded in every iteration; nobody else changes it.\<close>

definition compute_with_volatile :: "int \<Rightarrow> int option" where
  "compute_with_volatile n = sum_loop 0 n 0"

definition demo_volatile_effect :: "out list option" where
  "demo_volatile_effect =
     Option.bind (compute_without_volatile 1000) (\<lambda>r1.
     Option.bind (compute_with_volatile 1000) (\<lambda>r2.
       Some [Printf ''  Without volatile: result=%d'' [Num r1], Printf ''  With volatile:    result=%d'' [Num r2]]))"

definition add_two :: "int \<Rightarrow> int \<Rightarrow> int" where
  "add_two a b = a + b"

definition demo_disassembly_hint :: "u64 \<Rightarrow> out list" where
  "demo_disassembly_hint code =
     [Printf ''  add_two(17, 25) = %ld'' [Num (add_two 17 25)], Printf ''  Function pointer: %p'' [Ptr code]]"

definition lab03_main :: "(nat \<Rightarrow> frame) \<Rightarrow> (nat \<Rightarrow> u32 \<times> u32) \<Rightarrow> u32 \<Rightarrow> u64 \<Rightarrow> out list option" where
  "lab03_main frames tsc max_leaf code =
     map_option (\<lambda>vol. demo_calling_convention @ demo_stack_layout frames @ demo_inline_asm tsc max_leaf
                       @ vol @ demo_disassembly_hint code) demo_volatile_effect"

section \<open>Properties\<close>

lemma tsc_value_uint: "uint (tsc_value (hi, lo)) = uint hi * 2 ^ 32 + uint lo"
proof -
  have "tsc_value (hi, lo) = push_bit 32 (ucast hi) + ucast lo"
    unfolding tsc_value_def fst_conv snd_conv
    by (rule disjunctive_add [symmetric]) (auto simp: bit_simps dest: bit_imp_le_length)
  also have "\<dots> = of_int (uint hi * 2 ^ 32 + uint lo)"
    by (simp only: push_bit_eq_mult ucast_eq of_int_add of_int_mult of_int_power of_int_numeral)
  finally have "tsc_value (hi, lo) = of_int (uint hi * 2 ^ 32 + uint lo)" .
  moreover have "uint hi * 2 ^ 32 + uint lo < 2 ^ 64" "0 \<le> uint hi * 2 ^ 32 + uint lo"
    using uint_lt2p [of hi] uint_lt2p [of lo] by simp_all
  ultimately show ?thesis
    by (simp only: uint_word_of_int_eq len_num0 len_bit0 len_num1) (simp add: take_bit_int_eq_self)
qed

text \<open>Up to 65536 the loop goes on with the triangular numbers; one more addition overflows.\<close>

lemma sum_loop_step: "i < n \<Longrightarrow> acc + i \<le> INT_MAX \<Longrightarrow> sum_loop i n acc = sum_loop (i + 1) n (acc + i)"
  by (subst sum_loop.simps) simp

lemma sum_loop_end: "n \<le> i \<Longrightarrow> sum_loop i n acc = Some acc"
  by (subst sum_loop.simps) simp

lemma sum_loop_over: "i < n \<Longrightarrow> INT_MAX < acc + i \<Longrightarrow> sum_loop i n acc = None"
  by (subst sum_loop.simps) simp

lemma sum_loop_goes_on:
  assumes "0 \<le> i" "i \<le> m" "m \<le> 65536" "m \<le> n"
  shows "sum_loop i n (i * (i - 1) div 2) = sum_loop m n (m * (m - 1) div 2)"
  using assms
proof (induction "nat (m - i)" arbitrary: i)
  case (Suc k)
  have e: "i * (i - 1) div 2 + i = (i + 1) * (i + 1 - 1) div 2" by (simp add: algebra_simps)
  have "(i + 1) * i \<le> 65536 * 65535" using Suc by (intro mult_mono) auto
  then have "i * (i - 1) div 2 + i \<le> INT_MAX" unfolding e by (simp add: INT_MAX_def)
  moreover have "i < n" using Suc.hyps(2) Suc.prems by linarith
  ultimately have "sum_loop i n (i * (i - 1) div 2) = sum_loop (i + 1) n ((i + 1) * (i + 1 - 1) div 2)"
    unfolding e [symmetric] by (intro sum_loop_step)
  then show ?case using Suc.hyps(1) [of "i + 1"] Suc.hyps(2) Suc.prems by simp
qed simp

text \<open>
  The two summation functions of lab 03 agree; for an argument from 0 to 65536 they return the
  sum n(n-1)/2, so that the lab reports 499500 twice, and with any larger argument the sum overflows.
\<close>

theorem summation:
  "compute_with_volatile = compute_without_volatile \<and>
   (0 \<le> n \<and> n \<le> 65536 \<longrightarrow> compute_without_volatile n = Some (n * (n - 1) div 2)) \<and>
   (65536 < n \<longrightarrow> compute_without_volatile n = None) \<and>
   demo_volatile_effect =
     Some [Printf ''  Without volatile: result=%d'' [Num 499500], Printf ''  With volatile:    result=%d'' [Num 499500]]"
proof -
  have v: "sum_loop 0 n 0 = Some (n * (n - 1) div 2)" if "0 \<le> n" "n \<le> 65536" for n
    using sum_loop_goes_on [of 0 n n] sum_loop_end [of n n] that by simp
  have o: "sum_loop 0 n 0 = None" if "65536 < n" for n
    using sum_loop_goes_on [of 0 65536 n] sum_loop_over [of 65536 n] that by (simp add: INT_MAX_def)
  show ?thesis
    using v o v [of 1000]
    by (auto simp: compute_with_volatile_def compute_without_volatile_def demo_volatile_effect_def)
qed

theorem summation_witness:
  "compute_without_volatile 1000 = Some 499500 \<and> compute_without_volatile 65537 = None"
  using summation [of 1000] summation [of 65537] by simp

end
