(* ===== verification/SystemInfo.thy ===== *)
theory SystemInfo
  imports ProcFs
begin

text \<open>
  The labs that show what the kernel says about itself: \<^verbatim>\<open>lab_04_phys_mem_io.c\<close>,
  \<^verbatim>\<open>lab_07_kernel_ds_mm.c\<close>, \<^verbatim>\<open>lab_12_kernel_boot.c\<close>, \<^verbatim>\<open>lab_16_scheduler_pcb.c\<close>,
  \<^verbatim>\<open>lab_33_ext4_journal.c\<close>, \<^verbatim>\<open>lab_34_protection.c\<close>, \<^verbatim>\<open>lab_35_scheduling.c\<close> and
  \<^verbatim>\<open>lab_37_kernel_arch.c\<close>. Files, the output of commands run with \<^verbatim>\<open>popen\<close> (\<open>None\<close> if it fails),
  registers, addresses and the results of system calls are parameters.
\<close>

abbreviation print_all :: "nat \<Rightarrow> string \<Rightarrow> string \<Rightarrow> out list" where
  "print_all n \<equiv> print_matching n (\<lambda>_. True)"

section \<open>Lab 04\<close>

definition lab04_iomem :: "files \<Rightarrow> out list" where
  "lab04_iomem fs =
     (case fs ''/proc/iomem'' of
        None \<Rightarrow> [Printf ''  (need root to read /proc/iomem - run: sudo cat /proc/iomem)'' []]
      | Some c \<Rightarrow> print_upto 256 30 ''  %s'' c)"

definition demo_ioports :: "files \<Rightarrow> out list" where
  "demo_ioports fs =
     (case fs ''/proc/ioports'' of
        None \<Rightarrow> [Printf ''  (need root - run: sudo cat /proc/ioports)'' []]
      | Some c \<Rightarrow> print_upto 256 15 ''  %s'' c)"

text \<open>The segment registers, in the order CS, DS, SS, FS, GS.\<close>

record segment_regs =
  seg_cs :: "16 word"
  seg_ds :: "16 word"
  seg_ss :: "16 word"
  seg_fs :: "16 word"
  seg_gs :: "16 word"

definition demo_segments :: "segment_regs \<Rightarrow> out list" where
  "demo_segments r =
     [Printf ''  CS=0x%04x DS=0x%04x SS=0x%04x FS=0x%04x GS=0x%04x''
        [Num (uint (seg_cs r)), Num (uint (seg_ds r)), Num (uint (seg_ss r)), Num (uint (seg_fs r)), Num (uint (seg_gs r))]]"

definition zone_keys :: "string list" where
  "zone_keys = [''MemTotal'', ''MemAvailable'', ''HugePages'', ''Huge'', ''DirectMap'', ''NFS'', ''Committed'']"

definition demo_meminfo_zones :: "files \<Rightarrow> out list" where
  "demo_meminfo_zones fs =
     with_file fs ''/proc/buddyinfo'' (\<lambda>c.
       Printf ''  /proc/buddyinfo (free buddy blocks per order per NUMA node+zone):'' [] # print_all 256 ''  %s'' c)
     @ with_file fs ''/proc/meminfo'' (\<lambda>c.
       Printf ''  Selected /proc/meminfo fields:'' [] # print_matching 256 (starts_with_any zone_keys) ''    %s'' c)"

definition lab04_main :: "files \<Rightarrow> segment_regs \<Rightarrow> out list" where
  "lab04_main fs r = lab04_iomem fs @ demo_ioports fs @ demo_segments r @ demo_meminfo_zones fs"

section \<open>Lab 07\<close>

definition slab_keys :: "string list" where
  "slab_keys = [''task_struct'', ''mm_struct'', ''inode_cache'', ''dentry'']"

text \<open>After the first three lines, \<^verbatim>\<open>rewind\<close> goes back to the beginning of the file.\<close>

definition demo_slab_allocator :: "files \<Rightarrow> out list" where
  "demo_slab_allocator fs =
     (case fs ''/proc/slabinfo'' of
        None \<Rightarrow> [Printf ''  (need root: sudo cat /proc/slabinfo)'' []]
      | Some c \<Rightarrow> print_upto 512 3 ''  %s'' c @ [Printf ''  ...'' []]
          @ print_matching_upto 512 6 (contains_any slab_keys) ''  %s'' c)"

definition demo_buddy_allocator :: "files \<Rightarrow> out list" where
  "demo_buddy_allocator fs =
     (case fs ''/proc/buddyinfo'' of None \<Rightarrow> [Perror ''fopen''] | Some c \<Rightarrow> print_all 256 ''  %s'' c)"

definition vmstat_keys :: "string list" where
  "vmstat_keys = [''nr_free_pages'', ''nr_active_anon'', ''nr_inactive_anon'', ''nr_active_file'',
     ''nr_inactive_file'', ''pgfault'', ''pgmajfault'', ''pswpin'', ''pswpout'']"

definition demo_vmstat :: "files \<Rightarrow> out list" where
  "demo_vmstat fs =
     (case fs ''/proc/vmstat'' of None \<Rightarrow> [Perror ''fopen'']
      | Some c \<Rightarrow> print_matching 256 (starts_with_any vmstat_keys) ''  %s'' c)"

definition demo_mm_struct :: "files \<Rightarrow> out list" where
  "demo_mm_struct fs =
     with_file fs ''/proc/self/status''
       (print_matching 256 (starts_with_any [''Vm'', ''Rss'', ''Threads'']) ''  %s'')"

definition caches :: "string list" where
  "caches = [''kmalloc-64'', ''kmalloc-128'', ''kmalloc-256'']"

definition slab_path :: "string \<Rightarrow> string \<Rightarrow> string" where
  "slab_path cache attr = snprintf 256 (''/sys/kernel/slab/'' @ cache @ ''/'' @ attr)"

definition slub_cache :: "files \<Rightarrow> string \<Rightarrow> out list" where
  "slub_cache fs cache =
     with_file fs (slab_path cache ''object_size'') (\<lambda>c.
       (case fgets 64 c of None \<Rightarrow> []
        | Some (v, _) \<Rightarrow> [Printf ''  %-20s object_size=%s bytes'' [Str cache, Str (chomp v)]])
       @ with_file fs (slab_path cache ''slabs_cpu_partial'') (\<lambda>d.
           case fgets 64 d of None \<Rightarrow> []
           | Some (v, _) \<Rightarrow> [Printf ''  %-20s slabs_cpu_partial=%s'' [Str cache, Str (chomp v)]]))"

definition demo_slub_stats :: "files \<Rightarrow> out list" where
  "demo_slub_stats fs = concat (map (slub_cache fs) caches)"

definition lab07_main :: "files \<Rightarrow> out list" where
  "lab07_main fs =
     demo_slab_allocator fs @ demo_buddy_allocator fs @ demo_vmstat fs @ demo_mm_struct fs @ demo_slub_stats fs"

section \<open>Lab 12\<close>

definition demo_cmdline :: "files \<Rightarrow> out list" where
  "demo_cmdline fs = print_line fs 1024 ''/proc/cmdline'' ''  %s''"

definition boot_patterns :: "string list" where
  "boot_patterns = [''Memory:'', ''BIOS-e820:'', ''page tables'', ''kernel'', ''Zone'']"

definition demo_boot_memory :: "string option \<Rightarrow> out list" where
  "demo_boot_memory dmesg =
     (case dmesg of None \<Rightarrow> [Printf ''  (need root)'' []]
      | Some c \<Rightarrow> print_matching_upto 512 25 (contains_any boot_patterns) ''  %s'' c)"

definition demo_kernel_version :: "files \<Rightarrow> string option \<Rightarrow> out list" where
  "demo_kernel_version fs config =
     print_line fs 512 ''/proc/version'' ''  %s''
     @ (case config of
          None \<Rightarrow> [Printf ''  (/proc/config.gz not available - check /boot/config-*)'' []]
        | Some c \<Rightarrow> print_all 256 ''  %s'' c)"

definition EFI_VAR :: string where
  "EFI_VAR = ''/sys/firmware/efi/efivars/SecureBoot-8be4df61-93ca-11d2-aa0d-00e098032b8c''"

text \<open>The EFI variable: four bytes of attributes, then the value; a shorter file prints nothing.\<close>

definition secure_boot :: "files \<Rightarrow> out list" where
  "secure_boot fs =
     (case fs EFI_VAR of
        None \<Rightarrow> [Printf ''  Secure Boot EFI variable: not readable (not UEFI or no access)'' []]
      | Some c \<Rightarrow>
          (let buf = take 5 c in
           if length buf = 5
           then [Printf ''  Secure Boot: %s'' [Str (if buf ! 4 \<noteq> CHR 0x00 then ''ENABLED'' else ''DISABLED'')]]
           else []))"

definition tpm_lines :: "(string \<Rightarrow> bool) \<Rightarrow> out list" where
  "tpm_lines access =
     (if access ''/dev/tpm0'' then [Printf ''  /dev/tpm0: present (TPM2 hardware available)'' []]
      else [Printf ''  /dev/tpm0: not present (no TPM, or module not loaded)'' []])
     @ (if access ''/dev/tpmrm0'' then [Printf ''  /dev/tpmrm0: present (kernel TPM resource manager)'' []] else [])"

definition demo_kexec_tpm :: "files \<Rightarrow> (string \<Rightarrow> bool) \<Rightarrow> out list" where
  "demo_kexec_tpm fs access =
     (case fs ''/sys/kernel/kexec_loaded'' of
        None \<Rightarrow> [Printf ''  /sys/kernel/kexec_loaded: not available'' []]
      | Some c \<Rightarrow> (case fgets 8 c of None \<Rightarrow> []
          | Some (v, _) \<Rightarrow>
              [Printf ''  kexec_loaded: %s'' [Str (chomp v)],
               Printf ''  (1=kernel is loaded and ready for kexec reboot without BIOS/UEFI)'' []]))
     @ print_value fs 8 ''/sys/kernel/kexec_crash_loaded'' ''  kexec_crash_loaded: %s  (kdump kernel pre-loaded for crash capture)''
     @ tpm_lines access @ secure_boot fs"

definition lab12_main :: "files \<Rightarrow> (string \<Rightarrow> bool) \<Rightarrow> string option \<Rightarrow> string option \<Rightarrow> out list" where
  "lab12_main fs access dmesg config =
     demo_cmdline fs @ demo_boot_memory dmesg @ demo_kernel_version fs config @ demo_kexec_tpm fs access"

section \<open>Lab 16\<close>

definition policy_name :: "int \<Rightarrow> string" where
  "policy_name p =
     (if p = 0 then ''SCHED_OTHER (CFS)'' else if p = 1 then ''SCHED_FIFO'' else if p = 2 then ''SCHED_RR'' else ''UNKNOWN'')"

definition sched_field :: "string \<Rightarrow> bool" where
  "sched_field l \<longleftrightarrow>
     contains_any [''se.vruntime'', ''nr_switches'', ''prio'', ''wait_sum'', ''exec_max'', ''sum_exec_runtime'',
                   ''se.nr_migrations''] l
     \<or> starts_with ''('' l"

text \<open>The loop counts every line it reads, selected or not, and stops after twenty.\<close>

definition sched_fields :: "string \<Rightarrow> out list" where
  "sched_fields c = map (\<lambda>l. Printf ''    %s'' [Str l]) (filter sched_field (take 20 (read_lines 256 c)))"

definition sched_phase :: "files \<Rightarrow> int \<Rightarrow> out list" where
  "sched_phase fs pid =
     (case fs (proc_path 128 pid ''sched'') of
        None \<Rightarrow> [Printf ''  /proc/self/sched: not available (need kernel with CONFIG_SCHED_DEBUG)'' []]
      | Some c \<Rightarrow> Printf ''  /proc/self/sched key fields:'' [] # sched_fields c)
     @ with_file fs (proc_path 128 pid ''status'') (\<lambda>c.
         Printf ''  /proc/self/status scheduler-related fields:'' []
         # print_matching 256 (starts_with_any [''voluntary'', ''nonvoluntary'', ''Threads:'', ''SigCgt:'']) ''    %s'' c)"

definition lab16_main :: "files \<Rightarrow> int \<Rightarrow> int \<Rightarrow> int \<Rightarrow> out list" where
  "lab16_main fs pid policy nice =
     with_file fs (proc_path 128 pid ''sched'') (print_upto 256 15 ''  %s'')
     @ [Printf ''  Current policy: %s'' [Str (policy_name policy)], Printf ''  Nice value: %d'' [Num nice]]
     @ sched_phase fs pid"

section \<open>Lab 33\<close>

definition ext4_stats :: "string option \<Rightarrow> out list" where
  "ext4_stats ls =
     (case ls of None \<Rightarrow> []
      | Some c \<Rightarrow>
          Printf ''  ext4 filesystems with stats in /proc/fs/ext4/:'' []
          # (if read_lines 256 c = []
             then [Printf ''    (none -- no ext4 mounted, or /proc/fs/ext4 unavailable)'' []]
             else map (\<lambda>l. Printf ''    /proc/fs/ext4/%s/'' [Str (chomp l)]) (read_lines 256 c)))"

definition mb_groups :: "string option \<Rightarrow> out list" where
  "mb_groups out = (case out of None \<Rightarrow> []
     | Some c \<Rightarrow> Printf ''  ext4 block group info (first 5 lines of mb_groups):'' [] # print_all 256 ''    %s'' c)"

definition lab33_main :: "string option \<Rightarrow> string option \<Rightarrow> string option \<Rightarrow> string option \<Rightarrow> out list" where
  "lab33_main mounts jbd2 ls groups =
     (case mounts of None \<Rightarrow> [Printf ''  (no ext4 mounts found - check with: mount | grep ext)'' []]
      | Some c \<Rightarrow> print_all 256 ''  %s'' c)
     @ (case jbd2 of None \<Rightarrow> [] | Some c \<Rightarrow> print_upto 256 15 ''  %s'' c)
     @ ext4_stats ls @ mb_groups groups"

section \<open>Lab 34\<close>

definition selinux_status :: "files \<Rightarrow> out list" where
  "selinux_status fs =
     (case fs ''/sys/fs/selinux/enforce'' of
        None \<Rightarrow> [Printf ''  SELinux: not present (check AppArmor: cat /sys/kernel/security/apparmor/profiles)'' []]
      | Some c \<Rightarrow> (case fgets 4 c of None \<Rightarrow> []
          | Some (v, _) \<Rightarrow>
              [Printf ''  SELinux enforcing: %s''
                 [Str (if to_int (strtol (chomp v)) \<noteq> 0 then ''YES'' else ''NO (permissive/disabled)'')]]))"

definition lab34_main :: "files \<Rightarrow> int \<Rightarrow> u64 \<Rightarrow> u64 \<Rightarrow> u64 \<Rightarrow> out list" where
  "lab34_main fs pid stack heap code =
     [Printf ''  This process (PID %d) capabilities:'' [Num pid]]
     @ with_file fs (proc_path 64 pid ''status'') (print_matching 256 (starts_with ''Cap'') ''  %s'')
     @ [Printf ''    Stack address:  %p (changes each run)'' [Ptr stack],
        Printf ''    Heap address:   %p'' [Ptr heap],
        Printf ''    Code address:   %p'' [Ptr code]]
     @ selinux_status fs"

section \<open>Lab 35\<close>

definition cpu_list :: "(nat \<Rightarrow> bool) \<Rightarrow> out list" where
  "cpu_list allowed = map (\<lambda>i. Printf '' %d'' [Num (int i)]) (filter allowed [0..<16])"

definition sched_tunables :: "string list" where
  "sched_tunables = [''/proc/sys/kernel/sched_min_granularity_ns'', ''/proc/sys/kernel/sched_latency_ns'',
     ''/proc/sys/kernel/sched_migration_cost_ns'']"

text \<open>\<^verbatim>\<open>strrchr(path, '/') + 1\<close>\<close>

definition basename :: "string \<Rightarrow> string" where
  "basename path = rev (takeWhile (\<lambda>c. c \<noteq> CHR ''/'') (rev path))"

definition sched_tunable :: "files \<Rightarrow> string \<Rightarrow> out list" where
  "sched_tunable fs path =
     (case read_sysfs_str fs 64 path of None \<Rightarrow> []
      | Some v \<Rightarrow> [Printf ''  %s: %s ns'' [Str (basename path), Str v]])"

definition lab35_main :: "files \<Rightarrow> int \<Rightarrow> (nat \<Rightarrow> bool) \<Rightarrow> out list" where
  "lab35_main fs nice allowed =
     [Printf ''  Current nice: %d'' [Num nice]]
     @ print_line fs 64 ''/proc/sys/kernel/sched_min_granularity_ns'' ''  sched_min_granularity: %s''
     @ cpu_list allowed
     @ [Printf ''  Current nice value: %d'' [Num nice]]
     @ concat (map (sched_tunable fs) sched_tunables)"

section \<open>Lab 37\<close>

definition kernel_tunables :: "string list" where
  "kernel_tunables = [''ostype'', ''osrelease'', ''version'', ''hostname'', ''pid_max'', ''threads-max'',
     ''randomize_va_space'', ''panic'', ''perf_event_paranoid'', ''kptr_restrict'']"

definition kernel_tunable :: "files \<Rightarrow> string \<Rightarrow> out list" where
  "kernel_tunable fs name =
     (case read_sysfs_str fs 256 (snprintf 128 (''/proc/sys/kernel/'' @ name)) of None \<Rightarrow> []
      | Some v \<Rightarrow> [Printf ''  %-30s = %s'' [Str name, Str v]])"

definition lab37_main :: "files \<Rightarrow> out list" where
  "lab37_main fs =
     concat (map (kernel_tunable fs) kernel_tunables)
     @ print_line fs 8 ''/proc/sys/kernel/bpf_stats_enabled'' ''  bpf_stats_enabled: %s''
     @ print_value fs 8 ''/proc/sys/kernel/unprivileged_bpf_disabled'' ''  unprivileged_bpf_disabled: %s (1=only root can load BPF)''"

section \<open>What the selections show\<close>

text \<open>
  Lab 16 shows the selected fields among the first twenty lines of the scheduler file only: whatever
  the later lines say, its output is the same.
\<close>

theorem sched_window:
  assumes "short_lines 256 c" "short_lines 256 d" "take 20 (lines_of c) = take 20 (lines_of d)"
  shows "sched_fields c = sched_fields d"
  using assms by (simp add: sched_fields_def read_lines_short)

lemma basename_last: "CHR ''/'' \<notin> set name \<Longrightarrow> basename (dir @ ''/'' @ name) = name"
  by (simp add: basename_def takeWhile_append takeWhile_eq_all_conv)

definition sched_names :: "string list" where
  "sched_names = [''sched_min_granularity_ns'', ''sched_latency_ns'', ''sched_migration_cost_ns'']"

lemma sched_tunables_names: "sched_tunables = map ((@) ''/proc/sys/kernel/'') sched_names"
  by (simp add: sched_tunables_def sched_names_def)

lemma sched_tunable_named:
  "n \<in> set sched_names \<Longrightarrow> read_sysfs_str fs 64 (''/proc/sys/kernel/'' @ n) = v \<Longrightarrow>
   sched_tunable fs (''/proc/sys/kernel/'' @ n) = (case v of None \<Rightarrow> [] | Some v \<Rightarrow> [Printf ''  %s: %s ns'' [Str n, Str v]])"
  using basename_last [of n "''/proc/sys/kernel''"] by (auto simp: sched_tunable_def sched_names_def split: option.split)

lemma kernel_tunable_named:
  "n \<in> set kernel_tunables \<Longrightarrow> read_sysfs_str fs 256 (''/proc/sys/kernel/'' @ n) = v \<Longrightarrow>
   kernel_tunable fs n = (case v of None \<Rightarrow> [] | Some v \<Rightarrow> [Printf ''  %-30s = %s'' [Str n, Str v]])"
  by (auto simp: kernel_tunable_def kernel_tunables_def)

lemma concat_map_eq: "(\<And>x. x \<in> set xs \<Longrightarrow> f x = g x) \<Longrightarrow> concat (map f xs) = concat (map g xs)"
  by (metis map_eq_conv)

text \<open>
  Labs 35 and 37 read their tunables alike: where each file has one short line, every tunable that
  exists is printed once, in the order of the table, with its name and its value.
\<close>

theorem tunables_listed:
  assumes "\<And>n. fs (''/proc/sys/kernel/'' @ n) = map_option (\<lambda>t. t @ [NL]) (val n)"
    and "\<And>n t. val n = Some t \<Longrightarrow> NL \<notin> set t \<and> length t < 63"
  shows "concat (map (kernel_tunable fs) kernel_tunables) =
           map (\<lambda>n. Printf ''  %-30s = %s'' [Str n, Str (the (val n))]) (filter (\<lambda>n. val n \<noteq> None) kernel_tunables) \<and>
         concat (map (sched_tunable fs) sched_tunables) =
           map (\<lambda>n. Printf ''  %s: %s ns'' [Str n, Str (the (val n))]) (filter (\<lambda>n. val n \<noteq> None) sched_names)"
proof -
  have r: "read_sysfs_str fs k (''/proc/sys/kernel/'' @ n) = val n" if "64 \<le> k" for k n
    using assms(2) [of n] that by (intro read_sysfs_opt assms(1)) force
  have "concat (map (kernel_tunable fs) kernel_tunables) =
      concat (map (\<lambda>n. case val n of None \<Rightarrow> [] | Some v \<Rightarrow> [Printf ''  %-30s = %s'' [Str n, Str v]]) kernel_tunables)"
    by (intro concat_map_eq kernel_tunable_named r) simp_all
  moreover have "concat (map (sched_tunable fs) sched_tunables) =
      concat (map (\<lambda>n. case val n of None \<Rightarrow> [] | Some v \<Rightarrow> [Printf ''  %s: %s ns'' [Str n, Str v]]) sched_names)"
    unfolding sched_tunables_names map_map comp_def by (intro concat_map_eq sched_tunable_named r) simp_all
  ultimately show ?thesis unfolding skip_missing by blast
qed

end
