(* ===== verification/CloudLabs.thy ===== *)
theory CloudLabs
  imports SystemInfo PcArch
begin

text \<open>
  Labs 38 and 39 (\<^verbatim>\<open>lab_38_virtualization.c\<close>, \<^verbatim>\<open>lab_39_cloud_compute.c\<close>): detection of a hypervisor with
  the \<^verbatim>\<open>cpuid\<close> instruction, and the resource limits of the control group the process is in. The
  properties relate what is printed to what the processor and the kernel present.
\<close>

unbundle bit_operations_syntax

section \<open>Lab 38\<close>

definition hypervisor_phase :: "cpuid_fn \<Rightarrow> out list" where
  "hypervisor_phase cpuid =
     (let in_vm = ecx (cpuid 1) AND push_bit 31 1 in
      if in_vm \<noteq> 0
      then (let r = cpuid 0x40000000 in
            [Printf ''  CPUID hypervisor bit: %s'' [Str ''SET (running in VM)''],
             Printf ''  Hypervisor: %s'' [Str (c_string (reg_bytes (ebx r) @ reg_bytes (ecx r) @ reg_bytes (edx r)))]])
      else [Printf ''  CPUID hypervisor bit: %s'' [Str ''NOT SET (bare metal likely)'']])"

definition lab38_main :: "cpuid_fn \<Rightarrow> files \<Rightarrow> string option \<Rightarrow> out list" where
  "lab38_main cpuid fs groups =
     hypervisor_phase cpuid
     @ (case fs ''/dev/kvm'' of
          None \<Rightarrow> [Printf ''  /dev/kvm not present (may need modprobe kvm).'' []]
        | Some _ \<Rightarrow> [Printf ''  /dev/kvm present - KVM available.'' []])
     @ (case fs ''/dev/vfio/vfio'' of
          None \<Rightarrow> [Printf ''  /dev/vfio/vfio not present (modprobe vfio vfio_pci to enable)'' []]
        | Some _ \<Rightarrow> [Printf ''  /dev/vfio/vfio present -- VFIO module loaded'' []])
     @ (case Option.bind groups (fgets 16) of None \<Rightarrow> []
        | Some (v, _) \<Rightarrow> [Printf ''  IOMMU groups: %s (0 = IOMMU disabled or passthrough mode)'' [Str (chomp v)]])"

section \<open>Lab 39\<close>

definition or_else :: "files \<Rightarrow> string \<Rightarrow> string \<Rightarrow> string option" where
  "or_else fs p q = (case fs p of None \<Rightarrow> fs q | Some c \<Rightarrow> Some c)"

definition cgroup_phase1 :: "files \<Rightarrow> out list" where
  "cgroup_phase1 fs =
     with_file fs ''/proc/self/cgroup'' (print_all 256 ''  %s'')
     @ (case or_else fs ''/sys/fs/cgroup/memory.max'' ''/sys/fs/cgroup/memory/memory.limit_in_bytes'' of
          None \<Rightarrow> []
        | Some c \<Rightarrow> (case fgets 64 c of None \<Rightarrow> [] | Some (l, _) \<Rightarrow> [Printf ''    memory.max: %s'' [Str l]]))"

definition namespaces :: "string list" where
  "namespaces = [''cgroup'', ''ipc'', ''mnt'', ''net'', ''pid'', ''user'', ''uts'']"

definition ns_phase :: "(string \<Rightarrow> u64 option) \<Rightarrow> out list" where
  "ns_phase stat_ino =
     concat (map (\<lambda>ns. case stat_ino (snprintf 128 (''/proc/self/ns/'' @ ns)) of None \<Rightarrow> []
       | Some i \<Rightarrow> [Printf ''    %s: inode=%lu'' [Str ns, Num (uint i)]]) namespaces)"

text \<open>One line of \<^verbatim>\<open>/proc/self/cgroup\<close>: the variable \<^verbatim>\<open>cgpath\<close> and the output so far.\<close>

definition cg_line :: "string \<Rightarrow> string \<times> out list \<Rightarrow> string \<times> out list" where
  "cg_line l s =
     (if starts_with ''0::'' l
      then (let cgpath = chomp (drop 3 l) in (cgpath, snd s @ [Printf ''  cgroup v2 path: %s'' [Str cgpath]]))
      else s)"

definition cg_path :: "files \<Rightarrow> string \<times> out list" where
  "cg_path fs =
     (case fs ''/proc/self/cgroup'' of None \<Rightarrow> ([], [])
      | Some c \<Rightarrow> fold cg_line (read_lines 256 c) ([], []))"

definition cg_file :: "string \<Rightarrow> string \<Rightarrow> string" where
  "cg_file cgpath name = snprintf 640 (''/sys/fs/cgroup'' @ cgpath @ ''/'' @ name)"

definition memory_limit :: "files \<Rightarrow> string \<Rightarrow> out list" where
  "memory_limit fs cgpath =
     (case Option.bind (or_else fs (cg_file cgpath ''memory.max'') ''/sys/fs/cgroup/memory.max'') (fgets 64) of
        None \<Rightarrow> []
      | Some (l, _) \<Rightarrow>
          (let val = chomp l in
           if val = ''max'' then [Printf ''  memory.max: max (unlimited -- not in a limited container)'' []]
           else [Printf ''  memory.max: %s bytes (~%.0f MiB)'' [Str val, Dbl (real_of_int (strtol val) / (1024 * 1024))]]))"

definition pids_limit :: "files \<Rightarrow> string \<Rightarrow> out list" where
  "pids_limit fs cgpath =
     (case Option.bind (or_else fs (cg_file cgpath ''pids.max'') ''/sys/fs/cgroup/pids.max'') (fgets 32) of
        None \<Rightarrow> []
      | Some (l, _) \<Rightarrow> [Printf ''  pids.max: %s (container fork-bomb protection)'' [Str (chomp l)]])"

definition cgroup_phase5 :: "files \<Rightarrow> out list" where
  "cgroup_phase5 fs =
     (let cg = cg_path fs in snd cg @ memory_limit fs (fst cg) @ pids_limit fs (fst cg))"

definition lab39_main :: "files \<Rightarrow> (string \<Rightarrow> u64 option) \<Rightarrow> out list" where
  "lab39_main fs stat_ino = cgroup_phase1 fs @ ns_phase stat_ino @ cgroup_phase5 fs"

section \<open>The hypervisor\<close>

lemma bit31: "(w :: u32) AND 2147483648 = 0 \<longleftrightarrow> \<not> bit w 31"
  using and_exp_eq_0_iff_not_bit [of w 31] by simp

text \<open>
  Lab 38 reports a hypervisor exactly if the processor sets bit 31, and then prints the name the
  hypervisor packs into three registers (in an order other than that of the vendor string of lab 02),
  in agreement with the test of lab 02.
\<close>

theorem hypervisor_identity:
  assumes "length v = 12" "CHR 0x00 \<notin> set v"
    and "ebx (cpuid 0x40000000) = pack4 (take 4 v)" "ecx (cpuid 0x40000000) = pack4 (take 4 (drop 4 v))"
      "edx (cpuid 0x40000000) = pack4 (drop 8 v)"
  shows "hypervisor_phase cpuid =
    (if bit (ecx (cpuid 1)) 31
     then [Printf ''  CPUID hypervisor bit: %s'' [Str ''SET (running in VM)''], Printf ''  Hypervisor: %s'' [Str v]]
     else [Printf ''  CPUID hypervisor bit: %s'' [Str ''NOT SET (bare metal likely)'']])"
  using twelve_bytes [OF assms(1)] assms(2-)
  by (simp add: hypervisor_phase_def Let_def bit31 c_string_id)

section \<open>The limit of the control group\<close>

lemma is_digit_not_NL: "is_digit c \<Longrightarrow> c \<noteq> NL"
  by (auto simp: is_digit_def NL_def)

lemma show_int_no_NL: "NL \<notin> set (show_int i)"
proof -
  have "NL \<notin> set (show_nat n)" for n
    using show_nat_digits [of n] is_digit_not_NL by (auto simp: list_all_iff)
  then show ?thesis by (simp add: show_int_def NL_def)
qed

lemma length_show_long:
  assumes "0 \<le> i" "i \<le> LONG_MAX"
  shows "length (show_int i) \<le> 19"
proof -
  have "nat i < 10 ^ 19" using assms by (simp add: src_consts)
  from length_show_nat [OF this] show ?thesis using assms(1) by (simp add: show_int_def)
qed

lemma cg_path_v2:
  assumes "fs ''/proc/self/cgroup'' = Some (''0::'' @ p @ [NL])" "NL \<notin> set p" "length p < 252"
  shows "cg_path fs = (p, [Printf ''  cgroup v2 path: %s'' [Str p]])"
proof -
  have "NL \<notin> set (''0::'' @ p)" using assms(2) by (simp add: NL_def)
  from fgets_line [OF this, of 256 "[]"] assms(3) have "read_lines 256 (''0::'' @ p @ [NL]) = [''0::'' @ p @ [NL]]"
    by (subst read_lines.simps) simp
  then show ?thesis using assms(1,2) by (simp add: cg_path_def cg_line_def starts_with_def)
qed

text \<open>
  In a control group of the unified hierarchy, lab 39 prints the group's path and then the group's own
  limit, as the file has it and converted to MiB, whatever limit the root of the hierarchy has; phase 1
  prints the limit of the root instead, if there is one.
\<close>

theorem cgroup_limit:
  assumes "fs ''/proc/self/cgroup'' = Some (''0::'' @ p @ [NL])" "NL \<notin> set p" "length p < 252"
    and "fs (''/sys/fs/cgroup'' @ p @ ''/memory.max'') = Some (show_int b @ [NL])" "0 \<le> b" "b \<le> LONG_MAX"
  shows "\<exists>rest. cgroup_phase5 fs =
    Printf ''  cgroup v2 path: %s'' [Str p]
    # Printf ''  memory.max: %s bytes (~%.0f MiB)'' [Str (show_int b), Dbl (real_of_int b / 1048576)] # rest"
proof -
  have f: "fgets 64 (show_int b @ [NL]) = Some (show_int b @ [NL], [])"
    using fgets_line [OF show_int_no_NL, of b 64 "[]"] length_show_long [OF assms(5,6)] by simp
  have "show_int b \<noteq> ''max''"
    using scan_int_show [of "[]" "[]" b] by (auto simp: scan_int_def is_space_def scan_unsigned_def is_digit_def)
  moreover have "strtol (show_int b) = b" using assms(5,6) by (intro strtol_show) (simp add: src_consts)
  moreover have "cg_file p ''memory.max'' = ''/sys/fs/cgroup'' @ p @ ''/memory.max''"
    using assms(3) by (simp add: cg_file_def)
  ultimately have "memory_limit fs p =
      [Printf ''  memory.max: %s bytes (~%.0f MiB)'' [Str (show_int b), Dbl (real_of_int b / 1048576)]]"
    using assms(4) f show_int_no_NL [of b] by (simp add: memory_limit_def or_else_def)
  then show ?thesis using cg_path_v2 [of fs p] assms(1-3) by (simp add: cgroup_phase5_def)
qed

end
