(* ===== verification/Atomicity.thy ===== *)
theory Atomicity
  imports Counters Locks LockVariations
begin

text \<open>
  Locks make increments atomic. The workers of labs 19, 20 and 21 read, add and write in separate
  steps under a lock; the counter of lab 18 is incremented by a single \<^verbatim>\<open>atomic_fetch_add\<close>. The theory
  shows that the former refine the latter: seen through one cell, a run of the locked workers is a run
  of the atomic counter in which the increment happens when the new value is stored.
\<close>

section \<open>Mutexes and spinlocks\<close>

definition abs_cell :: "(nat \<Rightarrow> nat) \<Rightarrow> nat \<Rightarrow> lw_state \<Rightarrow> safe_state" where
  "abs_cell cell_of c s =
     \<lparr>counter_safe = cells s c, s_i = (\<lambda>t. stored cell_of c (lw_i s t) (lw_pcs s t))\<rparr>"

lemma abs_cell_init: "abs_cell cell_of c lw_init = safe_init"
  by (simp add: abs_cell_def lw_init_def safe_init_def stored_def)

lemma stored_le: "stored cell_of c i LwIdle \<le> i"
  using card_mono [of "{..<i}" "{j. j < i \<and> cell_of j = c}"] by (auto simp: stored_def)

lemma abs_cell_same:
  assumes "cells s' c = cells s c" and "\<And>t. stored cell_of c (lw_i s' t) (lw_pcs s' t) = stored cell_of c (lw_i s t) (lw_pcs s t)"
  shows "abs_cell cell_of c s' = abs_cell cell_of c s"
  using assms by (simp add: abs_cell_def)

context cell_locks
begin

lemma store_increments:
  assumes inv: "lw_inv T n lock_of cell_of s" and t: "t < T" "lw_pcs s t = LwRead v"
    and c: "cell_of (lw_i s t) = c"
  shows "safe_inc T n (abs_cell cell_of c s)
    (abs_cell cell_of c (s\<lparr>cells := (cells s)(cell_of (lw_i s t) := v + 1), lw_pcs := (lw_pcs s)(t := LwStored)\<rparr>))"
    (is "safe_inc _ _ ?a ?b")
proof -
  have "v = cells s c" "lw_i s t < n" using inv t c by (auto simp: lw_inv_def lw_fresh_def lw_loops_def)
  then have "?b = ?a\<lparr>counter_safe := counter_safe ?a + 1, s_i := (s_i ?a)(t := Suc (s_i ?a t))\<rparr>"
    using t c by (auto simp: abs_cell_def stored_store stored_idle)
  moreover have "s_i ?a t < n"
    using stored_le [of cell_of c "lw_i s t"] t \<open>lw_i s t < n\<close> by (simp add: abs_cell_def stored_idle)
  ultimately show ?thesis using t safe_inc.fetch_add [of t T ?a n] by simp
qed

lemma cell_simulated:
  assumes inv: "lw_inv T n lock_of cell_of s" and "lw_step T n lock_of cell_of s s'"
  shows "abs_cell cell_of c s' = abs_cell cell_of c s \<or> safe_inc T n (abs_cell cell_of c s) (abs_cell cell_of c s')"
  using assms(2)
proof cases
  case (store t v)
  show ?thesis
  proof (cases "cell_of (lw_i s t) = c")
    case True
    then show ?thesis using store_increments [OF inv store(2,3)] store(1) by blast
  next
    case False
    then show ?thesis using store by (intro disjI1 abs_cell_same) (auto simp: stored_store stored_idle)
  qed
qed (auto intro!: disjI1 abs_cell_same simp: stored_idle stored_release)

end

sublocale cell_locks \<subseteq> atomic: refining_system lw_init "lw_step T n lock_of cell_of"
  "lw_inv T n lock_of cell_of" "abs_cell cell_of c" "safe_inc T n" for T n c
  by unfold_locales (rule cell_simulated)

section \<open>The read-write lock\<close>

definition abs_rw :: "rw_state \<Rightarrow> safe_state" where
  "abs_rw s = \<lparr>counter_safe = LockVariations.shared_data s,
     s_i = (\<lambda>t. wr_i s t + (if wr_pcs s t = WrStored then 1 else 0))\<rparr>"

lemma abs_rw_init: "abs_rw rw_init = safe_init"
  by (simp add: abs_rw_def rw_init_def safe_init_def)

lemma reader_invisible: "reader R n s s' \<Longrightarrow> abs_rw s' = abs_rw s"
  by (erule reader.cases) (simp_all add: abs_rw_def)

lemma writer_simulated:
  assumes inv: "rw_inv R n W m s" and "writer W m s s'"
  shows "abs_rw s' = abs_rw s \<or> safe_inc W m (abs_rw s) (abs_rw s')"
  using assms(2)
proof cases
  case (wrstore t v)
  have "v = LockVariations.shared_data s" "wr_i s t < m"
    using inv wrstore by (auto simp: rw_inv_def rw_data_def rw_loops_def)
  then have "abs_rw s' = (abs_rw s)\<lparr>counter_safe := counter_safe (abs_rw s) + 1,
      s_i := (s_i (abs_rw s))(t := Suc (s_i (abs_rw s) t))\<rparr>" "s_i (abs_rw s) t < m"
    using wrstore by (auto simp: abs_rw_def)
  then show ?thesis using wrstore(2) safe_inc.fetch_add [of t W "abs_rw s" m] by simp
qed (auto simp: abs_rw_def)

interpretation rw_atomic: refining_system rw_init "rw_step R n W m" "rw_inv R n W m" abs_rw "safe_inc W m"
  for R n W m
  by unfold_locales (auto simp: rw_step_def dest: reader_invisible writer_simulated)

section \<open>Properties\<close>

text \<open>
  C10. The locks of labs 19, 20 and 21 make read-modify-write sequences atomic. Whatever the schedule,
  the counter behind the mutex or the spinlock, every bucket of the coarsely and of the finely locked
  table, and the data behind the read-write lock go through the states of the atomic counter of lab 18
  with as many threads and iterations, one \<^verbatim>\<open>atomic_fetch_add\<close> for each store.
\<close>

theorem locks_refine_atomic:
  "(mutex_worker\<^sup>*\<^sup>* lw_init s \<or> spin_worker\<^sup>*\<^sup>* lw_init s \<longrightarrow>
      (safe_inc 4 ITERS)\<^sup>*\<^sup>* safe_init (abs_cell (\<lambda>i. 0) 0 s)) \<and>
   (coarse_worker\<^sup>*\<^sup>* lw_init s \<or> fine_worker\<^sup>*\<^sup>* lw_init s \<longrightarrow>
      (safe_inc 4 NITEMS)\<^sup>*\<^sup>* safe_init (abs_cell (\<lambda>i. i mod NBUCKETS) b s)) \<and>
   (rw_phase\<^sup>*\<^sup>* rw_init r \<longrightarrow> (safe_inc 2 (RW_ITERS div 10))\<^sup>*\<^sup>* safe_init (abs_rw r))"
  using one_lock.atomic.refines [of 4 ITERS s 0] coarse.atomic.refines [of 4 NITEMS s b]
    fine.atomic.refines [of 4 NITEMS s b] rw_atomic.refines [of 4 RW_ITERS 2 "RW_ITERS div 10" r]
  unfolding mutex_worker_def spin_worker_def coarse_worker_def fine_worker_def rw_phase_def
    abs_cell_init abs_rw_init by blast

theorem locks_refine_atomic_witness:
  "\<exists>e. lw_joined 4 ITERS e \<and> (safe_inc 4 ITERS)\<^sup>*\<^sup>* safe_init (abs_cell (\<lambda>i. 0) 0 e)
       \<and> counter_safe (abs_cell (\<lambda>i. 0) 0 e) = 8000000"
proof -
  obtain e where e: "spin_worker\<^sup>*\<^sup>* lw_init e" "lw_joined 4 ITERS e"
    using one_lock.lw.reaches_end [of 4 ITERS lw_init] unfolding spin_worker_def by blast
  moreover have "cells e 0 = 8000000"
    using one_lock.final_cells [of 4 ITERS e 0] e by (simp add: spin_worker_def ITERS_def)
  ultimately show ?thesis using locks_refine_atomic [of e 0 rw_init] by (auto simp: abs_cell_def)
qed

end
