(* ===== verification/StackRefinement.thy ===== *)
theory StackRefinement
  imports LockFree
begin

text \<open>
  The pushes of lab 24 as atomic operations. The abstract stack is a list of values on which a thread
  puts its next value in a single step; the lock-free program allocates a node, loads the top, links
  the node and exchanges the top, and repeats the last three when the exchange fails. The theory shows
  that the program refines the abstract stack, the successful exchange being the moment at which
  the push takes effect.
\<close>

section \<open>The abstract stack\<close>

text \<open>The values in the stack and, for each thread, those it has still to push.\<close>

type_synonym astack = "int list option \<times> (tid \<Rightarrow> int list)"

inductive astack_step :: "nat \<Rightarrow> astack \<Rightarrow> astack \<Rightarrow> bool" for T where
  atomic_push: "t < T \<Longrightarrow> rest t = v # vs \<Longrightarrow> astack_step T (Some xs, rest) (Some (v # xs), rest(t := vs))"

definition astack_start :: "nat \<Rightarrow> astack" where
  "astack_start n = (Some [], \<lambda>_. map int [0..<n])"

section \<open>What a state of the program represents\<close>

text \<open>The values along the links from an address; \<open>None\<close> for a dangling or cyclic list.\<close>

partial_function (option) stack_items :: "(nat \<rightharpoonup> node_t) \<Rightarrow> nat \<Rightarrow> int list option" where
  "stack_items h p =
     (if p = 0 then Some []
      else case h p of None \<Rightarrow> None
         | Some nd \<Rightarrow> Option.bind (stack_items h (nxt nd)) (\<lambda>xs. Some (val nd # xs)))"

fun in_hand :: "(nat \<rightharpoonup> node_t) \<Rightarrow> lf_pc \<Rightarrow> int list" where
  "in_hand h (PushLoad n) = [val (the (h n))]"
| "in_hand h (PushCas n _) = [val (the (h n))]"
| "in_hand h _ = []"

definition abs_stack :: "lf_state \<Rightarrow> astack" where
  "abs_stack s = (stack_items (heap s) (stack_top s), \<lambda>t. in_hand (heap s) (lf_pcs s t) @ op_vals (lf_ops s t))"

lemma stack_items_chain: "chain h p as \<Longrightarrow> stack_items h p = Some (vals h as)"
proof (induction as arbitrary: p)
  case Nil
  then show ?case by (simp add: stack_items.simps vals_def)
next
  case (Cons a as)
  then obtain nd where "p = a" "a \<noteq> 0" "h a = Some nd" "chain h (nxt nd) as" by (auto split: option.splits)
  with Cons.IH show ?case by (subst stack_items.simps) (simp add: vals_def)
qed

lemma in_hand_cong: "(\<And>a. a \<in> own_node pc \<Longrightarrow> val (the (h' a)) = val (the (h a))) \<Longrightarrow> in_hand h' pc = in_hand h pc"
  by (cases pc) auto

lemma abs_stack_start: "abs_stack (lf_start n) = astack_start n"
  by (simp add: abs_stack_def lf_start_def astack_start_def stack_items.simps)

section \<open>Simulation\<close>

text \<open>Steps that leave the values of the nodes alone and move a value from the program into the hand.\<close>

lemma abs_stack_same:
  assumes "chain (heap s) (stack_top s) as" "chain (heap s') (stack_top s') as" "vals (heap s') as = vals (heap s) as"
    and "\<And>u. in_hand (heap s') (lf_pcs s' u) @ op_vals (lf_ops s' u) = in_hand (heap s) (lf_pcs s u) @ op_vals (lf_ops s u)"
  shows "abs_stack s' = abs_stack s"
  using assms by (simp add: abs_stack_def stack_items_chain)

lemma swap_pushes:
  assumes inv: "chain (heap s) (stack_top s) as" "lf_private s as" "lf_vals T n s as" "t < T"
    and st: "lf_pcs s t = PushCas m (stack_top s)"
    and s': "s' = s\<lparr>stack_top := m, lf_pcs := (lf_pcs s)(t := Idle)\<rparr>"
  shows "astack_step T (abs_stack s) (abs_stack s')"
proof -
  have "chain (heap s') (stack_top s') (m # as)" using push_inv_swap [OF inv st s'] by blast
  then have items: "stack_items (heap s') (stack_top s') = Some (val (the (heap s m)) # vals (heap s) as)"
    using s' by (simp only: stack_items_chain) (simp add: vals_def)
  define td where "td = (\<lambda>u. in_hand (heap s) (lf_pcs s u) @ op_vals (lf_ops s u))"
  have "td t = val (the (heap s m)) # op_vals (lf_ops s t)" by (simp add: td_def st)
  then have "astack_step T (Some (vals (heap s) as), td)
      (Some (val (the (heap s m)) # vals (heap s) as), td(t := op_vals (lf_ops s t)))"
    using inv(4) by (rule atomic_push [rotated])
  moreover have "abs_stack s = (Some (vals (heap s) as), td)"
    by (simp add: abs_stack_def td_def stack_items_chain [OF inv(1)])
  moreover have "abs_stack s' = (Some (val (the (heap s m)) # vals (heap s) as), td(t := op_vals (lf_ops s t)))"
    unfolding abs_stack_def items by (auto simp: s' td_def)
  ultimately show ?thesis by simp
qed

lemma retry_invisible:
  "lf_pcs s t = PushCas m old \<Longrightarrow> abs_stack (s\<lparr>lf_pcs := (lf_pcs s)(t := PushLoad m)\<rparr>) = abs_stack s"
  by (auto simp: abs_stack_def)

lemma push_simulated:
  assumes "lf_inv T n s" "push t s s'" "t < T"
  shows "abs_stack s' = abs_stack s \<or> astack_step T (abs_stack s) (abs_stack s')"
proof -
  obtain as where inv: "chain (heap s) (stack_top s) as" "lf_private s as" "lf_vals T n s as"
    using assms(1) by (auto simp: lf_inv_def)
  show ?thesis
    using assms(2)
  proof cases
    case (push_alloc v r a x)
    note fresh = priv_fresh [OF inv(2) push_alloc(5)]
    have "chain (heap s') (stack_top s') as" using push_inv_alloc [OF inv push_alloc(2-5,1)] by blast
    moreover have "vals (heap s') as = vals (heap s) as"
      using fresh(1) push_alloc(1) by (auto intro!: vals_cong)
    moreover have "in_hand (heap s') (lf_pcs s' u) @ op_vals (lf_ops s' u) = in_hand (heap s) (lf_pcs s u) @ op_vals (lf_ops s u)" for u
      using push_alloc fresh(2) [of u] by (auto intro!: in_hand_cong)
    ultimately show ?thesis using abs_stack_same [OF inv(1)] by blast
  next
    case (push_load m nd)
    note m = priv_own [OF inv(2), of m t]
    have "chain (heap s') (stack_top s') as" using push_inv_load [OF inv push_load(2,3,1)] by blast
    moreover have "vals (heap s') as = vals (heap s) as"
      using m push_load(1,2) by (auto intro!: vals_cong)
    moreover have "in_hand (heap s') (lf_pcs s' u) @ op_vals (lf_ops s' u) = in_hand (heap s) (lf_pcs s u) @ op_vals (lf_ops s u)" for u
      using push_load by (auto intro!: in_hand_cong)
    ultimately show ?thesis using abs_stack_same [OF inv(1)] by blast
  next
    case (push_swap m old)
    then show ?thesis using swap_pushes [OF inv assms(3) _ push_swap(1)] by simp
  next
    case (push_retry m old)
    then show ?thesis using retry_invisible by blast
  qed
qed

interpretation lf_atomic: refining_system "lf_start n" "lf_any T" "lf_inv T n" abs_stack "astack_step T" for T n
proof
  fix s s' assume inv: "lf_inv T n s" and "lf_any T s s'"
  then consider "lf_step T s s'" | "cas_spurious T s s'" by (auto simp: lf_any_def)
  then show "abs_stack s' = abs_stack s \<or> astack_step T (abs_stack s) (abs_stack s')"
  proof cases
    case 1
    then show ?thesis using lf_step_push [OF inv] push_simulated [OF inv] by blast
  next
    case 2
    have "lf_pcs s t \<noteq> PopCas old k" for t old k
    proof -
      have "lf_pcs s t \<in> {Idle} \<union> range PushLoad \<union> {PushCas n old | n old. True}"
        using inv by (simp add: lf_inv_def push_only_def)
      then show ?thesis by auto
    qed
    with 2 show ?thesis by cases (auto dest: retry_invisible)
  qed
qed

text \<open>
  C14. The pushes of the lock-free stack are atomic: whatever the interleaving of the four threads, weak
  exchanges failing at any time included, the links from the top form a proper list, and this list with
  the values not yet pushed is a state of the abstract stack on which each thread pushes
  \<open>0, 1, ..., 99999\<close> in this order, one value per step; when the threads have finished nothing is left
  to push.
\<close>

theorem lockfree_linearizable:
  assumes "(lf_any 4)\<^sup>*\<^sup>* (lf_start 100000) s"
  shows "(astack_step 4)\<^sup>*\<^sup>* (astack_start 100000) (abs_stack s)
    \<and> (\<exists>xs. stack_items (heap s) (stack_top s) = Some xs)
    \<and> (lf_joined 4 s \<longrightarrow> (\<forall>t<4. snd (abs_stack s) t = []))"
proof -
  have "lf_inv 4 100000 s" by (rule lf_weak.inv_reachable) fact
  then obtain as where "chain (heap s) (stack_top s) as" by (auto simp: lf_inv_def)
  moreover have "lf_joined 4 s \<Longrightarrow> \<forall>t<4. snd (abs_stack s) t = []" by (simp add: abs_stack_def lf_joined_def)
  ultimately show ?thesis
    using lf_atomic.refines [OF assms, unfolded abs_stack_start] stack_items_chain by blast
qed

theorem lockfree_linearizable_witness:
  "\<exists>s. lf_joined 4 s \<and> (astack_step 4)\<^sup>*\<^sup>* (astack_start 100000) (abs_stack s) \<and> snd (abs_stack s) 0 = []"
proof -
  obtain e where e: "(lf_step 4)\<^sup>*\<^sup>* (lf_start 100000) e" "lf_joined 4 e" using lf.reaches_end by blast
  then have "(lf_any 4)\<^sup>*\<^sup>* (lf_start 100000) e"
    by (auto elim!: mono_rtranclp [rule_format, rotated] simp: lf_any_def)
  with e(2) show ?thesis using lockfree_linearizable [of e] by auto
qed

end
