(* ===== verification/PrintfTypes.thy ===== *)
theory PrintfTypes
  imports PageCache Locks LockVariations CondVar SemBuffer LockFree Rcu Futex ContextSwitch MemoryLabs Traps
    CrashRecovery AddressSpaces Processes X86Calling CloudLabs
begin

text \<open>
  Format strings and their arguments, for all programs. \<^verbatim>\<open>printf\<close> takes its arguments by the
  directives of its format; an argument of another kind, or a missing one, is undefined behaviour that
  the C type system does not exclude. The theory reads the directives of a format, says when an
  output event is well typed, and shows it for everything the programs print. The width of an integer
  argument is not part of the model of output events, so \<^verbatim>\<open>%d\<close> and \<^verbatim>\<open>%ld\<close> are not told apart.
\<close>

section \<open>Formats\<close>

text \<open>What a conversion takes: an integer, text (\<^verbatim>\<open>%c\<close> shows a text of one character), a pointer or a double.\<close>

datatype arg_kind = KNum | KStr | KPtr | KDbl

fun kind_of :: "arg \<Rightarrow> arg_kind" where
  "kind_of (Num _) = KNum"
| "kind_of (Str _) = KStr"
| "kind_of (Ptr _) = KPtr"
| "kind_of (Dbl _) = KDbl"

definition conversion :: "char \<Rightarrow> arg_kind option" where
  "conversion c =
     (if c \<in> set ''diouxX'' then Some KNum
      else if c \<in> set ''sc'' then Some KStr
      else if c = CHR ''p'' then Some KPtr
      else if c \<in> set ''feg'' then Some KDbl
      else None)"

text \<open>
  The arguments a format asks for, \<open>None\<close> if a directive is malformed or unknown. The flag tells
  whether a per cent sign has been read; flags, width, precision and length modifiers follow it, a
  star takes an integer argument, and the conversion ends it.
\<close>

fun kinds :: "bool \<Rightarrow> string \<Rightarrow> arg_kind list option" where
  "kinds False [] = Some []"
| "kinds True [] = None"
| "kinds False (c # s) = kinds (c = CHR ''%'') s"
| "kinds True (c # s) =
     (if c = CHR ''%'' then kinds False s
      else if c \<in> set ''-+ #0123456789.hlzj'' then kinds True s
      else if c = CHR ''*'' then map_option ((#) KNum) (kinds True s)
      else case conversion c of None \<Rightarrow> None | Some k \<Rightarrow> map_option ((#) k) (kinds False s))"

text \<open>An event is well typed if its arguments are those its format asks for.\<close>

fun out_ok :: "out \<Rightarrow> bool" where
  "out_ok (Printf f as) \<longleftrightarrow> kinds False f = Some (map kind_of as)"
| "out_ok (Eprintf f as) \<longleftrightarrow> kinds False f = Some (map kind_of as)"
| "out_ok (Perror _) \<longleftrightarrow> True"

abbreviation outs_ok :: "out list \<Rightarrow> bool" where
  "outs_ok \<equiv> list_all out_ok"

fun run_ok :: "run \<Rightarrow> bool" where
  "run_ok (Inl os) = outs_ok os"
| "run_ok (Inr os) = outs_ok os"

fun trap_ok :: "trap_run \<Rightarrow> bool" where
  "trap_ok (Inl s) = outs_ok (t_out s)"
| "trap_ok (Inr s) = outs_ok (t_out s)"

section \<open>Print loops and runs\<close>

named_theorems fmt \<open>rules that compute the directives of formats and pass through the print loops\<close>

declare conversion_def [fmt] list.pred_map [fmt] list.pred_True [fmt] comp_def [fmt] Let_def [fmt]

lemma outs_ok_concat [fmt]: "outs_ok (concat oss) \<longleftrightarrow> list_all outs_ok oss"
  by (induction oss) auto

lemma outs_ok_concat_map: "(\<And>x. x \<in> set xs \<Longrightarrow> outs_ok (f x)) \<Longrightarrow> outs_ok (concat (map f xs))"
  by (auto simp: list_all_iff)

lemma print_loops_ok [fmt]:
  assumes "kinds False fmt = Some [KStr]"
  shows "outs_ok (print_matching n sel fmt c)" "outs_ok (print_first n sel fmt c)"
    "outs_ok (print_upto n k fmt c)" "outs_ok (print_matching_upto n k sel fmt c)"
    "outs_ok (print_line fl n path fmt)" "outs_ok (print_value fl n path fmt)"
    "outs_ok (sysfs_line fl n path fmt)"
  using assms
  by (auto simp: print_matching_def print_first_def print_upto_def print_matching_upto_def print_line_def
      print_value_def sysfs_line_def with_file_def list_all_iff split: option.split)

lemma with_file_ok [fmt]: "(\<And>c. fl path = Some c \<Longrightarrow> outs_ok (body c)) \<Longrightarrow> outs_ok (with_file fl path body)"
  by (simp add: with_file_def split: option.split)

lemma fork_wait_ok [fmt]: "outs_ok (snd (child p)) \<Longrightarrow> outs_ok (parent p) \<Longrightarrow> outs_ok (fork_wait lb pid p child parent)"
  by (simp add: fork_wait_def)

lemma run_then_ok [fmt]: "run_ok a \<Longrightarrow> run_ok b \<Longrightarrow> run_ok (run_then a b)"
  by (cases a; cases b) (simp_all add: run_then_def)

section \<open>Labs that show what the system reports\<close>

lemma lab04_ok: "outs_ok (lab04_main fl r)"
  by (simp add: lab04_main_def lab04_iomem_def demo_ioports_def demo_segments_def demo_meminfo_zones_def fmt
      split: option.split)

lemma lab07_ok: "outs_ok (lab07_main fl)"
  by (simp add: lab07_main_def demo_slab_allocator_def demo_buddy_allocator_def demo_vmstat_def demo_mm_struct_def
      demo_slub_stats_def slub_cache_def fmt split: option.split prod.split)

lemma lab12_ok: "outs_ok (lab12_main fl acc dmesg config)"
  by (simp add: lab12_main_def demo_cmdline_def demo_boot_memory_def demo_kernel_version_def secure_boot_def
      tpm_lines_def demo_kexec_tpm_def fmt split: option.split prod.split)

lemma lab16_ok: "outs_ok (lab16_main fl pid policy nice)"
  by (simp add: lab16_main_def sched_phase_def sched_fields_def fmt split: option.split)

lemma lab33_ok: "outs_ok (lab33_main mounts jbd2 ls groups)"
  by (simp add: lab33_main_def ext4_stats_def mb_groups_def fmt split: option.split)

lemma lab34_ok: "outs_ok (lab34_main fl pid st hp code)"
  by (simp add: lab34_main_def selinux_status_def fmt split: option.split prod.split)

lemma sched_tunable_ok [fmt]: "outs_ok (sched_tunable fl path)"
  by (simp add: sched_tunable_def fmt split: option.split)

lemma lab35_ok: "outs_ok (lab35_main fl nice allowed)"
  by (simp add: lab35_main_def cpu_list_def fmt)

lemma kernel_tunable_ok [fmt]: "outs_ok (kernel_tunable fl name)"
  by (simp add: kernel_tunable_def fmt split: option.split)

lemma lab37_ok: "outs_ok (lab37_main fl)"
  by (simp add: lab37_main_def fmt)

lemma lab38_ok: "outs_ok (lab38_main cpuid fl groups)"
  by (simp add: lab38_main_def hypervisor_phase_def fmt split: option.split prod.split)


lemma cg_path_ok [fmt]: "outs_ok (snd (cg_path fl))"
proof -
  have "outs_ok (snd st) \<Longrightarrow> outs_ok (snd (fold cg_line ls st))" for ls st
    by (induction ls arbitrary: st) (auto simp: cg_line_def fmt)
  then show ?thesis by (simp add: cg_path_def split: option.split)
qed

lemma lab39_ok: "outs_ok (lab39_main fl ino)"
  by (simp add: lab39_main_def cgroup_phase1_def ns_phase_def cgroup_phase5_def memory_limit_def pids_limit_def fmt
      split: option.split prod.split)

lemma cache_loop_ok [fmt]: "outs_ok (cache_loop fl i k)"
  by (induction fl i k rule: cache_loop.induct) (simp_all add: cache_line_def fmt split: option.split)

lemma numa_loop_ok [fmt]: "outs_ok (numa_loop fl i k)"
  by (induction fl i k rule: numa_loop.induct) (simp_all add: numa_line_def fmt split: option.split)

lemma cpuinfo_loop_ok [fmt]: "outs_ok (cpuinfo_loop n ls)"
  by (induction n ls rule: cpuinfo_loop.induct) (simp_all add: fmt)

lemma gpu_loop_ok [fmt]: "outs_ok (gpu_loop fl g es)"
  by (induction fl g es rule: gpu_loop.induct) (simp_all add: fmt split: option.split)

lemma numa_scan_ok [fmt]: "outs_ok (numa_scan fl)"
  unfolding numa_scan_def by (rule outs_ok_concat_map) (simp add: numa_line_def fmt split: option.split)

lemma lab02_ok: "outs_ok (lab02_main cpuid fl configured online)"
  by (simp add: lab02_main_def demo_cpuid_def demo_cache_hierarchy_def demo_topology_def demo_memory_info_def
      demo_iomem_def demo_cpuinfo_iomem_def fmt split: option.split)

lemma lab40_ok: "outs_ok (lab40_main e)"
  by (simp add: lab40_main_def gpu_topology_def shared_memory_phase_def locked_memory_limit_def fmt split: option.split)

section \<open>Memory and file system labs\<close>

lemma smaps_entry_ok [fmt]: "outs_ok (smaps_entry target found ls)"
  by (induction target found ls rule: smaps_entry.induct) (simp_all add: fmt)

lemma lab09_ok: "run_ok (lab09_main e)"
  by (simp add: lab09_main_def demo_fault_counting_def demo_smaps_def demo_madvise_dontneed_def fmt
      split: option.split)

lemma lab11_ok: "outs_ok (lab11_main fl ps mm nw hp dmesg mem2 now2)"
  by (simp add: lab11_main_def demo_tlb_pressure_def demo_hugepages_def demo_boot_overview_def
      demo_strided_benchmark_def fmt split: option.split)

lemma lab26_ok: "run_ok (lab26_main pid flt p)"
  by (simp add: lab26_main_def fmt split: option.split)

lemma lab28_ok: "run_ok (lab28_main fl mm nw)"
  by (simp add: lab28_main_def mglru_status_def fmt split: option.split prod.split)

lemma lab29_ok: "outs_ok (lab29_main e)"
  by (simp add: lab29_main_def statvfs_lines_def stat_lines_def io_scheduler_def pread_phase_def fmt
      split: option.split prod.split)

lemma lab30_ok: "outs_ok (lab30_main e)"
  by (simp add: lab30_main_def dentry_state_def inode_phase_def root_mount_def journal_mode_def fmt
      split: option.split prod.split)

lemma lab31_ok: "outs_ok (lab31_main e)"
  by (simp add: lab31_main_def fmt)

lemma lab32_ok: "outs_ok (lab32_out tmp ok1)"
  by (simp add: lab32_out_def fmt)


section \<open>Address spaces, processes and counters\<close>

lemma demo_stack_frame_ok [fmt]: "outs_ok (demo_stack_frame frames n)"
  by (induction frames n rule: demo_stack_frame.induct) (simp_all add: frame_lines_def fmt)

lemma lab03_ok: "pred_option outs_ok (lab03_main frames tsc ml code)"
  by (simp add: lab03_main_def demo_volatile_effect_def demo_calling_convention_def demo_args_def demo_stack_layout_def
      demo_inline_asm_def demo_disassembly_hint_def fmt option.pred_map split: bind_split option.split)

lemma lab08_ok: "run_ok (lab08_main e)"
  by (simp add: lab08_main_def demo_page_size_def demo_pagemap_def region_line_def demo_page_alignment_def la57_check_def
     fmt split: option.split prod.split)

lemma lab10_ok: "run_ok (lab10_main mps pages bf af lb pid page e)"
  by (simp add: lab10_main_def demo_vma_growth_def demo_mprotect_split_def demo_cow_after_fork_def
     demo_maps_before_after_mmap_def fmt split: option.split prod.split)

lemma lab13_ok: "run_ok (lab13_main fl lb pid mm flt child mp cm)"
  by (simp add: lab13_main_def cow_phase_def kpti_status_def vma_phase_def fmt split: option.split prod.split)

lemma lab15_ok: "outs_ok (lab15_main fl pid t1 t2 t3)"
  by (simp add: lab15_main_def demo_ctx_switch_cost_def demo_thread_switch_def demo_voluntary_stats_def
     demo_getpid_latency_def fmt)

lemma ancestors_ok: "ancestors fl n d pid = (os, r) \<Longrightarrow> outs_ok os"
  by (induction fl n d pid arbitrary: os r rule: ancestors.induct)
    (auto simp: fmt split: if_splits option.splits prod.splits)

lemma lab17_ok: "outs_ok (lab17_main fl st pid ppid)"
  by (simp add: lab17_main_def demo_pid1_info_def demo_our_ancestors_def demo_systemd_units_def fmt ancestors_ok
     split: option.split prod.split)

lemma lab18_ok: "outs_ok (lab18_main r s)"
  by (simp add: lab18_main_def racy_report_def safe_report_def flag_phase_def fmt)

lemma lab19_ok: "outs_ok (lab19_report a b c d)"
  by (simp add: lab19_report_def fmt)

lemma lab20_ok: "outs_ok (lab20_report a b c)"
  by (simp add: lab20_report_def fmt)

lemma lab21_ok: "pred_option outs_ok (lab21_main t s s2 sec nsec)"
  by (auto simp: lab21_main_def rw_report_def trylock_phase_def seqlock_phase_def fmt split: option.splits prod.splits)

lemma lab24_ok: "pred_option outs_ok (lab24_report s t)"
  by (simp add: lab24_report_def fmt option.pred_map option.pred_True split: prod.split)

lemma lab36_ok: "pred_option (outs_ok \<circ> fst) (lab36_main malloc)"
  by (auto simp: lab36_main_def rcu_read_def rcu_update_def gen_phase_def reader_line_def fmt split: option.splits prod.splits)

section \<open>Concurrent programs\<close>

text \<open>That the output so far is well typed is an invariant of the threads' steps.\<close>

interpretation fx_fmt: invariant_system fx_start fx_any "\<lambda>s. outs_ok (fx_out s)"
  by unfold_locales
    (auto simp: fx_start_def fx_any_def fx_step_def futex_wake_def fmt
       elim!: sleeper.cases fx_main.cases fx_spurious.cases futex_wait.cases)

lemma lab25_ok: "fx_any\<^sup>*\<^sup>* fx_start s \<Longrightarrow> outs_ok (lab25_main s)"
  using fx_fmt.inv_reachable by (simp add: lab25_main_def publish_phase_def fmt)

interpretation tf_fmt: invariant_system "tf_init e" "thread_func e" "\<lambda>s. outs_ok (tf_out s)" for e
  by unfold_locales (auto simp: tf_init_def fmt elim!: thread_func.cases)

lemma flag_kind [fmt]: "kind_of (flag b) = KNum"
  by (simp add: flag_def)

lemma lab01_ok: "(thread_func e)\<^sup>*\<^sup>* (tf_init e) s \<Longrightarrow> outs_ok (lab01_main l s)"
  using tf_fmt.inv_reachable
  by (simp add: lab01_main_def demo_threads_shared_space_def demo_process_isolation_def demo_address_space_map_def
    demo_fs_devices_def demo_count_vma_regions_def fmt outs_ok_concat_map split: option.split prod.split)

interpretation pw_fmt: invariant_system "pw_start e" "pw_step e" "\<lambda>s. outs_ok (pw_out s)" for e
  by unfold_locales (auto simp: pw_start_def kid_lines_def reap_line_def fmt elim!: pw_stepE)

lemma lab14_ok: "(pw_step e)\<^sup>*\<^sup>* (pw_start e) s \<Longrightarrow> outs_ok (lab14_main e fl s z)"
  using pw_fmt.inv_reachable by (simp add: lab14_main_def fmt)

interpretation cv_fmt: invariant_system cv_init cv_any "\<lambda>s. outs_ok (cv_out s)"
  by unfold_locales
    (auto simp: cv_init_def cv_any_def cv_step_def produced_msg_def consumed_msg_def fmt
       elim!: producer.cases produce.cases consumer.cases spurious.cases)

lemma lab22_ok: "cv_any\<^sup>*\<^sup>* cv_init s \<Longrightarrow> outs_ok (lab22_main s)"
  using cv_fmt.inv_reachable by (simp add: lab22_main_def fmt)

interpretation sem_fmt: invariant_system sem_start sem_step "\<lambda>s. outs_ok (sem_out s)"
  by unfold_locales
    (auto simp: sem_start_def sem_step_def put_msg_def got_msg_def fmt elim!: sem_producer.cases sem_consumer.cases)

lemma lab23_ok: "sem_step\<^sup>*\<^sup>* sem_start s \<Longrightarrow> outs_ok (lab23_main s)"
  using sem_fmt.inv_reachable by (simp add: lab23_main_def sem_report_def fmt)


section \<open>The experiments\<close>

lemma proc_file_loop_ok: "proc_file_loop n c = (os, e) \<Longrightarrow> outs_ok os"
  by (induction n c arbitrary: os e rule: proc_file_loop.induct) (auto simp: fmt split: option.splits prod.splits)

lemma print_proc_file_ok [fmt]: "outs_ok (print_proc_file fl err path n)"
  by (auto simp: print_proc_file_def fmt dest: proc_file_loop_ok split: option.split prod.split)

lemma smaps_loop_ok [fmt]: "outs_ok (smaps_loop target found k ls)"
  by (induction ls arbitrary: found k) (simp_all add: fmt)

lemma oom_entry_ok [fmt]: "outs_ok (oom_entry fl junk p)"
  by (simp add: oom_entry_def fmt split: option.split)

lemma cg_entry_ok [fmt]: "outs_ok (cg_entry fl p)"
  by (simp add: cg_entry_def fmt split: option.split)

lemma meminfo_line_ok [fmt]: "outs_ok (meminfo_line l)"
  by (simp add: meminfo_line_def fmt split: option.split)

lemma exercises_ok [fmt]:
  "outs_ok (ex_task_struct fl pid)" "outs_ok (ex_mm_struct fl err an)"
  "outs_ok (ex_page_fault_lifecycle fls pid faults mm)"
  "outs_ok (ex_oom_killer fl err junk pid)" "outs_ok (ex_huge_pages fl err mm nw)"
  "outs_ok (ex_meminfo_tour fl)" "outs_ok (ex_kthreads fl err)" "outs_ok (ex_process_lineage li)"
  "outs_ok (ex_cgroup_memory fl)"
  by (simp_all add: ex_task_struct_def ex_mm_struct_def ex_page_fault_lifecycle_def print_status_field_def
      ex_oom_killer_def ex_huge_pages_def ex_meminfo_tour_def ex_kthreads_def
      kthread_table_def ex_process_lineage_def lineage_child_def lineage_parent_def ex_cgroup_memory_def fmt
      split: option.split)

lemma ex_mmap_types_ok: "run_ok (ex_mmap_types fl ap exe sh)"
  by (simp add: ex_mmap_types_def file_note_def fmt split: option.split)

lemma process_memory_ok: "run_ok (pm_main e)"
  using ex_mmap_types_ok [of "pm_fs e 4" "pm_mem e 4" "pm_exe e" "pm_mem e 5"]
  by (cases "ex_mmap_types (pm_fs e 4) (pm_mem e 4) (pm_exe e) (pm_mem e 5)") (simp_all add: pm_main_def fmt)

lemma dp_write_ok: "dp_write ppc m = (m', os) \<Longrightarrow> outs_ok os"
proof -
  have "outs_ok (snd st) \<Longrightarrow> outs_ok (snd (fold (dp_write_step ppc) ks st))" for ks st
    by (induction ks arbitrary: st) (auto simp: dp_write_step_def fmt)
  from this [of "(m, [])"] show "dp_write ppc m = (m', os) \<Longrightarrow> ?thesis"
    by (auto simp: dp_write_def) (metis snd_conv)
qed

lemma demand_paging_ok: "outs_ok (fst (dp_main e input))"
  by (simp add: dp_main_def page_size_def dp_phases_def dp_header_def dp_read_def wait_for_enter_def dp_write_ok fmt
     split: option.split prod.split)

lemma join_workers_ok: "join_workers i rs acc = (os, r) \<Longrightarrow> outs_ok os"
  by (induction i rs acc arbitrary: os r rule: join_workers.induct) (auto simp: fmt split: prod.splits)

lemma collect_ok: "collect e p ls acc = (os, r) \<Longrightarrow> outs_ok os"
  by (induction e p ls acc arbitrary: os r rule: collect.induct)
    (auto simp: fmt split: prod.splits if_splits option.splits)

lemma pcm_round_ok: "pcm_round e c = (os, r) \<Longrightarrow> outs_ok os"
  by (auto simp: pcm_round_def round_threads_def round_processes_def summary_def fmt
      dest!: join_workers_ok collect_ok split: if_splits sum.splits prod.splits option.splits)

lemma pcm_rounds_ok: "pcm_rounds env c rs = (os, rc) \<Longrightarrow> outs_ok os"
  by (induction env c rs arbitrary: os rc rule: pcm_rounds.induct)
    (auto simp: fmt dest!: pcm_round_ok split: prod.splits option.splits)

lemma page_cache_ok: "outs_ok (fst (pcm_main stat env argv))"
  by (auto simp: pcm_main_def pcm_banner_def pcm_usage_def fmt dest!: pcm_rounds_ok
     split: sum.split prod.split pcm_error.split)

section \<open>Programs with signal handlers\<close>

lemma and_then_ok [fmt]: "trap_ok r \<Longrightarrow> (\<And>s. outs_ok (t_out s) \<Longrightarrow> trap_ok (f s)) \<Longrightarrow> trap_ok (and_then r f)"
  by (cases r) (auto simp: and_then_def)

lemma emit_ok [fmt]: "outs_ok (t_out (emit os s)) \<longleftrightarrow> outs_ok (t_out s) \<and> outs_ok os"
  by (simp add: emit_def)

lemma map_page_out [fmt]: "t_out (map_page e a m s) = t_out s"
  by (simp add: map_page_def)

lemma handlers_ok:
  "outs_ok (t_out s) \<Longrightarrow> outs_ok (t_out (segv_handler f s))" "outs_ok (t_out s) \<Longrightarrow> outs_ok (t_out (trap_handler f s))"
  by (simp_all add: segv_handler_def trap_handler_def siglongjmp_def segv_report_def trap_report_def emit_def fmt)

lemma guarded_ok:
  assumes "\<And>f t. outs_ok (t_out t) \<Longrightarrow> outs_ok (t_out (h f t))"
    and "outs_ok (t_out s)" "outs_ok pre" "outs_ok normal" "outs_ok recovered"
  shows "trap_ok (guarded h (emit pre) acc normal recovered s)"
  using assms by (auto simp: guarded_def deliver_def and_then_def sigsetjmp_def emit_def Let_def split: option.split)

lemma lab05_phases_ok:
  assumes "outs_ok (t_out s)"
  shows "trap_ok (demo_null_deref e s)" "trap_ok (demo_guard_page e s)" "trap_ok (demo_write_protect e s)"
    "trap_ok (demo_bus_error_sim e s)"
  using assms handlers_ok
  by (auto simp: demo_null_deref_def demo_guard_page_def demo_write_protect_def demo_bus_error_sim_def emit_def fmt
      intro!: guarded_ok and_then_ok split: option.split)

lemma lab05_ok: "trap_ok (lab05_main e)"
proof -
  have "outs_ok (t_out (setup_handler (trap_start e)))"
    by (simp add: setup_handler_def sigaction_def trap_start_def)
  then show ?thesis
    unfolding lab05_main_def by (auto intro!: and_then_ok lab05_phases_ok simp: fmt)
qed

lemma lab06_phases_ok:
  assumes "outs_ok (t_out s)"
  shows "trap_ok (demo_div_zero e s)" "trap_ok (demo_breakpoint e s)" "trap_ok (demo_fault_address_handler e s)"
  using assms handlers_ok
  by (auto simp: demo_div_zero_def demo_breakpoint_def demo_fault_address_handler_def fmt intro!: guarded_ok)

lemma lab06_ok: "trap_ok (lab06_main e)"
proof -
  have "outs_ok (t_out (install_handlers (trap_start e)))"
    by (simp add: install_handlers_def sigaction_def trap_start_def)
  then show ?thesis
    unfolding lab06_main_def by (auto intro!: and_then_ok lab06_phases_ok)
qed

section \<open>All programs\<close>

text \<open>
  \<open>printed os\<close>: some run of one of the programs prints \<open>os\<close>, the recap of lab 19 left aside. For the
  programs with threads \<open>os\<close> is what has been printed in any state the threads reach.
\<close>

inductive printed :: "out list \<Rightarrow> bool" where
  page_cache: "printed (fst (pcm_main stat env argv))"
| demand_paging: "printed (fst (dp_main e_dp input))"
| process_memory: "pm_main e_pm = Inl os \<or> pm_main e_pm = Inr os \<Longrightarrow> printed os"
| lab01: "(thread_func e1)\<^sup>*\<^sup>* (tf_init e1) s1 \<Longrightarrow> printed (lab01_main l1 s1)"
| lab02: "printed (lab02_main cpuid fl configured online)"
| lab03: "lab03_main frames tsc max_leaf code = Some os \<Longrightarrow> printed os"
| lab04: "printed (lab04_main fl segs)"
| lab05: "lab05_main te = Inl ts \<or> lab05_main te = Inr ts \<Longrightarrow> printed (t_out ts)"
| lab06: "lab06_main te = Inl ts \<or> lab06_main te = Inr ts \<Longrightarrow> printed (t_out ts)"
| lab07: "printed (lab07_main fl)"
| lab08: "lab08_main e8 = Inl os \<or> lab08_main e8 = Inr os \<Longrightarrow> printed os"
| lab09: "lab09_main e9 = Inl os \<or> lab09_main e9 = Inr os \<Longrightarrow> printed os"
| lab10: "lab10_main mps pages before after lb pid page e10 = Inl os \<or>
          lab10_main mps pages before after lb pid page e10 = Inr os \<Longrightarrow> printed os"
| lab11: "printed (lab11_main fl ps mm clk hp dmesg mm2 clk2)"
| lab12: "printed (lab12_main fl acc dmesg config)"
| lab13: "lab13_main fl lb pid mm13 flt child mp cm = Inl os \<or>
          lab13_main fl lb pid mm13 flt child mp cm = Inr os \<Longrightarrow> printed os"
| lab14: "(pw_step e14)\<^sup>*\<^sup>* (pw_start e14) s14 \<Longrightarrow> printed (lab14_main e14 fl s14 z)"
| lab15: "printed (lab15_main fl pid t1 t2 t3)"
| lab16: "printed (lab16_main fl pid policy nice)"
| lab17: "printed (lab17_main fl stat_ok pid ppid)"
| lab18: "printed (lab18_main r s)"
| lab19: "printed (lab19_report s_mtx t_mtx s_spin t_spin)"
| lab20: "printed (lab20_report t_coarse t_fine mutex_size)"
| lab21: "lab21_main t21 s21 seq ts_sec ts_nsec = Some os \<Longrightarrow> printed os"
| lab22: "cv_any\<^sup>*\<^sup>* cv_init s22 \<Longrightarrow> printed (lab22_main s22)"
| lab23: "sem_step\<^sup>*\<^sup>* sem_start s23 \<Longrightarrow> printed (lab23_main s23)"
| lab24: "lab24_report s24 t24 = Some os \<Longrightarrow> printed os"
| lab25: "fx_any\<^sup>*\<^sup>* fx_start s25 \<Longrightarrow> printed (lab25_main s25)"
| lab26: "lab26_main pid flt p26 = Inl os \<or> lab26_main pid flt p26 = Inr os \<Longrightarrow> printed os"
| lab28: "lab28_main fl mm clk = Inl os \<or> lab28_main fl mm clk = Inr os \<Longrightarrow> printed os"
| lab29: "printed (lab29_main e29)"
| lab30: "printed (lab30_main e30)"
| lab31: "printed (lab31_main e31)"
| lab32: "printed (lab32_out tmpdata ok1)"
| lab33: "printed (lab33_main mounts jbd2 ls groups)"
| lab34: "printed (lab34_main fl pid stack hp34 code34)"
| lab35: "printed (lab35_main fl nice allowed)"
| lab36: "lab36_main malloc = Some (os, m36) \<Longrightarrow> printed os"
| lab37: "printed (lab37_main fl)"
| lab38: "printed (lab38_main cpuid fl iommu)"
| lab39: "printed (lab39_main fl ino)"
| lab40: "printed (lab40_main e40)"

lemma run_ok_cases: "run_ok r \<Longrightarrow> r = Inl os \<or> r = Inr os \<Longrightarrow> outs_ok os"
  by auto

lemma trap_ok_cases: "trap_ok r \<Longrightarrow> r = Inl s \<or> r = Inr s \<Longrightarrow> outs_ok (t_out s)"
  by auto

lemma pred_option_Some: "pred_option P x \<Longrightarrow> x = Some y \<Longrightarrow> P y"
  by simp

lemmas program_ok = page_cache_ok demand_paging_ok lab01_ok lab02_ok lab04_ok lab07_ok lab11_ok lab12_ok lab14_ok
  lab15_ok lab16_ok lab17_ok lab18_ok lab19_ok lab20_ok lab22_ok lab23_ok lab25_ok lab29_ok lab30_ok lab31_ok
  lab32_ok lab33_ok lab34_ok lab35_ok lab37_ok lab38_ok lab39_ok lab40_ok

lemmas program_run_ok = process_memory_ok lab08_ok lab09_ok lab10_ok lab13_ok lab26_ok lab28_ok

lemmas program_trap_ok = lab05_ok lab06_ok

lemmas program_option_ok = lab03_ok lab21_ok lab24_ok

lemma printed_ok: "printed os \<Longrightarrow> outs_ok os"
proof (induction rule: printed.induct)
  case (lab36 malloc os m)
  then show ?case using pred_option_Some [OF lab36_ok, of malloc] by fastforce
qed ((rule program_ok program_run_ok [THEN run_ok_cases] program_trap_ok [THEN trap_ok_cases]
        program_option_ok [THEN pred_option_Some]; assumption?)+)

text \<open>
  C21. Whatever the kernel answers and however the threads are scheduled, every \<^verbatim>\<open>printf\<close> and \<^verbatim>\<open>fprintf\<close>
  that is recorded of the programs has the arguments its format asks for: as many as it has directives,
  each of the kind of its conversion (integer, text, pointer or double). The exception is the recap of
  lab 19, whose last line has the directive \<^verbatim>\<open>% C\<close> and no argument.
\<close>

theorem output_well_typed:
  assumes "printed os"
  shows "list_all out_ok os \<and> \<not> list_all out_ok lab19_recap"
  using printed_ok [OF assms] by (simp add: lab19_recap_def fmt)

theorem output_well_typed_witness:
  "list_all out_ok (lab20_report 1 2 40) \<and> \<not> out_ok (Printf ''%d'' [Str ''x''])"
  using output_well_typed [OF printed.lab20, of 1 2 40] by (simp add: fmt)

end
