(* ===== verification/Spec2Isabelle.thy ===== *)
theory Spec2Isabelle
  imports PageCacheMain Counters Locks LockVariations CondVar SemBuffer LockFree RcuConcurrent Futex DemandPaging
    ProcExercises ContextSwitch MemoryLabs PcArch Traps CrashRecovery AddressSpaces Processes X86Calling CloudLabs
    Atomicity StackRefinement PrintfTypes
begin

text \<open>
  Verification of the Linux page cache and operating system labs.

  \<^bold>\<open>The program.\<close> The repository is a course: forty-two C programs under \<^verbatim>\<open>src/labs\<close>, each with its own
  \<^verbatim>\<open>main\<close>, that let the kernel show how it works. Two are full experiments with command lines and
  phases (\<^verbatim>\<open>page_cache_models.c\<close>, \<^verbatim>\<open>demand_paging.c\<close>), one is a collection of ten exercises
  (\<^verbatim>\<open>process_memory_exercises.c\<close>), the others are numbered labs. They interact with the kernel through
  system calls, \<^verbatim>\<open>/proc\<close> and \<^verbatim>\<open>/sys\<close>, and inside a lab threads and processes interact through shared
  memory, locks, semaphores, condition variables, futexes, pipes, signals and exit statuses.

  \<^bold>\<open>How it is modelled.\<close> A definition has the name of the C function it translates and returns what
  the function prints (the type \<open>out\<close> of \<open>Prelude\<close>: format string and argument values) together with
  its result; errors and early returns are branches of the definition, a use of memory that was not
  allocated ends the run with \<open>Inl\<close>. Everything the kernel answers (addresses, file contents,
  counters, clock readings, results of calls) is a parameter, mostly a record ending in \<open>_env\<close> or a
  function from the number of the call. Threads are \<open>inductive\<close> step relations on a record of the
  shared and local variables, one step per atomic action of the source; a schedule is any sequence of
  steps. Integers wrap or overflow where the source's types do.

  \<^bold>\<open>Interfaces.\<close> \<open>invariant_system\<close> (an invariant every step keeps), \<open>ending_system\<close> (it adds an end
  state and a variant: no deadlock, no endless run) and \<open>refining_system\<close> (it adds an abstract
  system the steps are mapped to) in \<open>Prelude\<close>; \<open>bounded_queue\<close> in \<open>RingBuffer\<close>; \<open>fault_handler\<close> in
  \<open>Traps\<close>. Each is interpreted on the definitions of the labs, and the properties rest on the facts
  of the interpretations.

  \<^bold>\<open>Theories.\<close>
    \<^item> \<open>Prelude\<close>: machine types, output events, sums over threads, the transition system locales.
      \<open>Clock\<close>: clock readings and their conversion, fault counters.
    \<^item> \<open>Libc\<close>: \<^verbatim>\<open>fgets\<close>, \<^verbatim>\<open>strstr\<close>, \<^verbatim>\<open>snprintf\<close>, decimal and hexadecimal numbers, \<^verbatim>\<open>strtol\<close> and \<^verbatim>\<open>scanf\<close>,
      with the lines \<^verbatim>\<open>fgets\<close> delivers and the round trip of printing and scanning numbers.
      \<open>ProcFs\<close>: the print loops over \<^verbatim>\<open>/proc\<close> files the labs share.
    \<^item> \<open>PageCache\<close> (\<^verbatim>\<open>page_cache_models.c\<close>): command line, slices, the read loop with its checksum, rounds
      of threads and of processes with the pipe protocol, exit status. The slices partition the file,
      the checksum does not depend on buffering, processes and threads report the same totals.
      \<open>PageCacheMain\<close>: the complete output of the program when its calls succeed, and its output and
      exit status when workers or children fail.
    \<^item> \<open>Counters\<close> (labs 18 and 01), \<open>Locks\<close> (19, 20), \<open>LockVariations\<close> (21): lost updates and their
      bounds, exact counts under atomics and locks, fine against coarse locking, read-write lock,
      sequence lock. \<open>Atomicity\<close>: the locked workers refine the atomic counter.
    \<^item> \<open>RingBuffer\<close>, \<open>CondVar\<close> (22), \<open>SemBuffer\<close> (23): the circular array as a bounded queue, and the two
      producer-consumer programs on top of it, with spurious wake-ups; order, capacity, no lost
      wake-up, termination, refinement of an abstract queue.
    \<^item> \<open>LockFree\<close> (24), \<open>Rcu\<close> and \<open>RcuConcurrent\<close> (36), \<open>Futex\<close> (25): explicit heaps with \<^verbatim>\<open>malloc\<close> and \<^verbatim>\<open>free\<close>,
      compare-and-swap, use after free, release ordering, hand-over through a futex. \<open>StackRefinement\<close>: the pushes refine a stack with
      atomic pushes.
    \<^item> \<open>DemandPaging\<close> (\<^verbatim>\<open>demand_paging.c\<close>), \<open>ProcExercises\<close> (\<^verbatim>\<open>process_memory_exercises.c\<close>): the two
      programs in full.
    \<^item> \<open>ContextSwitch\<close> (15), \<open>MemoryLabs\<close> (09, 11, 26, 28, 29), \<open>PcArch\<close> (02, 40), \<open>Traps\<close> (05, 06),
      \<open>FileSystems\<close> (30, 31), \<open>CrashRecovery\<close> (32), \<open>AddressSpaces\<close> (08, 10, 13 and the rest of 01),
      \<open>Processes\<close> (14, 17), \<open>X86Calling\<close> (03), \<open>SystemInfo\<close> (04, 07, 12, 16, 33, 34, 35, 37),
      \<open>CloudLabs\<close> (38, 39): the remaining labs, one group of definitions each.
    \<^item> \<open>PrintfTypes\<close>: the directives of format strings, and that the output of all programs is well typed.
    \<^item> This theory: what spans several of them.

  \<^bold>\<open>Bounds and fuel.\<close> Loops are structural recursions or have a termination proof, and the bounds
  are those of the sources (twenty ancestors, twenty lines, buffer sizes). Two loops need not end:
  \<open>drain\<close> of \<open>LockFree\<close> on a cyclic list is a partial function into \<open>option\<close>, and the property shows
  that it returns; the retry loop \<open>seq_read\<close> of \<open>LockVariations\<close> has fuel, one round in the program,
  where one round is shown to be enough, two in the history that yields a torn result, and one more than
  the loads the writer needs in \<open>seqlock_consistent\<close>.

  \<^bold>\<open>Memory model.\<close> Steps are interleaved, which is sequential consistency. The one exception
  is \<open>RcuConcurrent\<close>: the lab orders its accesses by acquire and release, so the writer's stores wait in
  a buffer that only the release store leaves in order. Compiler reordering of the volatile accesses in
  labs 18 and 21 is outside of the model.

  \<^bold>\<open>Not modelled.\<close> Constant explanatory text is left out everywhere. The branches for other
  architectures than x86-64, the scripts, the container and virtual machine configuration and the
  course material contain no program logic of the labs. What the kernel does with a request is not
  modelled beyond the documented behaviour stated where it is used. Threads that end with a message on
  the error stream inside a child process are modelled up to their exit status.

  \<^bold>\<open>Sources that do not compile.\<close> In labs 11, 33 and 38 the exercise comment holds a path with a star
  before a slash, which ends the comment early. The model takes the text up to the next end of a
  comment as part of it, as it is meant.

  \<^bold>\<open>Assumptions on calls.\<close> Where a lab does not test the result of \<^verbatim>\<open>malloc\<close>, \<^verbatim>\<open>pthread_create\<close> or \<^verbatim>\<open>fork\<close>,
  the model is that of the runs in which the call succeeds (but \<open>push_null\<close> of \<open>LockFree\<close> is an allocation
  that fails, and \<open>fork_wait\<close> of \<open>AddressSpaces\<close> covers a failed \<^verbatim>\<open>fork\<close>):
  joining a thread that was never created is undefined behaviour. Where it does, both branches are
  modelled.
\<close>

section \<open>One abstract queue for two labs\<close>

text \<open>
  C9. The producer-consumer programs of labs 22 and 23 implement the same abstract bounded queue. Lab 22
  synchronises with a mutex and condition variables and tolerates spurious wake-ups, lab 23 with
  semaphores; every state their threads can reach represents a state that the abstract queue of
  capacity 8 or 5 reaches by putting the next number at the end and taking the oldest item.
\<close>

theorem queues_refine_fifo:
  "(cv_any\<^sup>*\<^sup>* cv_init s \<longrightarrow> (fifo_step 8)\<^sup>*\<^sup>* fifo_start (cv_abs s)) \<and>
   (sem_step\<^sup>*\<^sup>* sem_start t \<longrightarrow> (fifo_step 5)\<^sup>*\<^sup>* fifo_start (sem_abs t))"
  using cvq.refines [of s] semq.refines [of t]
  by (simp add: cv_abs_init sem_abs_start src_consts)

theorem queues_refine_fifo_witness:
  "\<exists>e. cv_joined e \<and> (fifo_step 8)\<^sup>*\<^sup>* fifo_start (cv_abs e) \<and> fst (snd (cv_abs e)) = 20 \<and>
       (fifo_step 5)\<^sup>*\<^sup>* fifo_start (sem_abs sem_start)"
proof -
  obtain e where e: "cv_step\<^sup>*\<^sup>* cv_init e" "cv_joined e" using cv.reaches_end by blast
  then have "cv_any\<^sup>*\<^sup>* cv_init e" by (auto elim!: mono_rtranclp [rule_format, rotated] simp: cv_any_def)
  moreover have "fst (snd (cv_abs e)) = 20" using e(2) by (simp add: cv_abs_def cv_joined_def src_consts)
  ultimately show ?thesis using queues_refine_fifo [of e sem_start] e(2) by blast
qed

end
